(* ===== verification/Nvp_Prelude.thy ===== *)
theory Nvp_Prelude
  imports Main "HOL-Library.Word"
begin

text \<open>
  Shared vocabulary of the development: the machine integers of the simulator
  (\<open>base/types.hh\<close>), the ways in which its C++ code stops (a failed \<open>assert\<close>, \<open>panic\<close>,
  \<open>fatal\<close>, undefined behaviour) as error values, the sequencing of operations that may
  stop, and generic facts on lists that several components use.
\<close>

section \<open>Machine integers\<close>

text \<open>\<open>Tick\<close>, \<open>Addr\<close> and \<open>Cycles\<close> are \<open>uint64_t\<close> in \<open>base/types.hh\<close>; addition wraps.\<close>

type_synonym u8 = "8 word"
type_synonym u16 = "16 word"
type_synonym u32 = "32 word"
type_synonym u64 = "64 word"
type_synonym tick = u64
type_synonym cycles = u64
type_synonym addr = u64

section \<open>Results of operations that may stop the simulator\<close>

text \<open>A loop that does not end is the error \<open>Diverges\<close>.\<close>

datatype sim_error =
    Assert_Failed
  | Panic
  | Fatal
  | Undefined
  | Diverges

type_synonym 'a res = "sim_error + 'a"

definition returns :: "'a option \<Rightarrow> 'a res" where
  "returns x = (case x of None \<Rightarrow> Inl Diverges | Some y \<Rightarrow> Inr y)"

definition bindE :: "'a res \<Rightarrow> ('a \<Rightarrow> 'b res) \<Rightarrow> 'b res" where
  "bindE m f = (case m of Inl e \<Rightarrow> Inl e | Inr x \<Rightarrow> f x)"

definition assertE :: "bool \<Rightarrow> unit res" where
  "assertE b = (if b then Inr () else Inl Assert_Failed)"

lemma returns_simps [simp]: "returns (Some y) = Inr y" "returns None = Inl Diverges"
  by (simp_all add: returns_def)

lemma bindE_simps [simp]:
  "bindE (Inl e) f = Inl e"
  "bindE (Inr x) f = f x"
  by (simp_all add: bindE_def)

lemma bindE_Inr_iff: "bindE m f = Inr y \<longleftrightarrow> (\<exists>x. m = Inr x \<and> f x = Inr y)"
  by (cases m) auto

lemma bindE_Inl_iff:
  "bindE m f = Inl e \<longleftrightarrow> m = Inl e \<or> (\<exists>x. m = Inr x \<and> f x = Inl e)"
  by (cases m) auto

lemma bindE_assoc: "bindE (bindE m f) g = bindE m (\<lambda>x. bindE (f x) g)"
  by (cases m) auto

lemma bindE_cong [fundef_cong]:
  "\<lbrakk> m = m'; \<And>x. m' = Inr x \<Longrightarrow> f x = g x \<rbrakk> \<Longrightarrow> bindE m f = bindE m' g"
  by (cases m') auto

lemma assertE_simps [simp]:
  "assertE True = Inr ()"
  "assertE False = Inl Assert_Failed"
  "(assertE b = Inr u) = b"
  "(assertE b = Inl e) = (\<not> b \<and> e = Assert_Failed)"
  by (auto simp: assertE_def)

text \<open>A fold over a list that stops at the first error.\<close>

fun foldE :: "('a \<Rightarrow> 's \<Rightarrow> 's res) \<Rightarrow> 'a list \<Rightarrow> 's \<Rightarrow> 's res" where
  "foldE f [] s = Inr s"
| "foldE f (x # xs) s = bindE (f x s) (foldE f xs)"

lemma foldE_append: "foldE f (xs @ ys) s = bindE (foldE f xs s) (foldE f ys)"
  by (induction xs arbitrary: s) (auto simp: bindE_assoc intro: bindE_cong)

lemma foldE_invariant:
  assumes "foldE f xs s = Inr t" and "I s"
    and "\<And>x s t. \<lbrakk> x \<in> set xs; I s; f x s = Inr t \<rbrakk> \<Longrightarrow> I t"
  shows "I t"
  using assms
proof (induction xs arbitrary: s)
  case Nil
  then show ?case by simp
next
  case (Cons x xs)
  then obtain s' where "f x s = Inr s'" "foldE f xs s' = Inr t"
    by (auto simp: bindE_Inr_iff)
  then show ?case using Cons.IH Cons.prems by (metis list.set_intros)
qed

text \<open>A fold whose steps all succeed from states of an invariant succeeds.\<close>

lemma foldE_total:
  assumes "I s"
    and "\<And>x s. \<lbrakk> x \<in> set xs; I s \<rbrakk> \<Longrightarrow> \<exists>t. f x s = Inr t \<and> I t"
  shows "\<exists>t. foldE f xs s = Inr t \<and> I t"
  using assms
proof (induction xs arbitrary: s)
  case (Cons x xs)
  from Cons.prems obtain s' where "f x s = Inr s'" "I s'"
    by (meson list.set_intros(1))
  with Cons.IH [of s'] Cons.prems(2) show ?case by auto
qed simp

section \<open>Vectors\<close>

text \<open>\<open>operator[]\<close> of \<open>std::vector\<close>: no check, so that an index out of range is undefined.\<close>

definition vec_at :: "'a list \<Rightarrow> 'i::len word \<Rightarrow> 'a res" where
  "vec_at xs i = (if unat i < length xs then Inr (xs ! unat i) else Inl Undefined)"

definition vec_upd :: "('a \<Rightarrow> 'a) \<Rightarrow> 'i::len word \<Rightarrow> 'a list \<Rightarrow> 'a list res" where
  "vec_upd f i xs = (if unat i < length xs then Inr (xs[unat i := f (xs ! unat i)]) else Inl Undefined)"

lemma vec_at_ok [simp]: "unat i < length xs \<Longrightarrow> vec_at xs i = Inr (xs ! unat i)"
  by (simp add: vec_at_def)

lemma vec_upd_ok [simp]: "unat i < length xs \<Longrightarrow> vec_upd f i xs = Inr (xs[unat i := f (xs ! unat i)])"
  by (simp add: vec_upd_def)

section \<open>Collections of facts used by the component proofs\<close>

named_theorems res_elims \<open>how an operation that returned must have run\<close>
named_theorems sm_defs \<open>unfolding rules of the energy state machines\<close>
named_theorems vdev_defs \<open>unfolding rules of the virtual device\<close>

declare bindE_Inr_iff [res_elims]

end
