(* ===== verification/Binary64.thy ===== *)
theory Binary64
  imports Nvp_Prelude "HOL-Library.Log_Nat"
begin

text \<open>
  The C++ type \<open>double\<close>: IEEE 754 binary64 values with round-to-nearest-even, as the energy
  code computes with them. A finite value is the rational number it denotes; \<open>+0\<close> and \<open>-0\<close>
  are identified, since no operation used by the code (\<open>+\<close>, \<open>-\<close>, \<open>*\<close>, comparison,
  conversion) tells them apart except through a division that the code never performs.
  Every arithmetic operation is the exact operation on rationals followed by \<open>d_round\<close>.
\<close>

section \<open>Values and rounding\<close>

datatype double = NaN | PInf | NInf | Fin rat

text \<open>Nearest integer, ties to even.\<close>

definition rne :: "rat \<Rightarrow> int" where
  "rne x = (let f = \<lfloor>x\<rfloor>; r = x - of_int f
            in if r < 1 / 2 then f else if 1 / 2 < r then f + 1
               else if even f then f else f + 1)"

text \<open>The \<open>k\<close> with \<open>2 ^ k \<le> q < 2 ^ (k + 1)\<close>, for positive \<open>q\<close>.\<close>

definition ilog2 :: "rat \<Rightarrow> int" where
  "ilog2 q = (let (a, b) = quotient_of q; k = bitlen a - bitlen b
              in if 2 powi k * of_int b \<le> (of_int a :: rat) then k else k - 1)"

text \<open>Exponent of the unit in the last place: 53 significant bits, subnormals below.\<close>

definition ulp_exp :: "rat \<Rightarrow> int" where
  "ulp_exp q = max (-1074) (ilog2 \<bar>q\<bar> - 52)"

definition rnd :: "rat \<Rightarrow> rat" where
  "rnd q = (if q = 0 then 0
            else of_int (rne (q / 2 powi ulp_exp q)) * 2 powi ulp_exp q)"

definition d_round :: "rat \<Rightarrow> double" where
  "d_round q = (let v = rnd q in
     if 2 ^ 1024 \<le> v then PInf else if v \<le> - (2 ^ 1024) then NInf else Fin v)"

section \<open>Operations\<close>

fun d_neg :: "double \<Rightarrow> double" where
  "d_neg NaN = NaN"
| "d_neg PInf = NInf"
| "d_neg NInf = PInf"
| "d_neg (Fin x) = Fin (- x)"

definition d_add :: "double \<Rightarrow> double \<Rightarrow> double" where
  "d_add x y = (case x of
       NaN \<Rightarrow> NaN
     | PInf \<Rightarrow> (case y of NaN \<Rightarrow> NaN | NInf \<Rightarrow> NaN | _ \<Rightarrow> PInf)
     | NInf \<Rightarrow> (case y of NaN \<Rightarrow> NaN | PInf \<Rightarrow> NaN | _ \<Rightarrow> NInf)
     | Fin a \<Rightarrow> (case y of Fin b \<Rightarrow> d_round (a + b) | _ \<Rightarrow> y))"

definition d_sub :: "double \<Rightarrow> double \<Rightarrow> double" where
  "d_sub x y = d_add x (d_neg y)"

definition d_inf :: "bool \<Rightarrow> double" where
  "d_inf neg = (if neg then NInf else PInf)"

definition d_sign :: "double \<Rightarrow> int" where
  "d_sign x = (case x of NaN \<Rightarrow> 0 | PInf \<Rightarrow> 1 | NInf \<Rightarrow> -1 | Fin a \<Rightarrow>
       if 0 < a then 1 else if a < 0 then -1 else 0)"

definition d_mul :: "double \<Rightarrow> double \<Rightarrow> double" where
  "d_mul x y = (case (x, y) of
       (Fin a, Fin b) \<Rightarrow> d_round (a * b)
     | _ \<Rightarrow> if d_sign x * d_sign y = 0 then NaN else d_inf (d_sign x * d_sign y < 0))"

text \<open>Division; zero has no sign here, so dividing by it gives the infinity of a positive zero.\<close>

definition d_div :: "double \<Rightarrow> double \<Rightarrow> double" where
  "d_div x y = (case (x, y) of
       (Fin a, Fin b) \<Rightarrow> (if b = 0 then (if a = 0 then NaN else d_inf (a < 0)) else d_round (a / b))
     | (Fin a, NaN) \<Rightarrow> NaN
     | (Fin a, _) \<Rightarrow> Fin 0
     | (NaN, _) \<Rightarrow> NaN
     | (_, Fin b) \<Rightarrow> d_inf ((x = NInf) \<noteq> (b < 0))
     | _ \<Rightarrow> NaN)"

definition d_lt :: "double \<Rightarrow> double \<Rightarrow> bool" where
  "d_lt x y = (case x of
       NaN \<Rightarrow> False
     | PInf \<Rightarrow> False
     | NInf \<Rightarrow> (case y of NaN \<Rightarrow> False | NInf \<Rightarrow> False | _ \<Rightarrow> True)
     | Fin a \<Rightarrow> (case y of Fin b \<Rightarrow> a < b | PInf \<Rightarrow> True | _ \<Rightarrow> False))"

definition d_le :: "double \<Rightarrow> double \<Rightarrow> bool" where
  "d_le x y = (case x of
       NaN \<Rightarrow> False
     | PInf \<Rightarrow> (case y of PInf \<Rightarrow> True | _ \<Rightarrow> False)
     | NInf \<Rightarrow> (case y of NaN \<Rightarrow> False | _ \<Rightarrow> True)
     | Fin a \<Rightarrow> (case y of Fin b \<Rightarrow> a \<le> b | PInf \<Rightarrow> True | _ \<Rightarrow> False))"

text \<open>
  Conversions: an unsigned 64-bit integer rounds to the nearest double; a double truncates
  towards zero, and is undefined when the truncated value does not fit.
\<close>

definition d_of_u64 :: "u64 \<Rightarrow> double" where
  "d_of_u64 n = d_round (of_int (uint n))"

fun u64_of_d :: "double \<Rightarrow> u64 res" where
  "u64_of_d (Fin x) = (if -1 < x \<and> x < 2 ^ 64 then Inr (word_of_int \<lfloor>\<bar>x\<bar>\<rfloor>) else Inl Undefined)"
| "u64_of_d _ = Inl Undefined"

abbreviation d_gt :: "double \<Rightarrow> double \<Rightarrow> bool" where
  "d_gt x y \<equiv> d_lt y x"

abbreviation d_ge :: "double \<Rightarrow> double \<Rightarrow> bool" where
  "d_ge x y \<equiv> d_le y x"

section \<open>Rounding to an integer\<close>

lemma rne_of_int [simp]: "rne (of_int n) = n"
  by (simp add: rne_def)

lemma rne_ge: "of_int n \<le> x \<Longrightarrow> n \<le> rne x"
  by (simp add: rne_def Let_def) linarith

lemma rne_le:
  assumes "x \<le> of_int n"
  shows "rne x \<le> n"
proof (cases "x = of_int n")
  case False
  with assms have "\<lfloor>x\<rfloor> + 1 \<le> n" by linarith
  then show ?thesis by (simp add: rne_def Let_def)
qed simp

lemma rne_mono:
  assumes "x \<le> y"
  shows "rne x \<le> rne y"
proof (cases "\<lfloor>x\<rfloor> = \<lfloor>y\<rfloor>")
  case True
  with assms show ?thesis by (auto simp: rne_def Let_def)
next
  case False
  with assms have "\<lfloor>x\<rfloor> + 1 \<le> \<lfloor>y\<rfloor>" by linarith
  moreover have "rne x \<le> \<lfloor>x\<rfloor> + 1" and "\<lfloor>y\<rfloor> \<le> rne y"
    by (simp_all add: rne_def Let_def)
  ultimately show ?thesis by linarith
qed

lemma floor_minus_frac:
  assumes "x \<noteq> of_int \<lfloor>x :: rat\<rfloor>"
  shows "\<lfloor>- x\<rfloor> = - \<lfloor>x\<rfloor> - 1"
  using assms by linarith

lemma rne_by_floor:
  "\<lbrakk> \<lfloor>x\<rfloor> = f; x - of_int f = r \<rbrakk> \<Longrightarrow>
     rne x = (if r < 1 / 2 then f else if 1 / 2 < r then f + 1
              else if even f then f else f + 1)"
  by (auto simp: rne_def)

lemma rne_minus: "rne (- x) = - rne x"
proof (cases "x = of_int \<lfloor>x\<rfloor>")
  case True
  then show ?thesis by (metis of_int_minus rne_of_int)
next
  case False
  then have fl: "\<lfloor>- x\<rfloor> = - \<lfloor>x\<rfloor> - 1" by (rule floor_minus_frac)
  define r where "r = x - of_int \<lfloor>x\<rfloor>"
  have "- x - of_int (- \<lfloor>x\<rfloor> - 1) = 1 - r" by (simp add: r_def)
  from rne_by_floor [OF fl this] rne_by_floor [OF refl r_def [symmetric]]
  show ?thesis by auto
qed

section \<open>The binary exponent\<close>

lemma two_powi_pos [simp]: "0 < (2 :: rat) powi k"
  by (rule zero_less_power_int) simp

lemma two_powi_le_iff [simp]: "(2 :: rat) powi j \<le> 2 powi k \<longleftrightarrow> j \<le> k"
  by (meson linorder_not_le one_less_numeral_iff order_less_imp_le power_int_increasing
      power_int_strict_increasing semiring_norm(76))

lemma two_powi_less_iff [simp]: "(2 :: rat) powi j < 2 powi k \<longleftrightarrow> j < k"
  by (meson linorder_not_le two_powi_le_iff)

lemma two_powi_add: "(2 :: rat) powi (j + k) = 2 powi j * 2 powi k"
  by (simp add: power_int_add)

lemma two_powi_bitlen:
  assumes "0 < a"
  shows "2 powi (bitlen a - 1) \<le> (of_int a :: rat)" and "(of_int a :: rat) < 2 powi bitlen a"
proof -
  have b: "2 ^ nat (bitlen a - 1) \<le> a" "a < 2 ^ nat (bitlen a)" and pos: "0 < bitlen a"
    using bitlen_bounds [of a] bitlen_nonneg [of a] assms bitlen_eq_zero_iff [of a]
    by (auto simp: order_less_le)
  have pw: "(2 :: rat) powi bitlen a = of_int (2 ^ nat (bitlen a))"
    "(2 :: rat) powi (bitlen a - 1) = of_int (2 ^ nat (bitlen a - 1))"
    using pos by (simp_all add: power_int_def)
  show "2 powi (bitlen a - 1) \<le> (of_int a :: rat)" "(of_int a :: rat) < 2 powi bitlen a"
    unfolding pw using b by (simp_all only: of_int_le_iff of_int_less_iff)
qed

lemma ilog2_bounds:
  assumes "0 < q"
  shows "2 powi ilog2 q \<le> q" and "q < 2 powi (ilog2 q + 1)"
proof -
  obtain a b where ab: "quotient_of q = (a, b)" by fastforce
  have b: "0 < b" and q: "q = of_int a / of_int b"
    using quotient_of_denom_pos [OF ab] quotient_of_div [OF ab] by auto
  have a: "0 < a" using assms q b by (simp add: zero_less_divide_iff)
  define k where "k = bitlen a - bitlen b"
  note A = two_powi_bitlen [OF a] and B = two_powi_bitlen [OF b]
  have up: "q < 2 powi (k + 1)"
  proof -
    have "(of_int a :: rat) < 2 powi (k + 1) * 2 powi (bitlen b - 1)"
      using A(2) by (simp add: k_def flip: two_powi_add)
    also have "\<dots> \<le> 2 powi (k + 1) * of_int b" using B(1) by simp
    finally show ?thesis using b by (simp add: q divide_less_eq)
  qed
  have lo: "2 powi (k - 1) \<le> q"
  proof -
    have "(2 :: rat) powi (k - 1) * of_int b \<le> 2 powi (k - 1) * 2 powi bitlen b"
      using B(2) by simp
    also have "\<dots> = 2 powi (bitlen a - 1)" by (simp add: k_def flip: two_powi_add)
    also have "\<dots> \<le> of_int a" by (rule A(1))
    finally show ?thesis using b by (simp add: q le_divide_eq)
  qed
  have i: "ilog2 q = (if 2 powi k * of_int b \<le> (of_int a :: rat) then k else k - 1)"
    by (simp add: ilog2_def ab k_def)
  have c: "2 powi k * of_int b \<le> (of_int a :: rat) \<longleftrightarrow> 2 powi k \<le> q"
    using b by (simp add: q le_divide_eq)
  show "2 powi ilog2 q \<le> q" "q < 2 powi (ilog2 q + 1)"
    using up lo by (auto simp: i c)
qed

lemma ilog2_unique:
  assumes "2 powi k \<le> q" and "q < 2 powi (k + 1)"
  shows "ilog2 q = k"
proof -
  have "0 < q" by (rule less_le_trans [OF two_powi_pos assms(1)])
  note b = ilog2_bounds [OF this]
  have "(2 :: rat) powi k < 2 powi (ilog2 q + 1)" and "(2 :: rat) powi ilog2 q < 2 powi (k + 1)"
    using assms b by linarith+
  then show ?thesis by simp
qed

lemma ilog2_mono:
  assumes "0 < x" and "x \<le> y"
  shows "ilog2 x \<le> ilog2 y"
proof -
  have "2 powi ilog2 x < (2 :: rat) powi (ilog2 y + 1)"
    using ilog2_bounds(1) [of x] ilog2_bounds(2) [of y] assms by linarith
  then show ?thesis by simp
qed

section \<open>Rounding to 53 bits\<close>

lemma rnd_0 [simp]: "rnd 0 = 0"
  by (simp add: rnd_def)

lemma rnd_minus: "rnd (- q) = - rnd q"
  by (simp add: rnd_def ulp_exp_def rne_minus)

lemma two_powi_of_int: "0 \<le> k \<Longrightarrow> (2 :: rat) powi k = of_int (2 ^ nat k)"
  by (simp add: power_int_def)

lemma rnd_nonneg:
  assumes "0 \<le> q"
  shows "0 \<le> rnd q"
proof -
  have "0 \<le> rne (q / 2 powi ulp_exp q)"
    using assms by (intro rne_ge) (simp add: less_imp_le)
  then show ?thesis by (simp add: rnd_def less_imp_le)
qed

text \<open>A power of two above the unit in the last place bounds the rounded value.\<close>

lemma rnd_le_powi:
  assumes "0 < x" and "x \<le> 2 powi k" and "ulp_exp x \<le> k"
  shows "rnd x \<le> 2 powi k"
proof -
  define u where "u = ulp_exp x"
  have k: "(2 :: rat) powi k = 2 powi (k - u) * 2 powi u"
    by (simp flip: two_powi_add)
  have "x / 2 powi u \<le> of_int (2 ^ nat (k - u))"
    using assms by (simp add: k divide_le_eq u_def two_powi_of_int)
  then have "rne (x / 2 powi u) \<le> 2 ^ nat (k - u)" by (rule rne_le)
  then have "(of_int (rne (x / 2 powi u)) :: rat) \<le> of_int (2 ^ nat (k - u))"
    by (simp only: of_int_le_iff)
  also have "\<dots> = 2 powi (k - u)" using assms by (simp add: u_def two_powi_of_int)
  finally show ?thesis using assms(1) by (simp add: rnd_def u_def [symmetric] k)
qed

lemma powi_le_rnd:
  assumes "2 powi k \<le> y" and "ulp_exp y \<le> k"
  shows "2 powi k \<le> rnd y"
proof -
  define u where "u = ulp_exp y"
  have pos: "0 < y" using assms(1) two_powi_pos [of k] by linarith
  have k: "(2 :: rat) powi k = 2 powi (k - u) * 2 powi u"
    by (simp flip: two_powi_add)
  have "of_int (2 ^ nat (k - u)) \<le> y / 2 powi u"
    using assms by (simp add: k le_divide_eq u_def two_powi_of_int)
  then have "2 ^ nat (k - u) \<le> rne (y / 2 powi u)" by (rule rne_ge)
  then have "(of_int (2 ^ nat (k - u)) :: rat) \<le> of_int (rne (y / 2 powi u))"
    by (simp only: of_int_le_iff)
  then have "2 powi (k - u) \<le> (of_int (rne (y / 2 powi u)) :: rat)"
    using assms by (simp add: u_def two_powi_of_int del: of_int_le_iff)
  then show ?thesis using pos by (simp add: rnd_def u_def [symmetric] k)
qed

lemma rnd_mono_pos:
  assumes "0 < x" and "x \<le> y"
  shows "rnd x \<le> rnd y"
proof (cases "ulp_exp x = ulp_exp y")
  case True
  have "rne (x / 2 powi ulp_exp y) \<le> rne (y / 2 powi ulp_exp y)"
    using assms by (intro rne_mono divide_right_mono) (simp_all add: less_imp_le)
  with assms True show ?thesis by (simp add: rnd_def)
next
  case False
  have "ilog2 x \<le> ilog2 y" by (rule ilog2_mono [OF assms])
  with False assms have lt: "ilog2 x < ilog2 y" and uy: "ulp_exp y = ilog2 y - 52"
    and ux: "ulp_exp x \<le> ilog2 y - 52"
    by (auto simp: ulp_exp_def)
  have "x \<le> 2 powi (ilog2 x + 1)" using ilog2_bounds(2) [OF assms(1)] by simp
  also have "\<dots> \<le> 2 powi ilog2 y" using lt by simp
  finally have "rnd x \<le> 2 powi ilog2 y"
    using assms ux by (intro rnd_le_powi) auto
  also have "\<dots> \<le> rnd y"
    using assms uy by (intro powi_le_rnd) (auto intro: ilog2_bounds(1))
  finally show ?thesis .
qed

lemma rnd_mono:
  assumes "x \<le> y"
  shows "rnd x \<le> rnd y"
proof -
  consider "0 < x" | "x \<le> 0" "0 \<le> y" | "y < 0" by linarith
  then show ?thesis
  proof cases
    case 1
    then show ?thesis using assms by (rule rnd_mono_pos)
  next
    case 2
    then have "0 \<le> rnd y" and "0 \<le> rnd (- x)" by (simp_all add: rnd_nonneg)
    then show ?thesis by (simp add: rnd_minus)
  next
    case 3
    then have "rnd (- y) \<le> rnd (- x)" using assms by (intro rnd_mono_pos) auto
    then show ?thesis by (simp add: rnd_minus)
  qed
qed

section \<open>Representable values\<close>

definition representable :: "rat \<Rightarrow> bool" where
  "representable x \<longleftrightarrow> (\<exists>m e. x = of_int m * 2 powi e \<and> \<bar>m\<bar> < 2 ^ 53 \<and> -1074 \<le> e)"

lemma two_powi_add_53: "(2 :: rat) powi (e + 53) = of_int (2 ^ 53) * 2 powi e"
proof -
  have "(2 :: rat) powi 53 = of_int (2 ^ 53)" by (subst two_powi_of_int) simp_all
  then show ?thesis by (simp only: two_powi_add mult.commute)
qed

lemma representable_scaled:
  assumes "x = of_int m * 2 powi e" and "\<bar>m\<bar> \<le> 2 ^ 53" and "-1074 \<le> e"
  shows "representable x"
proof (cases "\<bar>m\<bar> < 2 ^ 53")
  case True
  with assms show ?thesis by (auto simp: representable_def)
next
  case False
  with assms(2) have m: "\<bar>m\<bar> = 2 ^ 53" by simp
  have "m = sgn m * 2 ^ 53" by (metis m sgn_mult_abs)
  then have "x = of_int (sgn m) * 2 powi (e + 53)"
    using assms(1) by (metis mult.assoc of_int_mult two_powi_add_53)
  moreover have "\<bar>sgn m\<bar> < 2 ^ 53" by (simp add: sgn_if)
  ultimately show ?thesis unfolding representable_def using assms(3)
    by (intro exI [of _ "sgn m"] exI [of _ "e + 53"]) simp
qed

lemma representable_of_int: "\<bar>n\<bar> \<le> 2 ^ 53 \<Longrightarrow> representable (of_int n)"
  by (rule representable_scaled [where e = 0]) simp_all

lemma ulp_exp_le:
  assumes "x = of_int m * 2 powi e" and "\<bar>m\<bar> < 2 ^ 53" and "-1074 \<le> e" and "x \<noteq> 0"
  shows "ulp_exp x \<le> e"
proof -
  have "\<bar>x\<bar> = of_int \<bar>m\<bar> * 2 powi e" using assms(1) by (simp add: abs_mult)
  also have "\<dots> < of_int (2 ^ 53) * 2 powi e"
    using assms(2) by (simp only: mult_less_cancel_right_pos two_powi_pos of_int_less_iff)
  also have "\<dots> = 2 powi (e + 53)" by (rule two_powi_add_53 [symmetric])
  finally have "\<bar>x\<bar> < 2 powi (e + 53)" .
  moreover have "2 powi ilog2 \<bar>x\<bar> \<le> \<bar>x\<bar>" using assms(4) by (intro ilog2_bounds) simp
  ultimately have "(2 :: rat) powi ilog2 \<bar>x\<bar> < 2 powi (e + 53)" by linarith
  then show ?thesis using assms(3) by (simp add: ulp_exp_def)
qed

lemma rnd_representable:
  assumes "representable x"
  shows "rnd x = x"
proof (cases "x = 0")
  case False
  from assms obtain m e where x: "x = of_int m * 2 powi e" and m: "\<bar>m\<bar> < 2 ^ 53" and e: "-1074 \<le> e"
    by (auto simp: representable_def)
  define u where "u = ulp_exp x"
  have u: "u \<le> e" unfolding u_def using x m e False by (rule ulp_exp_le)
  have "(2 :: rat) powi e = 2 powi (e - u) * 2 powi u" by (simp flip: two_powi_add)
  then have "x / 2 powi u = of_int (m * 2 ^ nat (e - u))"
    using u by (simp add: x two_powi_of_int)
  then have "rnd x = of_int (m * 2 ^ nat (e - u)) * 2 powi u"
    using False by (simp add: rnd_def u_def [symmetric] del: of_int_mult of_int_power)
  also have "\<dots> = x / 2 powi u * 2 powi u"
    using \<open>x / 2 powi u = _\<close> by simp
  finally show ?thesis by simp
qed simp

lemma rne_abs_le:
  assumes "\<bar>x\<bar> \<le> of_int n"
  shows "\<bar>rne x\<bar> \<le> n"
proof -
  have "rne x \<le> n" using assms by (intro rne_le) simp
  moreover have "rne (- x) \<le> n" using assms by (intro rne_le) simp
  ultimately show ?thesis by (simp add: rne_minus)
qed

lemma representable_rnd: "representable (rnd q)"
proof (cases "q = 0")
  case True
  then show ?thesis using representable_of_int [of 0] by simp
next
  case False
  define u where "u = ulp_exp q"
  have "\<bar>q\<bar> < 2 powi (ilog2 \<bar>q\<bar> + 1)" using False by (intro ilog2_bounds) simp
  also have "\<dots> \<le> 2 powi (u + 53)" by (simp add: u_def ulp_exp_def)
  finally have "\<bar>q / 2 powi u\<bar> \<le> of_int (2 ^ 53)"
    by (simp add: two_powi_add_53 abs_divide divide_le_eq)
  then have "\<bar>rne (q / 2 powi u)\<bar> \<le> 2 ^ 53" by (rule rne_abs_le)
  then show ?thesis using False
    by (intro representable_scaled [where e = u]) (auto simp: rnd_def u_def ulp_exp_def)
qed

section \<open>Well-formed doubles and the order of their results\<close>

definition d_wf :: "double \<Rightarrow> bool" where
  "d_wf x = (case x of Fin a \<Rightarrow> representable a \<and> \<bar>a\<bar> < 2 ^ 1024 | _ \<Rightarrow> True)"

definition d_num :: "double \<Rightarrow> bool" where
  "d_num x = (x \<noteq> NaN)"

lemma d_wf_round [simp]: "d_wf (d_round q)"
  using representable_rnd [of q] by (auto simp: d_wf_def d_round_def Let_def)

lemma d_round_representable:
  "\<lbrakk> representable x; \<bar>x\<bar> < 2 ^ 1024 \<rbrakk> \<Longrightarrow> d_round x = Fin x"
  by (auto simp: d_round_def rnd_representable)

lemma d_round_wf: "d_wf (Fin x) \<Longrightarrow> d_round x = Fin x"
  by (simp add: d_wf_def d_round_representable)

lemma d_round_of_int: "\<bar>n\<bar> \<le> 2 ^ 53 \<Longrightarrow> d_round (of_int n) = Fin (of_int n)"
proof (rule d_round_representable)
  assume n: "\<bar>n\<bar> \<le> 2 ^ 53"
  then show "representable (of_int n)" by (rule representable_of_int)
  have "(2 :: int) ^ 53 < 2 ^ 1024" by (rule power_strict_increasing) simp_all
  with n have "\<bar>n\<bar> < 2 ^ 1024" by linarith
  then have "(of_int \<bar>n\<bar> :: rat) < of_int (2 ^ 1024)" by (simp only: of_int_less_iff)
  then show "\<bar>of_int n :: rat\<bar> < 2 ^ 1024" by simp
qed

text \<open>Evaluation of small integral values, as the witnesses need it.\<close>

lemma d_round_numeral [simp]:
  "numeral k \<le> (2 ^ 53 :: int) \<Longrightarrow> d_round (numeral k) = Fin (numeral k)"
  "numeral k \<le> (2 ^ 53 :: int) \<Longrightarrow> d_round (- numeral k) = Fin (- numeral k)"
  "d_round 0 = Fin 0"
  "d_round 1 = Fin 1"
  "d_round (- 1) = Fin (- 1)"
  using d_round_of_int [of "numeral k"] d_round_of_int [of "- numeral k"]
    d_round_of_int [of 0] d_round_of_int [of 1] d_round_of_int [of "-1"]
  by simp_all

lemma d_op_simps [simp]:
  "d_add (Fin a) (Fin b) = d_round (a + b)"
  "d_sub (Fin a) (Fin b) = d_round (a - b)"
  "d_mul (Fin a) (Fin b) = d_round (a * b)"
  "d_lt (Fin a) (Fin b) = (a < b)"
  "d_le (Fin a) (Fin b) = (a \<le> b)"
  "\<not> d_lt NaN y" "\<not> d_lt x NaN" "\<not> d_le NaN y" "\<not> d_le x NaN"
  by (simp_all add: d_add_def d_sub_def d_mul_def d_lt_def d_le_def split: double.splits)

lemmas d_order_defs = d_lt_def d_le_def

lemma d_le_refl [simp]: "d_le x x \<longleftrightarrow> x \<noteq> NaN"
  by (simp add: d_le_def split: double.splits)

lemma d_le_trans: "\<lbrakk> d_le x y; d_le y z \<rbrakk> \<Longrightarrow> d_le x z"
  by (auto simp: d_le_def split: double.splits)

lemma d_lt_imp_le: "d_lt x y \<Longrightarrow> d_le x y"
  by (auto simp: d_order_defs split: double.splits)

lemma d_le_lt_trans: "\<lbrakk> d_le x y; d_lt y z \<rbrakk> \<Longrightarrow> d_lt x z"
  by (auto simp: d_order_defs split: double.splits)

lemma d_lt_le_trans: "\<lbrakk> d_lt x y; d_le y z \<rbrakk> \<Longrightarrow> d_lt x z"
  by (auto simp: d_order_defs split: double.splits)

lemma d_not_lt: "\<lbrakk> x \<noteq> NaN; y \<noteq> NaN \<rbrakk> \<Longrightarrow> \<not> d_lt x y \<longleftrightarrow> d_le y x"
  by (auto simp: d_order_defs split: double.splits)

lemma d_lt_not_le: "d_lt x y \<Longrightarrow> \<not> d_le y x"
  by (auto simp: d_order_defs split: double.splits)

lemma d_lt_asym: "d_lt x y \<Longrightarrow> \<not> d_lt y x"
  by (auto simp: d_order_defs split: double.splits)

lemma d_linear: "\<lbrakk> x \<noteq> NaN; y \<noteq> NaN; x \<noteq> y \<rbrakk> \<Longrightarrow> d_lt x y \<or> d_lt y x"
  by (auto simp: d_order_defs split: double.splits)

lemma d_le_num: "d_le x y \<Longrightarrow> x \<noteq> NaN \<and> y \<noteq> NaN"
  by auto

lemma d_round_num [simp]: "d_round q \<noteq> NaN"
  by (simp add: d_round_def Let_def)

lemma d_round_mono: "x \<le> y \<Longrightarrow> d_le (d_round x) (d_round y)"
  using rnd_mono [of x y] by (auto simp: d_round_def Let_def d_le_def)

text \<open>Subtracting a positive amount never raises a finite value, adding one never lowers it.\<close>

lemma d_sub_pos_le:
  assumes "d_wf (Fin e)" and "d_lt (Fin 0) v"
  shows "d_le (d_sub (Fin e) v) (Fin e)"
proof (cases v)
  case (Fin b)
  with assms have "d_le (d_round (e - b)) (d_round e)" by (intro d_round_mono) simp
  with Fin assms show ?thesis by (simp add: d_round_wf)
qed (use assms in \<open>simp_all add: d_sub_def d_add_def d_order_defs\<close>)

lemma d_add_pos_ge:
  assumes "d_wf (Fin e)" and "d_lt (Fin 0) v"
  shows "d_le (Fin e) (d_add (Fin e) v)"
proof (cases v)
  case (Fin b)
  with assms have "d_le (d_round e) (d_round (e + b))" by (intro d_round_mono) simp
  with Fin assms show ?thesis by (simp add: d_round_wf)
qed (use assms in \<open>simp_all add: d_add_def d_order_defs\<close>)

lemma representable_minus:
  assumes "representable x"
  shows "representable (- x)"
proof -
  from assms obtain m e where "x = of_int m * 2 powi e" "\<bar>m\<bar> < 2 ^ 53" "-1074 \<le> e"
    by (auto simp: representable_def)
  then show ?thesis unfolding representable_def
    by (intro exI [of _ "- m"] exI [of _ e]) simp
qed

lemma d_wf_simps:
  "d_wf NaN" "d_wf PInf" "d_wf NInf"
  "d_wf (Fin a) \<longleftrightarrow> representable a \<and> \<bar>a\<bar> < 2 ^ 1024"
  by (simp_all add: d_wf_def)

lemma d_wf_neg: "d_wf x \<Longrightarrow> d_wf (d_neg x)"
  by (cases x) (simp_all only: d_wf_simps d_neg.simps representable_minus abs_minus_cancel)

lemma d_wf_add [simp]: "\<lbrakk> d_wf x; d_wf y \<rbrakk> \<Longrightarrow> d_wf (d_add x y)"
  by (cases x; cases y) (simp_all add: d_add_def d_wf_simps(1-3))

lemma d_wf_sub [simp]: "\<lbrakk> d_wf x; d_wf y \<rbrakk> \<Longrightarrow> d_wf (d_sub x y)"
  by (simp add: d_sub_def d_wf_neg)

lemma d_wf_mul [simp]: "d_wf (d_mul x y)"
  by (cases x; cases y) (simp_all add: d_mul_def d_inf_def d_wf_simps(1-3))

lemma d_wf_of_int: "\<bar>n\<bar> \<le> 2 ^ 53 \<Longrightarrow> d_wf (Fin (of_int n))"
  by (metis d_round_of_int d_wf_round)

lemma d_wf_numeral [simp]:
  "numeral k \<le> (2 ^ 53 :: int) \<Longrightarrow> d_wf (Fin (numeral k))" "d_wf (Fin 0)" "d_wf (Fin 1)"
  using d_wf_of_int [of "numeral k"] d_wf_of_int [of 0] d_wf_of_int [of 1] by simp_all

text \<open>Ticks below \<open>2 ^ 53\<close> convert to a double and back without loss.\<close>

lemma d_of_u64_exact: "uint n \<le> 2 ^ 53 \<Longrightarrow> d_of_u64 n = Fin (of_int (uint n))"
  unfolding d_of_u64_def by (rule d_round_of_int) simp

lemma u64_of_d_of_int:
  "\<lbrakk> 0 \<le> i; i < 2 ^ 64 \<rbrakk> \<Longrightarrow> u64_of_d (Fin (of_int i)) = Inr (word_of_int i)"
proof -
  assume i: "0 \<le> i" "i < 2 ^ 64"
  then have "(of_int i :: rat) < of_int (2 ^ 64)" by (simp only: of_int_less_iff)
  moreover have "-1 < (of_int i :: rat)" using i by linarith
  ultimately show ?thesis using i by simp
qed

lemma u64_of_d_of_u64:
  assumes "uint n \<le> 2 ^ 53"
  shows "u64_of_d (d_of_u64 n) = Inr n"
proof -
  have "u64_of_d (Fin (of_int (uint n))) = Inr (word_of_int (uint n))"
    using assms by (intro u64_of_d_of_int) simp_all
  then show ?thesis by (simp add: d_of_u64_exact [OF assms])
qed

end
