(* ===== verification/Energy_SM.thy ===== *)
theory Energy_SM
  imports Binary64
begin

text \<open>
  The energy state machines of \<open>engy/\<close>: \<open>SimpleEnergySM\<close>, \<open>SM_Retention\<close>, \<open>TwoThresSM\<close>,
  \<open>SM_TwoThres\<close>, \<open>DVFSSM\<close> and \<open>DFS_LRY\<close>. Each is a record of the machine's fields with an
  \<open>init\<close> and an \<open>update\<close> operation. The messages an operation hands to
  \<open>BaseEnergySM::broadcastMsg\<close> are returned, in order, with the new machine; the energy
  manager queues them. \<open>update\<close> compares doubles exactly as the code does.
\<close>

section \<open>Messages\<close>

text \<open>
  \<open>EnergyMsg\<close> of \<open>energy_port.hh\<close>. The state machines leave \<open>sender\<close> uninitialised, which
  is \<open>None\<close> here.
\<close>

record energy_msg =
  msg_type :: int
  msg_sender :: "string option"
  msg_val :: double

definition sm_msg :: "int \<Rightarrow> energy_msg" where
  "sm_msg t = \<lparr>msg_type = t, msg_sender = None, msg_val = Fin 0\<rparr>"

lemma sm_msg_simps [simp]:
  "msg_type (sm_msg t) = t" "msg_val (sm_msg t) = Fin 0" "sm_msg t = sm_msg u \<longleftrightarrow> t = u"
  by (simp_all add: sm_msg_def)

section \<open>SimpleEnergySM\<close>

datatype simple_state = Simple_Off | Simple_On

text \<open>
  \<open>power_failure\<close> is the content of the log file \<open>m5out/power_failure\<close>: \<open>init\<close> appends a line,
  \<open>update\<close> truncates the file first. Opening the file may fail (\<open>fout_ok\<close> is the outcome), and
  then \<open>assert(fout)\<close> stops the simulator.
\<close>

record simple_sm =
  simple_state :: simple_state
  simple_thres_1_to_off :: double
  simple_thres_off_to_1 :: double
  simple_outage_times :: int
  simple_power_failure :: "int list"

definition SimpleEnergySM_new :: "double \<Rightarrow> double \<Rightarrow> int list \<Rightarrow> simple_sm" where
  "SimpleEnergySM_new off on file =
     \<lparr>simple_state = Simple_Off, simple_thres_1_to_off = off, simple_thres_off_to_1 = on,
      simple_outage_times = 0, simple_power_failure = file\<rparr>"

definition SimpleEnergySM_init :: "bool \<Rightarrow> simple_sm \<Rightarrow> (simple_sm \<times> energy_msg list) res" where
  "SimpleEnergySM_init fout_ok s =
     (let s = s\<lparr>simple_state := Simple_Off\<rparr> in
      bindE (assertE fout_ok) (\<lambda>_.
      Inr (s\<lparr>simple_power_failure := simple_power_failure s @ [simple_outage_times s]\<rparr>,
           [sm_msg 1])))"

definition SimpleEnergySM_update ::
  "bool \<Rightarrow> simple_sm \<Rightarrow> double \<Rightarrow> (simple_sm \<times> energy_msg list) res" where
  "SimpleEnergySM_update fout_ok s energy =
     (if simple_state s = Simple_On \<and> d_le energy (simple_thres_1_to_off s)
      then
        (let s = s\<lparr>simple_state := Simple_Off,
                   simple_outage_times := simple_outage_times s + 1\<rparr> in
         bindE (assertE fout_ok) (\<lambda>_.
         Inr (s\<lparr>simple_power_failure := [simple_outage_times s]\<rparr>, [sm_msg 1])))
      else if simple_state s = Simple_Off \<and> d_ge energy (simple_thres_off_to_1 s)
      then Inr (s\<lparr>simple_state := Simple_On\<rparr>, [sm_msg 2])
      else Inr (s, []))"

section \<open>SM_Retention\<close>

datatype ret_state = Ret_Off | Ret_Retention | Ret_On

record ret_sm =
  ret_state :: ret_state
  thres_ret_to_off :: double
  thres_1_to_ret :: double
  thres_ret_to_1 :: double
  ret_outage_times :: int
  ret_power_failure :: "int list"

definition SM_Retention_new :: "double \<Rightarrow> double \<Rightarrow> double \<Rightarrow> int list \<Rightarrow> ret_sm" where
  "SM_Retention_new off ret on file =
     \<lparr>ret_state = Ret_Off, thres_ret_to_off = off, thres_1_to_ret = ret, thres_ret_to_1 = on,
      ret_outage_times = 0, ret_power_failure = file\<rparr>"

definition SM_Retention_init :: "bool \<Rightarrow> ret_sm \<Rightarrow> (ret_sm \<times> energy_msg list) res" where
  "SM_Retention_init fout_ok s =
     (let s = s\<lparr>ret_state := Ret_Off\<rparr> in
      bindE (assertE fout_ok) (\<lambda>_.
      Inr (s\<lparr>ret_power_failure := ret_power_failure s @ [ret_outage_times s]\<rparr>, [sm_msg 1])))"

definition SM_Retention_update ::
  "bool \<Rightarrow> ret_sm \<Rightarrow> double \<Rightarrow> (ret_sm \<times> energy_msg list) res" where
  "SM_Retention_update fout_ok s energy =
     (if (ret_state s = Ret_On \<or> ret_state s = Ret_Retention) \<and> d_le energy (thres_ret_to_off s)
      then
        (let s = s\<lparr>ret_state := Ret_Off, ret_outage_times := ret_outage_times s + 1\<rparr> in
         bindE (assertE fout_ok) (\<lambda>_.
         Inr (s\<lparr>ret_power_failure := [ret_outage_times s]\<rparr>, [sm_msg 1])))
      else if ret_state s = Ret_On \<and> d_le energy (thres_1_to_ret s)
      then Inr (s\<lparr>ret_state := Ret_Retention\<rparr>, [sm_msg 2])
      else if (ret_state s = Ret_Off \<or> ret_state s = Ret_Retention) \<and> d_ge energy (thres_ret_to_1 s)
      then Inr (s\<lparr>ret_state := Ret_On\<rparr>, [sm_msg 3])
      else Inr (s, []))"

section \<open>TwoThresSM\<close>

datatype two_state = Two_Init | Two_Off | Two_On

record two_sm =
  two_state :: two_state
  thres_high :: double
  thres_low :: double

definition TwoThresSM_new :: "double \<Rightarrow> double \<Rightarrow> two_sm" where
  "TwoThresSM_new high low = \<lparr>two_state = Two_Init, thres_high = high, thres_low = low\<rparr>"

definition TwoThresSM_init :: "two_sm \<Rightarrow> two_sm \<times> energy_msg list" where
  "TwoThresSM_init s = (s\<lparr>two_state := Two_Off\<rparr>, [sm_msg 1])"

definition TwoThresSM_update :: "two_sm \<Rightarrow> double \<Rightarrow> two_sm \<times> energy_msg list" where
  "TwoThresSM_update s energy =
     (if two_state s = Two_Init then (s\<lparr>two_state := Two_On\<rparr>, [])
      else if two_state s = Two_On \<and> d_lt energy (thres_low s)
      then (s\<lparr>two_state := Two_Off\<rparr>, [sm_msg 1])
      else if two_state s = Two_Off \<and> d_gt energy (thres_high s)
      then (s\<lparr>two_state := Two_On\<rparr>, [sm_msg 2])
      else (s, []))"

section \<open>SM_TwoThres\<close>

datatype smtwo_state = SMTwo_Off | SMTwo_On

record smtwo_sm =
  smtwo_state :: smtwo_state
  smtwo_thres_1_to_off :: double
  smtwo_thres_off_to_1 :: double

definition SM_TwoThres_new :: "double \<Rightarrow> double \<Rightarrow> smtwo_sm" where
  "SM_TwoThres_new off on =
     \<lparr>smtwo_state = SMTwo_Off, smtwo_thres_1_to_off = off, smtwo_thres_off_to_1 = on\<rparr>"

definition SM_TwoThres_init :: "smtwo_sm \<Rightarrow> smtwo_sm \<times> energy_msg list" where
  "SM_TwoThres_init s = (s\<lparr>smtwo_state := SMTwo_Off\<rparr>, [sm_msg 1])"

text \<open>The second branch assigns \<open>STATE_POWERON\<close> and sends \<open>MSG_POWERON\<close>, as the source does.\<close>

definition SM_TwoThres_update :: "smtwo_sm \<Rightarrow> double \<Rightarrow> smtwo_sm \<times> energy_msg list" where
  "SM_TwoThres_update s energy =
     (if smtwo_state s = SMTwo_Off \<and> d_ge energy (smtwo_thres_off_to_1 s)
      then (s\<lparr>smtwo_state := SMTwo_On\<rparr>, [sm_msg 2])
      else if smtwo_state s = SMTwo_On \<and> d_le energy (smtwo_thres_1_to_off s)
      then (s\<lparr>smtwo_state := SMTwo_On\<rparr>, [sm_msg 2])
      else (s, []))"

section \<open>DVFSSM\<close>

datatype dvfs_state = DVFS_Init | DVFS_Off | DVFS_Low | DVFS_Middle | DVFS_High

record dvfs_sm =
  dvfs_state :: dvfs_state
  thres_off_low :: double
  thres_low_mid :: double
  thres_mid_high :: double

definition DVFSSM_new :: "double \<Rightarrow> double \<Rightarrow> double \<Rightarrow> dvfs_sm" where
  "DVFSSM_new ol lm mh =
     \<lparr>dvfs_state = DVFS_Init, thres_off_low = ol, thres_low_mid = lm, thres_mid_high = mh\<rparr>"

definition DVFSSM_init :: "dvfs_sm \<Rightarrow> dvfs_sm \<times> energy_msg list" where
  "DVFSSM_init s = (s\<lparr>dvfs_state := DVFS_Off\<rparr>, [sm_msg 1])"

definition DVFSSM_update :: "dvfs_sm \<Rightarrow> double \<Rightarrow> dvfs_sm \<times> energy_msg list" where
  "DVFSSM_update s energy =
     (if dvfs_state s = DVFS_Init then (s\<lparr>dvfs_state := DVFS_Off\<rparr>, [])
      else if dvfs_state s \<noteq> DVFS_Off \<and> d_lt energy (thres_off_low s)
      then (s\<lparr>dvfs_state := DVFS_Off\<rparr>, [sm_msg 1])
      else if dvfs_state s \<noteq> DVFS_Low \<and> d_gt energy (thres_off_low s) \<and> d_lt energy (thres_low_mid s)
      then (s\<lparr>dvfs_state := DVFS_Low\<rparr>, [sm_msg 2])
      else if dvfs_state s \<noteq> DVFS_Middle \<and> d_gt energy (thres_low_mid s) \<and> d_lt energy (thres_mid_high s)
      then (s\<lparr>dvfs_state := DVFS_Middle\<rparr>, [sm_msg 3])
      else if dvfs_state s \<noteq> DVFS_High \<and> d_gt energy (thres_mid_high s)
      then (s\<lparr>dvfs_state := DVFS_High\<rparr>, [sm_msg 4])
      else (s, []))"

section \<open>DFS_LRY\<close>

datatype lry_state =
  LRY_Init | LRY_PowerOff | LRY_Retention | LRY_Freq1 | LRY_Freq2 | LRY_Freq3 | LRY_Freq4 | LRY_Freq5

record lry_sm =
  lry_state :: lry_state
  thres_5_to_4 :: double
  thres_4_to_3 :: double
  thres_3_to_2 :: double
  thres_2_to_1 :: double
  thres_1_to_retention :: double
  thres_retention_to_off :: double
  thres_off_to_1 :: double
  thres_retention_to_1 :: double
  thres_1_to_2 :: double
  thres_2_to_3 :: double
  thres_3_to_4 :: double
  thres_4_to_5 :: double

text \<open>The constructor copies the thresholds from its parameters, here a record of the same shape.\<close>

definition DFS_LRY_new :: "lry_sm \<Rightarrow> lry_sm" where
  "DFS_LRY_new p = p\<lparr>lry_state := LRY_Init\<rparr>"

definition DFS_LRY_init :: "lry_sm \<Rightarrow> lry_sm \<times> energy_msg list" where
  "DFS_LRY_init s = (s\<lparr>lry_state := LRY_PowerOff\<rparr>, [sm_msg 1])"

text \<open>
  The third component is the new value of the global \<open>DFS_LRY_poweron_dirty_patch\<close>, whose old
  value is the argument \<open>patch\<close>.
\<close>

definition DFS_LRY_update ::
  "bool \<Rightarrow> lry_sm \<Rightarrow> double \<Rightarrow> lry_sm \<times> energy_msg list \<times> bool" where
  "DFS_LRY_update patch s energy =
     (let st = lry_state s; go = (\<lambda>st' t. (s\<lparr>lry_state := st'\<rparr>, [sm_msg t], patch)) in
      if st = LRY_Init then (s\<lparr>lry_state := LRY_PowerOff\<rparr>, [], patch)
      else if st = LRY_Freq5 \<and> d_le energy (thres_5_to_4 s) then go LRY_Freq4 7
      else if st = LRY_Freq4 \<and> d_le energy (thres_4_to_3 s) then go LRY_Freq3 8
      else if st = LRY_Freq3 \<and> d_le energy (thres_3_to_2 s) then go LRY_Freq2 9
      else if st = LRY_Freq2 \<and> d_le energy (thres_2_to_1 s) then go LRY_Freq1 10
      else if st = LRY_Freq4 \<and> d_gt energy (thres_4_to_5 s) then go LRY_Freq5 6
      else if st = LRY_Freq3 \<and> d_gt energy (thres_3_to_4 s) then go LRY_Freq4 5
      else if st = LRY_Freq2 \<and> d_gt energy (thres_2_to_3 s) then go LRY_Freq3 4
      else if st = LRY_Freq1 \<and> d_gt energy (thres_1_to_2 s) then go LRY_Freq2 3
      else if st = LRY_Freq1 \<and> d_le energy (thres_1_to_retention s) then go LRY_Retention 11
      else if st = LRY_Retention \<and> d_gt energy (thres_retention_to_1 s) then go LRY_Freq1 12
      else if st = LRY_PowerOff \<and> d_gt energy (thres_off_to_1 s)
      then (s\<lparr>lry_state := LRY_Freq1\<rparr>, [sm_msg 2], True)
      else if st = LRY_Retention \<and> d_le energy (thres_retention_to_off s)
      then (s\<lparr>lry_state := LRY_PowerOff\<rparr>, [sm_msg 1], False)
      else (s, [], patch))"

section \<open>Virtual dispatch\<close>

text \<open>\<open>BaseEnergySM\<close> itself has empty \<open>init\<close> and \<open>update\<close> and the lower bound 0.\<close>

datatype energy_sm =
    Base_SM
  | Simple_SM simple_sm
  | Retention_SM ret_sm
  | TwoThres_SM two_sm
  | SMTwoThres_SM smtwo_sm
  | DVFS_SM dvfs_sm
  | LRY_SM lry_sm

definition energy_consume_lower_bound :: "energy_sm \<Rightarrow> double" where
  "energy_consume_lower_bound sm = (case sm of
       Base_SM \<Rightarrow> Fin 0
     | Simple_SM s \<Rightarrow> simple_thres_1_to_off s
     | Retention_SM s \<Rightarrow> thres_ret_to_off s
     | TwoThres_SM s \<Rightarrow> Fin 0
     | SMTwoThres_SM s \<Rightarrow> smtwo_thres_1_to_off s
     | DVFS_SM s \<Rightarrow> Fin 0
     | LRY_SM s \<Rightarrow> d_sub (thres_1_to_retention s) (Fin 1))"

definition sm_update ::
  "bool \<Rightarrow> bool \<Rightarrow> energy_sm \<Rightarrow> double \<Rightarrow> (energy_sm \<times> energy_msg list \<times> bool) res" where
  "sm_update fout_ok patch sm energy = (case sm of
       Base_SM \<Rightarrow> Inr (Base_SM, [], patch)
     | Simple_SM s \<Rightarrow>
         bindE (SimpleEnergySM_update fout_ok s energy) (\<lambda>(s', ms). Inr (Simple_SM s', ms, patch))
     | Retention_SM s \<Rightarrow>
         bindE (SM_Retention_update fout_ok s energy) (\<lambda>(s', ms). Inr (Retention_SM s', ms, patch))
     | TwoThres_SM s \<Rightarrow>
         (case TwoThresSM_update s energy of (s', ms) \<Rightarrow> Inr (TwoThres_SM s', ms, patch))
     | SMTwoThres_SM s \<Rightarrow>
         (case SM_TwoThres_update s energy of (s', ms) \<Rightarrow> Inr (SMTwoThres_SM s', ms, patch))
     | DVFS_SM s \<Rightarrow>
         (case DVFSSM_update s energy of (s', ms) \<Rightarrow> Inr (DVFS_SM s', ms, patch))
     | LRY_SM s \<Rightarrow>
         (case DFS_LRY_update patch s energy of (s', ms, p) \<Rightarrow> Inr (LRY_SM s', ms, p)))"

end
