(* ===== verification/Energy_Port.thy ===== *)
theory Energy_Port
  imports Energy_SM
begin

text \<open>
  The energy ports of \<open>engy/energy_port.{hh,cc}\<close> and the \<open>EnergyObject\<close> base class of
  \<open>engy/energy_object.{hh,cc}\<close>. Every simulation object has one slave and one master energy
  port; a pointer to a port is the identity of its object. The virtual method
  \<open>SimObject::handleMsg\<close> is the argument \<open>dispatch\<close>, which also threads the state of the
  whole system.
\<close>

section \<open>Ports\<close>

type_synonym obj_id = nat

datatype energy_port_type = NOT_DECIDED | MASTERPORT | SLAVEPORT

record energy_port =
  port_id :: int
  port_name :: string
  port_type :: energy_port_type
  port_owner :: "obj_id option"

record master_energy_port = energy_port +
  slave_list :: "obj_id list"

record slave_energy_port = energy_port +
  port_master :: "obj_id option"

record energy_object =
  seport :: slave_energy_port
  meport :: master_energy_port

type_synonym energy_net = "obj_id \<Rightarrow> energy_object"

type_synonym 'w dispatch = "obj_id \<Rightarrow> energy_msg \<Rightarrow> 'w \<Rightarrow> (int \<times> 'w) res"

definition MasterEnergyPort_new :: "obj_id option \<Rightarrow> master_energy_port" where
  "MasterEnergyPort_new own =
     \<lparr>port_id = -1, port_name = '''', port_type = MASTERPORT, port_owner = own, slave_list = []\<rparr>"

definition SlaveEnergyPort_new :: "obj_id option \<Rightarrow> slave_energy_port" where
  "SlaveEnergyPort_new own =
     \<lparr>port_id = -1, port_name = '''', port_type = SLAVEPORT, port_owner = own, port_master = None\<rparr>"

definition EnergyObject_new :: energy_object where
  "EnergyObject_new = \<lparr>seport = SlaveEnergyPort_new None, meport = MasterEnergyPort_new None\<rparr>"

definition EnergyObject_setSimObject :: "obj_id \<Rightarrow> energy_object \<Rightarrow> energy_object" where
  "EnergyObject_setSimObject sim e =
     e\<lparr>seport := (seport e)\<lparr>port_owner := Some sim\<rparr>, meport := (meport e)\<lparr>port_owner := Some sim\<rparr>\<rparr>"

text \<open>A call through a port without an owner dereferences a null pointer.\<close>

definition EnergyPort_handleMsg ::
  "'w dispatch \<Rightarrow> 'a energy_port_scheme \<Rightarrow> energy_msg \<Rightarrow> 'w \<Rightarrow> (int \<times> 'w) res" where
  "EnergyPort_handleMsg dispatch p msg w =
     (case port_owner p of None \<Rightarrow> Inl Undefined | Some ob \<Rightarrow> dispatch ob msg w)"

definition SlaveEnergyPort_setMaster :: "obj_id \<Rightarrow> obj_id \<Rightarrow> energy_net \<Rightarrow> energy_net" where
  "SlaveEnergyPort_setMaster s m net =
     net(s := (net s)\<lparr>seport := (seport (net s))\<lparr>port_master := Some m\<rparr>\<rparr>)"

definition MasterEnergyPort_bindSlave :: "obj_id \<Rightarrow> obj_id \<Rightarrow> energy_net \<Rightarrow> energy_net" where
  "MasterEnergyPort_bindSlave m s net =
     SlaveEnergyPort_setMaster s m
       (net(m := (net m)\<lparr>meport := (meport (net m))\<lparr>slave_list := slave_list (meport (net m)) @ [s]\<rparr>\<rparr>))"

fun broadcast_loop ::
  "'w dispatch \<Rightarrow> energy_net \<Rightarrow> obj_id list \<Rightarrow> energy_msg \<Rightarrow> int \<Rightarrow> 'w \<Rightarrow> (int \<times> 'w) res" where
  "broadcast_loop dispatch net [] msg rlt w = Inr (rlt, w)"
| "broadcast_loop dispatch net (s # ss) msg rlt w =
     bindE (EnergyPort_handleMsg dispatch (seport (net s)) msg w) (\<lambda>(r, w').
       broadcast_loop dispatch net ss msg (if r = 0 then 0 else rlt) w')"

definition MasterEnergyPort_broadcastMsg ::
  "'w dispatch \<Rightarrow> energy_net \<Rightarrow> obj_id \<Rightarrow> energy_msg \<Rightarrow> 'w \<Rightarrow> (int \<times> 'w) res" where
  "MasterEnergyPort_broadcastMsg dispatch net m msg w =
     (let slaves = slave_list (meport (net m)) in
      broadcast_loop dispatch net slaves msg (if length slaves = 0 then 0 else 1) w)"

definition SlaveEnergyPort_signalMsg ::
  "'w dispatch \<Rightarrow> energy_net \<Rightarrow> obj_id \<Rightarrow> energy_msg \<Rightarrow> 'w \<Rightarrow> (int \<times> 'w) res" where
  "SlaveEnergyPort_signalMsg dispatch net s msg w =
     (case port_master (seport (net s)) of
        None \<Rightarrow> Inr (0, w)
      | Some m \<Rightarrow> EnergyPort_handleMsg dispatch (meport (net m)) msg w)"

section \<open>EnergyObject\<close>

text \<open>\<open>strcpy\<close> into a buffer of 100 characters: a longer sender overruns it.\<close>

definition EnergyObject_consumeEnergy ::
  "'w dispatch \<Rightarrow> energy_net \<Rightarrow> obj_id \<Rightarrow> string \<Rightarrow> double \<Rightarrow> 'w \<Rightarrow> (int \<times> 'w) res" where
  "EnergyObject_consumeEnergy dispatch net self sender energy w =
     (if 100 \<le> length sender then Inl Undefined
      else
        bindE (SlaveEnergyPort_signalMsg dispatch net self
                 \<lparr>msg_type = 0, msg_sender = Some sender, msg_val = energy\<rparr> w)
          (\<lambda>(_, w'). Inr (1, w')))"

definition EnergyObject_handleMsg :: "energy_msg \<Rightarrow> 'w \<Rightarrow> (int \<times> 'w) res" where
  "EnergyObject_handleMsg msg w = Inr (1, w)"

section \<open>What the ports promise\<close>

text \<open>The reference: call the owners of the bound slaves in binding order, keep every result.\<close>

fun deliver_all ::
  "'w dispatch \<Rightarrow> obj_id list \<Rightarrow> energy_msg \<Rightarrow> 'w \<Rightarrow> (int list \<times> 'w) res" where
  "deliver_all dispatch [] msg w = Inr ([], w)"
| "deliver_all dispatch (ob # obs) msg w =
     bindE (dispatch ob msg w) (\<lambda>(r, w').
     bindE (deliver_all dispatch obs msg w') (\<lambda>(rs, w''). Inr (r # rs, w'')))"

definition ports_owned :: "energy_net \<Rightarrow> bool" where
  "ports_owned net \<longleftrightarrow>
     (\<forall>i. port_owner (seport (net i)) = Some i \<and> port_owner (meport (net i)) = Some i)"

lemma broadcast_loop_deliver:
  assumes "ports_owned net"
  shows "broadcast_loop dispatch net ss msg rlt w =
     bindE (deliver_all dispatch ss msg w) (\<lambda>(rs, w'). Inr (if 0 \<in> set rs then 0 else rlt, w'))"
proof (induction ss arbitrary: rlt w)
  case (Cons s ss)
  have "EnergyPort_handleMsg dispatch (seport (net s)) msg w = dispatch s msg w"
    using assms by (simp add: EnergyPort_handleMsg_def ports_owned_def)
  then show ?case
    by (cases "dispatch s msg w")
      (auto simp: Cons.IH bindE_assoc split_def intro!: bindE_cong)
qed simp

text \<open>
  C20: broadcasting on a master port is exactly one call of each bound slave's owner, in the
  order of binding, each seeing the state its predecessor left; the result is 1 if there is a
  slave and every owner returned a non-zero value, and 0 otherwise.
\<close>

theorem broadcastMsg_delivers:
  assumes "ports_owned net"
  shows "MasterEnergyPort_broadcastMsg dispatch net m msg w =
     bindE (deliver_all dispatch (slave_list (meport (net m))) msg w) (\<lambda>(rs, w').
       Inr (if rs = [] \<or> 0 \<in> set rs then 0 else 1, w'))"
proof (cases "slave_list (meport (net m))")
  case Nil
  then show ?thesis by (simp add: MasterEnergyPort_broadcastMsg_def)
next
  case (Cons s ss)
  have "deliver_all dispatch (s # ss) msg w = Inr (rs, w') \<Longrightarrow> rs \<noteq> []" for rs w'
    by (auto simp: bindE_Inr_iff)
  with Cons show ?thesis
    by (auto simp: MasterEnergyPort_broadcastMsg_def Let_def broadcast_loop_deliver [OF assms]
        simp del: deliver_all.simps intro!: bindE_cong)
qed

text \<open>Two devices bound to object 0 both hear a message; device 2 rejects it.\<close>

definition example_net :: energy_net where
  "example_net =
     MasterEnergyPort_bindSlave 0 2 (MasterEnergyPort_bindSlave 0 1
       (\<lambda>i. EnergyObject_setSimObject i EnergyObject_new))"

lemma ports_owned_bindSlave:
  "ports_owned net \<Longrightarrow> ports_owned (MasterEnergyPort_bindSlave m s net)"
  by (simp add: ports_owned_def MasterEnergyPort_bindSlave_def SlaveEnergyPort_setMaster_def)

lemma ports_owned_example: "ports_owned example_net"
  unfolding example_net_def
  by (intro ports_owned_bindSlave) (simp add: ports_owned_def EnergyObject_setSimObject_def)

theorem broadcastMsg_delivers_witness:
  "MasterEnergyPort_broadcastMsg
     (\<lambda>ob m heard. Inr (if ob = 2 then 0 else 1, heard @ [(ob, msg_type m)])) example_net 0 (sm_msg 1) [] =
   Inr (0, [(1, 1), (2, 1)])"
proof -
  have "slave_list (meport (example_net 0)) = [1, 2]"
    by (simp add: example_net_def MasterEnergyPort_bindSlave_def SlaveEnergyPort_setMaster_def
        EnergyObject_setSimObject_def EnergyObject_new_def MasterEnergyPort_new_def)
  then show ?thesis using ports_owned_example by (simp add: broadcastMsg_delivers)
qed

text \<open>After binding, a consumption signalled by the slave reaches the owner of the master.\<close>

lemma consumeEnergy_reaches_master:
  assumes "ports_owned net" and "port_master (seport (net s)) = Some m" and "length sender < 100"
  shows "EnergyObject_consumeEnergy dispatch net s sender e w =
     bindE (dispatch m \<lparr>msg_type = 0, msg_sender = Some sender, msg_val = e\<rparr> w)
       (\<lambda>(_, w'). Inr (1, w'))"
  using assms
  by (simp add: EnergyObject_consumeEnergy_def SlaveEnergyPort_signalMsg_def
      EnergyPort_handleMsg_def ports_owned_def)

lemma consumeEnergy_unbound:
  "\<lbrakk> port_master (seport (net s)) = None; length sender < 100 \<rbrakk> \<Longrightarrow>
     EnergyObject_consumeEnergy dispatch net s sender e w = Inr (1, w)"
  by (simp add: EnergyObject_consumeEnergy_def SlaveEnergyPort_signalMsg_def)

lemma bindSlave_master:
  "port_master (seport (MasterEnergyPort_bindSlave m s net s)) = Some m"
  by (simp add: MasterEnergyPort_bindSlave_def SlaveEnergyPort_setMaster_def)

end
