(* ===== verification/Event_Handle.thy ===== *)
theory Event_Handle
  imports Nvp_Prelude
begin

text \<open>
  The view a client has of one of its events (\<open>sim/eventq.hh\<close>, \<open>sim/eventq_impl.hh\<close>): the
  \<open>Scheduled\<close> flag and \<open>_when\<close>, and what \<open>schedule\<close>, \<open>deschedule\<close> and \<open>reschedule\<close> do to
  them, assertions included. The linked structure behind the view is the theory
  \<open>Event_Queue\<close>, which shows that its operations act on this view in the same way.
\<close>

record ev =
  scheduled :: bool
  ev_when :: tick

definition ev_idle :: ev where
  "ev_idle = \<lparr>scheduled = False, ev_when = 0\<rparr>"

definition ev_schedule :: "tick \<Rightarrow> tick \<Rightarrow> ev \<Rightarrow> ev res" where
  "ev_schedule now t e =
     bindE (assertE (now \<le> t)) (\<lambda>_.
     bindE (assertE (\<not> scheduled e)) (\<lambda>_.
     Inr (e\<lparr>ev_when := t, scheduled := True\<rparr>)))"

definition ev_deschedule :: "ev \<Rightarrow> ev res" where
  "ev_deschedule e =
     bindE (assertE (scheduled e)) (\<lambda>_. Inr (e\<lparr>scheduled := False\<rparr>))"

definition ev_reschedule :: "tick \<Rightarrow> tick \<Rightarrow> bool \<Rightarrow> ev \<Rightarrow> ev res" where
  "ev_reschedule now t always e =
     bindE (assertE (now \<le> t)) (\<lambda>_.
     bindE (assertE (always \<or> scheduled e)) (\<lambda>_.
     Inr (e\<lparr>ev_when := t, scheduled := True\<rparr>)))"

text \<open>Servicing an event clears its \<open>Scheduled\<close> flag before the handler runs.\<close>

definition ev_fire :: "ev \<Rightarrow> ev" where
  "ev_fire e = e\<lparr>scheduled := False\<rparr>"

lemma ev_schedule_Inr_iff [simp]:
  "ev_schedule now t e = Inr e' \<longleftrightarrow>
     now \<le> t \<and> \<not> scheduled e \<and> e' = e\<lparr>ev_when := t, scheduled := True\<rparr>"
  by (auto simp: ev_schedule_def bindE_Inr_iff)

lemma ev_deschedule_Inr_iff [simp]:
  "ev_deschedule e = Inr e' \<longleftrightarrow> scheduled e \<and> e' = e\<lparr>scheduled := False\<rparr>"
  by (auto simp: ev_deschedule_def bindE_Inr_iff)

lemma ev_reschedule_Inr_iff [simp]:
  "ev_reschedule now t al e = Inr e' \<longleftrightarrow>
     now \<le> t \<and> (al \<or> scheduled e) \<and> e' = e\<lparr>ev_when := t, scheduled := True\<rparr>"
  by (auto simp: ev_reschedule_def bindE_Inr_iff)

lemma ev_fire_simps [simp]:
  "scheduled (ev_fire e) = False" "ev_when (ev_fire e) = ev_when e"
  "scheduled ev_idle = False" "ev_when ev_idle = 0"
  by (simp_all add: ev_fire_def ev_idle_def)

end
