(* ===== verification/Energy_Mgmt.thy ===== *)
theory Energy_Mgmt
  imports Energy_SM_Props Energy_Port Event_Handle
begin

text \<open>
  The energy manager \<open>engy/energy_mgmt.{hh,cc}\<close> and the harvesters
  \<open>engy/energy_harvester.{hh,cc}\<close>. The manager's record is extensible, so that the operations
  below also run on the state of a whole system (theory \<open>Nvp_System\<close>). The current tick is
  the argument \<open>now\<close>.
\<close>

section \<open>Harvesters\<close>

datatype harvester = Base_Harvester | Simple_Harvester

definition energy_harvest :: "harvester \<Rightarrow> double \<Rightarrow> double \<Rightarrow> double" where
  "energy_harvest h harvested remained = (case h of
       Base_Harvester \<Rightarrow> Fin 0
     | Simple_Harvester \<Rightarrow> d_add remained harvested)"

section \<open>State\<close>

text \<open>
  \<open>dirty_patch\<close> is the global \<open>DFS_LRY_poweron_dirty_patch\<close>; \<open>fout_ok\<close> says whether the log
  file of the state machine can be opened; \<open>state_machine\<close> is a pointer that may be null.
\<close>

record energy_mgmt =
  system_leakage :: double
  energy_profile_mult :: double
  time_unit :: tick
  energy_remained :: double
  msg_togo :: "energy_msg list"
  event_msg :: ev
  energy_harvest_data :: "double list"
  event_energy_harvest :: ev
  state_machine :: "energy_sm option"
  harvest_module :: harvester
  capacity :: double
  dirty_patch :: bool
  fout_ok :: bool

text \<open>The constructor: parameters copied, no energy, an empty queue, idle events.\<close>

definition EnergyMgmt_new ::
  "double \<Rightarrow> double \<Rightarrow> tick \<Rightarrow> energy_sm option \<Rightarrow> harvester \<Rightarrow> double \<Rightarrow> energy_mgmt" where
  "EnergyMgmt_new leak mult unit sm h cap =
     \<lparr>system_leakage = leak, energy_profile_mult = mult, time_unit = unit, energy_remained = Fin 0,
      msg_togo = [], event_msg = ev_idle, energy_harvest_data = [],
      event_energy_harvest = ev_idle, state_machine = sm, harvest_module = h, capacity = cap,
      dirty_patch = False, fout_ok = True\<rparr>"

section \<open>Operations\<close>

definition broadcastMsgAsEvent ::
  "tick \<Rightarrow> energy_msg \<Rightarrow> 'a energy_mgmt_scheme \<Rightarrow> 'a energy_mgmt_scheme res" where
  "broadcastMsgAsEvent now msg m =
     (let m = m\<lparr>msg_togo := msg_togo m @ [msg]\<rparr> in
      if length (msg_togo m) = 1
      then bindE (ev_schedule now now (event_msg m)) (\<lambda>e. Inr (m\<lparr>event_msg := e\<rparr>))
      else Inr m)"

text \<open>\<open>0.5 * capacity * pow(5, 2) * pow(10, 3)\<close>, left to right.\<close>

definition cap_upper_bound :: "double \<Rightarrow> double" where
  "cap_upper_bound cap = d_mul (d_mul (d_mul (Fin (1 / 2)) cap) (Fin 25)) (Fin 1000)"

definition consume_positive :: "double \<Rightarrow> double \<Rightarrow> double \<Rightarrow> double" where
  "consume_positive lower remained val =
     (let e = d_sub remained val in if d_lt e lower then lower else e)"

definition consume_negative ::
  "double \<Rightarrow> double \<Rightarrow> 'a energy_mgmt_scheme \<Rightarrow> double \<Rightarrow> double" where
  "consume_negative lower upper m val =
     (let e0 = (if dirty_patch m then d_sub (energy_remained m) (system_leakage m)
                else energy_remained m);
          v = d_mul val (energy_profile_mult m);
          e = energy_harvest (harvest_module m) (d_neg v) e0
      in if d_gt e upper then upper else if d_lt e lower then lower else e)"

definition consumeEnergy ::
  "tick \<Rightarrow> string \<Rightarrow> double \<Rightarrow> 'a energy_mgmt_scheme \<Rightarrow> (int \<times> 'a energy_mgmt_scheme) res" where
  "consumeEnergy now sender val m =
     (case state_machine m of
        None \<Rightarrow> Inl Undefined
      | Some sm \<Rightarrow>
          (let lower = energy_consume_lower_bound sm;
               upper = cap_upper_bound (capacity m);
               m = (if d_gt val (Fin 0)
                    then m\<lparr>energy_remained := consume_positive lower (energy_remained m) val\<rparr>
                    else if d_lt val (Fin 0)
                    then m\<lparr>energy_remained := consume_negative lower upper m val\<rparr>
                    else m)
           in
           bindE (sm_update (fout_ok m) (dirty_patch m) sm (energy_remained m)) (\<lambda>(sm', ms, p).
           bindE (foldE (broadcastMsgAsEvent now) ms
                    (m\<lparr>state_machine := Some sm', dirty_patch := p\<rparr>)) (\<lambda>m'.
           Inr (1, m')))))"

text \<open>
  \<open>EnergyMgmt::broadcastMsg\<close>, the handler of \<open>event_msg\<close>. Reading the first element of an
  empty vector is undefined. The handlers run while the message is still in the queue.
\<close>

definition broadcastMsg ::
  "(energy_msg \<Rightarrow> 'a energy_mgmt_scheme \<Rightarrow> (int \<times> 'a energy_mgmt_scheme) res) \<Rightarrow>
     tick \<Rightarrow> 'a energy_mgmt_scheme \<Rightarrow> 'a energy_mgmt_scheme res" where
  "broadcastMsg deliver now m =
     (case msg_togo m of
        [] \<Rightarrow> Inl Undefined
      | msg # _ \<Rightarrow>
          bindE (deliver msg m) (\<lambda>(_, m).
          (let m = m\<lparr>msg_togo := tl (msg_togo m)\<rparr> in
           if msg_togo m \<noteq> []
           then bindE (ev_schedule now now (event_msg m)) (\<lambda>e. Inr (m\<lparr>event_msg := e\<rparr>))
           else Inr m)))"

definition EnergyMgmt_handleMsg ::
  "tick \<Rightarrow> energy_msg \<Rightarrow> 'a energy_mgmt_scheme \<Rightarrow> (int \<times> 'a energy_mgmt_scheme) res" where
  "EnergyMgmt_handleMsg now msg m =
     (if msg_type msg \<noteq> 0 then Inr (0, m)
      else case msg_sender msg of
             None \<Rightarrow> Inl Undefined
           | Some sender \<Rightarrow> consumeEnergy now sender (msg_val msg) m)"

text \<open>
  The profile as it was read from the file (\<open>None\<close> when no path is given), reversed so that
  \<open>pop_back\<close> takes the entries in file order.
\<close>

definition readEnergyProfile :: "double list option \<Rightarrow> double list" where
  "readEnergyProfile file = (case file of None \<Rightarrow> [] | Some vals \<Rightarrow> rev vals)"

definition energyHarvest ::
  "tick \<Rightarrow> 'a energy_mgmt_scheme \<Rightarrow> 'a energy_mgmt_scheme res" where
  "energyHarvest now m =
     (if energy_harvest_data m = [] then Inr m
      else
        bindE (consumeEnergy now ''harvester'' (d_neg (last (energy_harvest_data m))) m) (\<lambda>(_, m).
        (let m = m\<lparr>energy_harvest_data := butlast (energy_harvest_data m)\<rparr> in
         bindE (ev_schedule now (now + time_unit m) (event_energy_harvest m)) (\<lambda>e.
         Inr (m\<lparr>event_energy_harvest := e\<rparr>)))))"

definition EnergyMgmt_init ::
  "tick \<Rightarrow> double list option \<Rightarrow> 'a energy_mgmt_scheme \<Rightarrow> 'a energy_mgmt_scheme res" where
  "EnergyMgmt_init now file m =
     energyHarvest now (m\<lparr>energy_harvest_data := readEnergyProfile file, energy_remained := Fin 0\<rparr>)"

section \<open>Frame facts\<close>

lemma broadcastMsgAsEvent_eq:
  "broadcastMsgAsEvent now msg m = Inr m' \<longleftrightarrow>
     (if msg_togo m = []
      then \<not> scheduled (event_msg m) \<and>
        m' = m\<lparr>msg_togo := [msg], event_msg := (event_msg m)\<lparr>ev_when := now, scheduled := True\<rparr>\<rparr>
      else m' = m\<lparr>msg_togo := msg_togo m @ [msg]\<rparr>)"
  by (auto simp: broadcastMsgAsEvent_def Let_def bindE_Inr_iff)

text \<open>
  One call of \<open>consumeEnergy\<close>: the new energy, the state machine's reaction to it, and at most one
  message appended to the queue.
\<close>

definition new_energy :: "energy_sm \<Rightarrow> double \<Rightarrow> 'a energy_mgmt_scheme \<Rightarrow> double" where
  "new_energy sm val m =
     (let lower = energy_consume_lower_bound sm in
      if d_gt val (Fin 0) then consume_positive lower (energy_remained m) val
      else if d_lt val (Fin 0)
      then consume_negative lower (cap_upper_bound (capacity m)) m val
      else energy_remained m)"

lemma consumeEnergy_alt:
  assumes "state_machine m = Some sm"
  shows "consumeEnergy now sender val m =
     bindE (sm_update (fout_ok m) (dirty_patch m) sm (new_energy sm val m)) (\<lambda>(sm', ms, p).
     bindE (foldE (broadcastMsgAsEvent now) ms
       (m\<lparr>energy_remained := new_energy sm val m, state_machine := Some sm', dirty_patch := p\<rparr>))
       (\<lambda>m'. Inr (1, m')))"
  using assms by (simp add: consumeEnergy_def new_energy_def Let_def)

lemma consumeEnergy_cases:
  assumes "consumeEnergy now sender val m = Inr (r, m')"
  obtains sm sm' ms p where "state_machine m = Some sm"
    "sm_update (fout_ok m) (dirty_patch m) sm (new_energy sm val m) = Inr (sm', ms, p)"
    "foldE (broadcastMsgAsEvent now) ms
       (m\<lparr>energy_remained := new_energy sm val m, state_machine := Some sm', dirty_patch := p\<rparr>) = Inr m'"
    "r = 1"
proof (cases "state_machine m")
  case None
  with assms show ?thesis by (simp add: consumeEnergy_def)
next
  case (Some sm)
  with assms that show ?thesis
    by (auto simp: consumeEnergy_alt [OF Some] bindE_Inr_iff)
qed

lemma foldE_broadcast_frame:
  assumes "foldE (broadcastMsgAsEvent now) ms m = Inr m'"
  shows "msg_togo m' = msg_togo m @ ms \<and>
     m' = m\<lparr>msg_togo := msg_togo m', event_msg := event_msg m'\<rparr> \<and>
     (msg_togo m \<noteq> [] \<or> ms = [] \<longrightarrow> event_msg m' = event_msg m) \<and>
     (msg_togo m = [] \<and> ms \<noteq> [] \<longrightarrow>
        event_msg m' = (event_msg m)\<lparr>ev_when := now, scheduled := True\<rparr> \<and> \<not> scheduled (event_msg m))"
  using assms
proof (induction ms arbitrary: m)
  case (Cons x ms)
  then obtain m1 where b: "broadcastMsgAsEvent now x m = Inr m1"
      and f: "foldE (broadcastMsgAsEvent now) ms m1 = Inr m'"
    by (auto simp: bindE_Inr_iff)
  note IH = Cons.IH [OF f]
  show ?case
  proof (cases "msg_togo m = []")
    case True
    with b IH show ?thesis by (auto simp: broadcastMsgAsEvent_eq)
  next
    case False
    with b IH show ?thesis by (auto simp: broadcastMsgAsEvent_eq)
  qed
qed simp

end
