(* ===== verification/Energy_Mgmt_Props.thy ===== *)
theory Energy_Mgmt_Props
  imports Energy_Mgmt
begin

text \<open>
  Properties of the energy manager: the stored energy stays between the lower bound of the state
  machine and the capacity of the capacitor, consumption never adds energy inside that band,
  messages leave in the order they were queued, and the harvesting events consume the energy
  profile in file order.
\<close>

section \<open>Energy stays within its bounds\<close>

definition d_finite :: "double \<Rightarrow> bool" where
  "d_finite x \<longleftrightarrow> (\<exists>a. x = Fin a)"

lemma d_finite_Fin [simp]: "d_finite (Fin a)" "\<not> d_finite NaN" "\<not> d_finite PInf" "\<not> d_finite NInf"
  by (simp_all add: d_finite_def)

lemma d_finite_between: "\<lbrakk> d_finite l; d_finite u; d_le l x; d_le x u \<rbrakk> \<Longrightarrow> d_finite x"
  by (cases x) (auto simp: d_finite_def d_le_def)

text \<open>The capacitor's usable band: finite, well-formed and not empty.\<close>

definition band_ok :: "'a energy_mgmt_scheme \<Rightarrow> bool" where
  "band_ok m = (case state_machine m of
       None \<Rightarrow> False
     | Some sm \<Rightarrow>
         (let l = energy_consume_lower_bound sm; u = cap_upper_bound (capacity m) in
          d_finite l \<and> d_wf l \<and> d_finite u \<and> d_le l u \<and> d_wf (system_leakage m) \<and>
          system_leakage m \<noteq> NaN))"

definition energy_in_band :: "'a energy_mgmt_scheme \<Rightarrow> bool" where
  "energy_in_band m = (case state_machine m of
       None \<Rightarrow> False
     | Some sm \<Rightarrow> d_wf (energy_remained m) \<and>
         d_le (energy_consume_lower_bound sm) (energy_remained m) \<and>
         d_le (energy_remained m) (cap_upper_bound (capacity m)))"

lemma consume_positive_bounds:
  assumes "d_wf (Fin e)" "d_wf l" "d_wf v" "d_finite l" "d_le l (Fin e)" "d_lt (Fin 0) v"
  shows "d_le l (consume_positive l (Fin e) v) \<and> d_le (consume_positive l (Fin e) v) (Fin e) \<and>
     d_wf (consume_positive l (Fin e) v)"
proof -
  have le: "d_le (d_sub (Fin e) v) (Fin e)" using assms by (intro d_sub_pos_le)
  have wf: "d_wf (d_sub (Fin e) v)" using assms by simp
  show ?thesis
  proof (cases "d_lt (d_sub (Fin e) v) l")
    case True
    with assms show ?thesis by (auto simp: consume_positive_def Let_def d_finite_def)
  next
    case False
    then have "d_le l (d_sub (Fin e) v)"
      using d_not_lt [of "d_sub (Fin e) v" l] le d_le_num assms(5) by blast
    with False le wf show ?thesis by (simp add: consume_positive_def Let_def)
  qed
qed

lemma d_add_num: "\<lbrakk> x \<noteq> NaN; d_finite y \<rbrakk> \<Longrightarrow> d_add x y \<noteq> NaN"
  by (cases x) (auto simp: d_finite_def d_add_def)

lemma d_sub_num: "\<lbrakk> d_finite x; y \<noteq> NaN \<rbrakk> \<Longrightarrow> d_sub x y \<noteq> NaN"
  by (cases y) (auto simp: d_finite_def d_sub_def d_add_def)

lemma energy_harvest_num:
  assumes "r \<noteq> NaN" "d_finite v"
  shows "energy_harvest h (d_neg v) r \<noteq> NaN"
proof -
  have "d_finite (d_neg v)" using assms(2) by (auto simp: d_finite_def)
  then show ?thesis using assms(1) by (simp add: energy_harvest_def d_add_num split: harvester.split)
qed

lemma d_wf_energy_harvest: "\<lbrakk> d_wf r; d_wf v \<rbrakk> \<Longrightarrow> d_wf (energy_harvest h (d_neg v) r)"
  by (simp add: energy_harvest_def d_wf_neg split: harvester.split)

lemma consume_negative_bounds:
  assumes "d_wf l" "d_wf u" "d_le l u" "d_finite (energy_remained m)" "d_wf (energy_remained m)"
    "d_wf (system_leakage m)" "system_leakage m \<noteq> NaN" "d_finite (d_mul v (energy_profile_mult m))"
  shows "d_le l (consume_negative l u m v) \<and> d_le (consume_negative l u m v) u \<and>
     d_wf (consume_negative l u m v)"
proof -
  define e0 where "e0 = (if dirty_patch m then d_sub (energy_remained m) (system_leakage m)
                else energy_remained m)"
  define e where "e = energy_harvest (harvest_module m) (d_neg (d_mul v (energy_profile_mult m))) e0"
  have "d_wf e0" using assms(5,6) by (simp add: e0_def)
  moreover have "e0 \<noteq> NaN" using assms(4,7) by (auto simp: e0_def d_sub_num)
  ultimately have e0: "e0 \<noteq> NaN" "d_wf e0" by simp_all
  have e: "e \<noteq> NaN" "d_wf e"
    unfolding e_def using e0 assms(8) by (simp_all add: energy_harvest_num d_wf_energy_harvest)
  have r: "consume_negative l u m v = (if d_gt e u then u else if d_lt e l then l else e)"
    by (simp add: consume_negative_def Let_def e_def e0_def)
  have "l \<noteq> NaN" "u \<noteq> NaN" using d_le_num [OF assms(3)] by auto
  then have "\<not> d_gt e u \<Longrightarrow> d_le e u" "\<not> d_lt e l \<Longrightarrow> d_le l e"
    using e(1) d_not_lt by blast+
  with \<open>l \<noteq> NaN\<close> \<open>u \<noteq> NaN\<close> e(2) assms(1-3) show ?thesis
    unfolding r by simp
qed

lemma energy_in_band_finite:
  "\<lbrakk> band_ok m; energy_in_band m \<rbrakk> \<Longrightarrow> d_finite (energy_remained m)"
  by (auto simp: band_ok_def energy_in_band_def Let_def split: option.splits
      intro: d_finite_between)

text \<open>Well-formed amounts: consumption is any double, a harvest must not overflow.\<close>

definition amount_ok :: "'a energy_mgmt_scheme \<Rightarrow> double \<Rightarrow> bool" where
  "amount_ok m val \<longleftrightarrow> d_wf val \<and> (d_lt val (Fin 0) \<longrightarrow> d_finite (d_mul val (energy_profile_mult m)))"

lemma new_energy_bounds:
  assumes "state_machine m = Some sm" "band_ok m" "energy_in_band m" "amount_ok m val"
  shows "d_le (energy_consume_lower_bound sm) (new_energy sm val m) \<and>
     d_le (new_energy sm val m) (cap_upper_bound (capacity m)) \<and> d_wf (new_energy sm val m) \<and>
     (d_gt val (Fin 0) \<longrightarrow> d_le (new_energy sm val m) (energy_remained m))"
proof -
  obtain e where e: "energy_remained m = Fin e"
    using energy_in_band_finite [OF assms(2,3)] by (auto simp: d_finite_def)
  consider "d_gt val (Fin 0)" | "\<not> d_gt val (Fin 0)" "d_lt val (Fin 0)"
    | "\<not> d_gt val (Fin 0)" "\<not> d_lt val (Fin 0)" by blast
  then show ?thesis
  proof cases
    case 1
    have "d_le (energy_consume_lower_bound sm) (new_energy sm val m) \<and>
       d_le (new_energy sm val m) (Fin e) \<and> d_wf (new_energy sm val m)"
      using 1 assms e consume_positive_bounds [of e "energy_consume_lower_bound sm" val]
      by (simp add: new_energy_def Let_def band_ok_def energy_in_band_def amount_ok_def)
    moreover have "d_le (Fin e) (cap_upper_bound (capacity m))"
      using assms(1,3) e by (simp add: energy_in_band_def)
    ultimately show ?thesis using e d_le_trans by metis
  next
    case 2
    with assms e show ?thesis
      using consume_negative_bounds [of "energy_consume_lower_bound sm" "cap_upper_bound (capacity m)" m val]
      by (simp add: new_energy_def Let_def band_ok_def energy_in_band_def amount_ok_def
          cap_upper_bound_def)
  next
    case 3
    with assms show ?thesis by (simp add: new_energy_def energy_in_band_def)
  qed
qed

text \<open>
  C5: \<open>consumeEnergy\<close> keeps the stored energy between the state machine's lower bound and the
  capacity of the capacitor, for consumption and for harvesting, with every state machine and
  harvester; the band itself does not move; and a consumption never leaves more energy than
  there was. Amounts are rounded as doubles are.
\<close>

theorem consumeEnergy_keeps_band:
  assumes "band_ok m" "energy_in_band m" "amount_ok m val"
    and "consumeEnergy now sender val m = Inr (r, m')"
  shows "band_ok m' \<and> energy_in_band m' \<and>
     (d_gt val (Fin 0) \<longrightarrow> d_le (energy_remained m') (energy_remained m))"
proof -
  from assms(4) obtain sm sm' ms p where sm: "state_machine m = Some sm"
    and u: "sm_update (fout_ok m) (dirty_patch m) sm (new_energy sm val m) = Inr (sm', ms, p)"
    and f: "foldE (broadcastMsgAsEvent now) ms
       (m\<lparr>energy_remained := new_energy sm val m, state_machine := Some sm', dirty_patch := p\<rparr>) = Inr m'"
    by (rule consumeEnergy_cases)
  have lb: "energy_consume_lower_bound sm' = energy_consume_lower_bound sm"
    using u by (rule sm_update_lower_bound)
  obtain q ev where m': "m' = m\<lparr>energy_remained := new_energy sm val m, state_machine := Some sm',
      dirty_patch := p, msg_togo := q, event_msg := ev\<rparr>"
    using foldE_broadcast_frame [OF f] by auto
  from new_energy_bounds [OF sm assms(1-3)] assms(1) sm show ?thesis
    by (simp add: m' band_ok_def energy_in_band_def lb)
qed

text \<open>A 2 uF capacitor with thresholds 100 and 300 nJ, holding 500 nJ.\<close>

definition example_mgmt :: energy_mgmt where
  "example_mgmt = (EnergyMgmt_new (Fin 1) (Fin 1) 10
      (Some (Simple_SM (SimpleEnergySM_new (Fin 100) (Fin 300) []))) Simple_Harvester (Fin 2))
      \<lparr>energy_remained := Fin 500\<rparr>"

lemma example_mgmt_ok: "band_ok example_mgmt" "energy_in_band example_mgmt"
  by (simp_all add: band_ok_def energy_in_band_def example_mgmt_def EnergyMgmt_new_def
      SimpleEnergySM_new_def energy_consume_lower_bound_def cap_upper_bound_def)

theorem consumeEnergy_keeps_band_witness:
  "\<exists>m'. consumeEnergy 0 ''AtomicCPU'' (Fin 450) example_mgmt = Inr (1, m') \<and>
     energy_in_band m' \<and> energy_remained m' = Fin 100"
proof -
  obtain r m' where c: "consumeEnergy 0 ''AtomicCPU'' (Fin 450) example_mgmt = Inr (r, m')"
      and v: "r = 1" "energy_remained m' = Fin 100"
    by (simp add: consumeEnergy_def example_mgmt_def EnergyMgmt_new_def sm_update_def
        SimpleEnergySM_new_def SimpleEnergySM_update_def energy_consume_lower_bound_def
        consume_positive_def Let_def)
  have "amount_ok example_mgmt (Fin 450)" by (simp add: amount_ok_def)
  from consumeEnergy_keeps_band [OF example_mgmt_ok this c] c v show ?thesis by auto
qed

text \<open>
  Below the lower bound, consuming energy creates energy. If the stored energy is below the
  state machine's lower bound, as it is after construction (0 nJ against a positive
  \<open>thres_1_to_off\<close>), a consumption of any positive amount sets it to the lower bound, which is more
  than before.
\<close>

lemma consumeEnergy_lifts_to_bound:
  assumes "state_machine m = Some sm" "energy_remained m = Fin e" "d_wf (Fin e)"
    and "d_lt (Fin e) (energy_consume_lower_bound sm)" "d_gt val (Fin 0)"
    and "consumeEnergy now sender val m = Inr (r, m')"
  shows "energy_remained m' = energy_consume_lower_bound sm \<and>
     d_lt (energy_remained m) (energy_remained m')"
proof -
  have "d_lt (d_sub (Fin e) val) (energy_consume_lower_bound sm)"
    using d_sub_pos_le [OF assms(3,5)] assms(4) by (rule d_le_lt_trans)
  then have ne: "new_energy sm val m = energy_consume_lower_bound sm"
    using assms(2,5) by (simp add: new_energy_def consume_positive_def)
  from assms(6) obtain sm' ms p where
      f: "foldE (broadcastMsgAsEvent now) ms
         (m\<lparr>energy_remained := new_energy sm val m, state_machine := Some sm', dirty_patch := p\<rparr>) = Inr m'"
    by (rule consumeEnergy_cases) (use assms(1) in auto)
  obtain q ev where "m' = m\<lparr>energy_remained := new_energy sm val m, state_machine := Some sm',
      dirty_patch := p, msg_togo := q, event_msg := ev\<rparr>"
    using foldE_broadcast_frame [OF f] by auto
  then show ?thesis using ne assms(2,4) by simp
qed

lemma consumeEnergy_lifts_to_bound_witness:
  "\<exists>m'. consumeEnergy 0 ''VDEV-0'' (Fin 1) (example_mgmt\<lparr>energy_remained := Fin 0\<rparr>) = Inr (1, m') \<and>
     energy_remained m' = Fin 100"
proof -
  let ?m = "example_mgmt\<lparr>energy_remained := Fin 0\<rparr>"
  let ?sm = "Simple_SM (SimpleEnergySM_new (Fin 100) (Fin 300) [])"
  obtain m' where c: "consumeEnergy 0 ''VDEV-0'' (Fin 1) ?m = Inr (1, m')"
    by (simp add: consumeEnergy_def example_mgmt_def EnergyMgmt_new_def sm_update_def
        SimpleEnergySM_new_def SimpleEnergySM_update_def energy_consume_lower_bound_def
        consume_positive_def Let_def)
  have "energy_remained m' = energy_consume_lower_bound ?sm"
    by (rule consumeEnergy_lifts_to_bound [OF _ _ _ _ _ c, THEN conjunct1])
      (simp add: example_mgmt_def EnergyMgmt_new_def energy_consume_lower_bound_def
        SimpleEnergySM_new_def)+
  with c show ?thesis by (simp add: energy_consume_lower_bound_def SimpleEnergySM_new_def)
qed

section \<open>The message queue\<close>

text \<open>The event that broadcasts is scheduled exactly while messages wait.\<close>

definition mq_inv :: "'a energy_mgmt_scheme \<Rightarrow> bool" where
  "mq_inv m \<longleftrightarrow> (scheduled (event_msg m) \<longleftrightarrow> msg_togo m \<noteq> [])"

lemma consumeEnergy_queue:
  assumes "consumeEnergy now sender val m = Inr (r, m')"
  shows "\<exists>ms. length ms \<le> 1 \<and> msg_togo m' = msg_togo m @ ms \<and>
     (msg_togo m \<noteq> [] \<or> ms = [] \<longrightarrow> event_msg m' = event_msg m) \<and>
     (msg_togo m = [] \<and> ms \<noteq> [] \<longrightarrow> scheduled (event_msg m') \<and> ev_when (event_msg m') = now) \<and>
     energy_harvest_data m' = energy_harvest_data m \<and> time_unit m' = time_unit m \<and>
     event_energy_harvest m' = event_energy_harvest m \<and> capacity m' = capacity m"
proof -
  from assms obtain sm sm' ms p where
      u: "sm_update (fout_ok m) (dirty_patch m) sm (new_energy sm val m) = Inr (sm', ms, p)"
      and f: "foldE (broadcastMsgAsEvent now) ms
         (m\<lparr>energy_remained := new_energy sm val m, state_machine := Some sm', dirty_patch := p\<rparr>) = Inr m'"
    by (rule consumeEnergy_cases)
  have "length ms \<le> 1" using sm_update_messages [OF u] by auto
  moreover obtain q ev where "m' = m\<lparr>energy_remained := new_energy sm val m,
      state_machine := Some sm', dirty_patch := p, msg_togo := q, event_msg := ev\<rparr>"
    using foldE_broadcast_frame [OF f] by auto
  ultimately show ?thesis using foldE_broadcast_frame [OF f] by (intro exI [of _ ms]) auto
qed

lemma consumeEnergy_mq_inv:
  "\<lbrakk> consumeEnergy now sender val m = Inr (r, m'); mq_inv m \<rbrakk> \<Longrightarrow> mq_inv m'"
  using consumeEnergy_queue by (fastforce simp: mq_inv_def)

text \<open>From a consistent queue \<open>consumeEnergy\<close> always returns, given a state machine and a log file.\<close>

lemma consumeEnergy_total:
  assumes "state_machine m \<noteq> None" "fout_ok m" "mq_inv m \<or> msg_togo m \<noteq> []"
  shows "\<exists>m'. consumeEnergy now sender val m = Inr (1, m')"
proof -
  from assms obtain sm where sm: "state_machine m = Some sm" by auto
  obtain sm' ms p where u: "sm_update True (dirty_patch m) sm (new_energy sm val m) = Inr (sm', ms, p)"
    using sm_update_total by blast
  from sm_update_messages [OF u] u assms(2,3) show ?thesis
    by (auto simp: consumeEnergy_alt [OF sm] broadcastMsgAsEvent_def mq_inv_def ev_schedule_def)
qed

text \<open>
  What a listener may do while a message is being delivered: it may cause further messages, which
  queue up behind, and it may not touch the event that is being serviced. \<open>consumeEnergy\<close>, the
  only way listeners reach the manager, respects this.
\<close>

locale energy_listener =
  fixes deliver :: "tick \<Rightarrow> energy_msg \<Rightarrow> 'a energy_mgmt_scheme \<Rightarrow> (int \<times> 'a energy_mgmt_scheme) res"
  assumes deliver_appends: "\<lbrakk> deliver now msg m = Inr (r, m'); msg_togo m \<noteq> [] \<rbrakk> \<Longrightarrow>
     (\<exists>ms. msg_togo m' = msg_togo m @ ms) \<and> event_msg m' = event_msg m"
begin

lemma broadcast_fifo:
  assumes "broadcastMsg (deliver now) now (m\<lparr>event_msg := ev_fire (event_msg m)\<rparr>) = Inr m'"
  shows "\<exists>msg q ms r m1. msg_togo m = msg # q \<and> msg_togo m' = q @ ms \<and> mq_inv m' \<and>
     deliver now msg (m\<lparr>event_msg := ev_fire (event_msg m)\<rparr>) = Inr (r, m1) \<and>
     m' = m1\<lparr>msg_togo := msg_togo m', event_msg := event_msg m'\<rparr>"
proof -
  from assms obtain msg q where q: "msg_togo m = msg # q"
    by (auto simp: broadcastMsg_def split: list.splits)
  with assms obtain r m1 where d: "deliver now msg (m\<lparr>event_msg := ev_fire (event_msg m)\<rparr>) = Inr (r, m1)"
    by (auto simp: broadcastMsg_def bindE_Inr_iff)
  from deliver_appends [OF d] q obtain ms where ms: "msg_togo m1 = (msg # q) @ ms"
      and e: "event_msg m1 = ev_fire (event_msg m)" by auto
  have "m' = (if q @ ms = [] then m1\<lparr>msg_togo := q @ ms\<rparr>
      else m1\<lparr>msg_togo := q @ ms, event_msg := (event_msg m1)\<lparr>ev_when := now, scheduled := True\<rparr>\<rparr>)"
    using assms q d ms e by (auto simp: broadcastMsg_def bindE_Inr_iff Let_def split: if_splits)
  with q d e show ?thesis by (auto simp: mq_inv_def)
qed

lemma broadcast_total:
  assumes "msg_togo m = msg # q" and "deliver now msg (m\<lparr>event_msg := ev_fire (event_msg m)\<rparr>) = Inr (r, m1)"
  shows "\<exists>m'. broadcastMsg (deliver now) now (m\<lparr>event_msg := ev_fire (event_msg m)\<rparr>) = Inr m'"
proof -
  have "event_msg m1 = ev_fire (event_msg m)" using deliver_appends [OF assms(2)] assms(1) by simp
  then show ?thesis using assms by (simp add: broadcastMsg_def Let_def ev_schedule_def)
qed

end

text \<open>A listener that only forwards consumption to the manager, as the ports do.\<close>

interpretation mgmt_listener: energy_listener EnergyMgmt_handleMsg
proof
  fix now msg and m m' :: "'a energy_mgmt_scheme" and r
  assume h: "EnergyMgmt_handleMsg now msg m = Inr (r, m')" and ne: "msg_togo m \<noteq> []"
  show "(\<exists>ms. msg_togo m' = msg_togo m @ ms) \<and> event_msg m' = event_msg m"
  proof (cases "msg_type msg = 0")
    case True
    with h obtain s where "consumeEnergy now s (msg_val msg) m = Inr (r, m')"
      by (auto simp: EnergyMgmt_handleMsg_def split: option.splits)
    from consumeEnergy_queue [OF this] ne show ?thesis by auto
  qed (use h in \<open>simp add: EnergyMgmt_handleMsg_def\<close>)
qed

section \<open>Harvesting follows the energy profile\<close>

text \<open>The harvesting events of a manager, one after the other, each at its scheduled tick.\<close>

fun harvest_events :: "nat \<Rightarrow> 'a energy_mgmt_scheme \<Rightarrow> 'a energy_mgmt_scheme res" where
  "harvest_events 0 m = Inr m"
| "harvest_events (Suc n) m =
     bindE (harvest_events n m) (\<lambda>m.
     energyHarvest (ev_when (event_energy_harvest m))
       (m\<lparr>event_energy_harvest := ev_fire (event_energy_harvest m)\<rparr>))"

lemma energyHarvest_step:
  assumes "energyHarvest now m = Inr m'" "energy_harvest_data m = rev (v # vs)"
  shows "energy_harvest_data m' = rev vs \<and> time_unit m' = time_unit m \<and>
     event_energy_harvest m' =
       (event_energy_harvest m)\<lparr>ev_when := now + time_unit m, scheduled := True\<rparr> \<and>
     (\<exists>m1. consumeEnergy now ''harvester'' (d_neg v) m = Inr (1, m1) \<and>
        energy_remained m' = energy_remained m1)"
proof -
  from assms obtain r m1 where c: "consumeEnergy now ''harvester'' (d_neg v) m = Inr (r, m1)"
      and m': "m' = m1\<lparr>energy_harvest_data := butlast (energy_harvest_data m1),
        event_energy_harvest :=
          (event_energy_harvest m1)\<lparr>ev_when := now + time_unit m1, scheduled := True\<rparr>\<rparr>"
    by (auto simp: energyHarvest_def bindE_Inr_iff Let_def)
  have "r = 1" using c by (rule consumeEnergy_cases)
  with consumeEnergy_queue [OF c] c m' assms(2) show ?thesis by auto
qed

lemma harvest_events_data:
  assumes "energy_harvest_data m = rev vs" "k \<le> length vs" "harvest_events k m = Inr m'"
  shows "energy_harvest_data m' = rev (drop k vs) \<and> time_unit m' = time_unit m \<and>
     ev_when (event_energy_harvest m') =
       ev_when (event_energy_harvest m) + of_nat k * time_unit m"
  using assms
proof (induction k arbitrary: m')
  case (Suc k)
  then obtain m1 where m1: "harvest_events k m = Inr m1"
      and h: "energyHarvest (ev_when (event_energy_harvest m1))
        (m1\<lparr>event_energy_harvest := ev_fire (event_energy_harvest m1)\<rparr>) = Inr m'"
    by (auto simp: bindE_Inr_iff)
  from Suc.IH [OF Suc.prems(1) _ m1] Suc.prems(2)
  have ih: "energy_harvest_data m1 = rev (drop k vs)" "time_unit m1 = time_unit m"
      "ev_when (event_energy_harvest m1) = ev_when (event_energy_harvest m) + of_nat k * time_unit m"
    by simp_all
  have "drop k vs = vs ! k # drop (Suc k) vs" using Suc.prems(2) by (simp add: Cons_nth_drop_Suc)
  with ih have "energy_harvest_data
      (m1\<lparr>event_energy_harvest := ev_fire (event_energy_harvest m1)\<rparr>) = rev (vs ! k # drop (Suc k) vs)"
    by simp
  from energyHarvest_step [OF h this] ih show ?case
    by (simp add: distrib_right add.assoc add.commute [of "time_unit m"])
qed simp

text \<open>
  C24: the harvesting events consume the energy profile in file order at a fixed period. After
  \<open>readEnergyProfile\<close> the \<open>k\<close>-th harvesting event takes exactly the \<open>k\<close>-th value of the file, as
  an amount to harvest, and the next event is due \<open>energy_time_unit\<close> ticks later.
\<close>

theorem harvest_follows_profile:
  assumes "energy_harvest_data m = readEnergyProfile (Some vs)" "k < length vs"
    and "harvest_events k m = Inr mk" and "harvest_events (Suc k) m = Inr mk'"
  shows "energy_harvest_data mk' = rev (drop (Suc k) vs) \<and>
     ev_when (event_energy_harvest mk') =
       ev_when (event_energy_harvest m) + of_nat (Suc k) * time_unit m \<and>
     (\<exists>m1. consumeEnergy (ev_when (event_energy_harvest mk)) ''harvester'' (d_neg (vs ! k))
         (mk\<lparr>event_energy_harvest := ev_fire (event_energy_harvest mk)\<rparr>) = Inr (1, m1) \<and>
        energy_remained mk' = energy_remained m1)"
proof -
  have d0: "energy_harvest_data m = rev vs" using assms(1) by (simp add: readEnergyProfile_def)
  have "energy_harvest_data mk = rev (drop k vs)"
    using harvest_events_data [OF d0 _ assms(3)] assms(2) by simp
  then have "energy_harvest_data mk = rev (vs ! k # drop (Suc k) vs)"
    using assms(2) by (simp add: Cons_nth_drop_Suc)
  moreover have "energyHarvest (ev_when (event_energy_harvest mk))
      (mk\<lparr>event_energy_harvest := ev_fire (event_energy_harvest mk)\<rparr>) = Inr mk'"
    using assms(3,4) by simp
  ultimately show ?thesis
    using energyHarvest_step [of _ _ mk' "vs ! k" "drop (Suc k) vs"]
      harvest_events_data [OF d0 _ assms(4)] assms(2) by auto
qed

definition example_profile :: energy_mgmt where
  "example_profile = example_mgmt\<lparr>energy_harvest_data := readEnergyProfile (Some [Fin 5, Fin 7]),
     event_energy_harvest := \<lparr>scheduled = True, ev_when = 10\<rparr>\<rparr>"

lemmas example_profile_defs = example_profile_def example_mgmt_def EnergyMgmt_new_def
  readEnergyProfile_def energyHarvest_def consumeEnergy_def consume_negative_def energy_harvest_def
  cap_upper_bound_def energy_consume_lower_bound_def sm_update_def SimpleEnergySM_new_def
  SimpleEnergySM_update_def broadcastMsgAsEvent_def ev_schedule_def ev_fire_def ev_idle_def Let_def

lemma example_profile_runs:
  "\<exists>m1. harvest_events (Suc 0) example_profile = Inr m1 \<and>
     ev_when (event_energy_harvest m1) = 20 \<and> energy_remained m1 = Fin 505"
  "\<exists>m2. harvest_events (Suc (Suc 0)) example_profile = Inr m2 \<and> energy_remained m2 = Fin 512"
  by (simp_all add: example_profile_defs)

theorem harvest_follows_profile_witness:
  "\<exists>m1 m2. harvest_events (Suc 0) example_profile = Inr m1 \<and>
     harvest_events (Suc (Suc 0)) example_profile = Inr m2 \<and> energy_harvest_data m2 = [] \<and>
     ev_when (event_energy_harvest m2) = 30"
proof -
  obtain m1 m2 where e: "harvest_events (Suc 0) example_profile = Inr m1"
      "harvest_events (Suc (Suc 0)) example_profile = Inr m2"
    using example_profile_runs by blast
  have "energy_harvest_data example_profile = readEnergyProfile (Some [Fin 5, Fin 7])"
      "Suc 0 < length [Fin 5, Fin 7]" by (simp_all add: example_profile_def)
  from harvest_follows_profile [OF this e] have "energy_harvest_data m2 = []"
      "ev_when (event_energy_harvest m2) = 30"
    by (simp_all add: example_profile_def example_mgmt_def EnergyMgmt_new_def)
  with e show ?thesis by blast
qed

end
