(* ===== verification/Int_Math.thy ===== *)
theory Int_Math
  imports Nvp_Prelude
begin

text \<open>
  Integer arithmetic and bit fields: \<open>base/intmath.hh\<close> and \<open>base/bitfield.hh\<close>. The templates are
  modelled on words of any length where the source is generic; \<open>floorLog2\<close> has the 32-bit and the
  64-bit overload. Division by zero, which traps, is the error \<open>Undefined\<close>.
\<close>

unbundle bit_operations_syntax

section \<open>Definitions\<close>

definition leastSigBit :: "'a::len word \<Rightarrow> 'a word" where
  "leastSigBit n = n AND NOT (n - 1)"

definition isPowerOf2 :: "'a::len word \<Rightarrow> bool" where
  "isPowerOf2 n \<longleftrightarrow> n \<noteq> 0 \<and> leastSigBit n = n"

definition isPow2 :: "'a::len word \<Rightarrow> bool" where
  "isPow2 v \<longleftrightarrow> v AND (v - 1) = 0"

text \<open>\<open>if (x & m) { y += k; x >>= k; }\<close>\<close>

definition flog_step :: "nat \<Rightarrow> 'a::len word \<Rightarrow> int \<times> 'a word \<Rightarrow> int \<times> 'a word" where
  "flog_step k m = (\<lambda>(y, x). if x AND m \<noteq> 0 then (y + int k, drop_bit k x) else (y, x))"

definition floorLog2_u32 :: "u32 \<Rightarrow> int res" where
  "floorLog2_u32 x =
     bindE (assertE (x > 0)) (\<lambda>_.
     (let s = (0, x);
          s = flog_step 16 0xffff0000 s;
          s = flog_step 8 0x0000ff00 s;
          s = flog_step 4 0x000000f0 s;
          s = flog_step 2 0x0000000c s
      in Inr (if snd s AND 0x00000002 \<noteq> 0 then fst s + 1 else fst s)))"

definition floorLog2 :: "u64 \<Rightarrow> int res" where
  "floorLog2 x =
     bindE (assertE (x > 0)) (\<lambda>_.
     (let s = (0, x);
          s = flog_step 32 0xffffffff00000000 s;
          s = flog_step 16 0x00000000ffff0000 s;
          s = flog_step 8 0x000000000000ff00 s;
          s = flog_step 4 0x00000000000000f0 s;
          s = flog_step 2 0x000000000000000c s
      in Inr (if snd s AND 0x0000000000000002 \<noteq> 0 then fst s + 1 else fst s)))"

text \<open>The signed overloads check the sign and read the value as unsigned.\<close>

definition floorLog2_int :: "int \<Rightarrow> int res" where
  "floorLog2_int x = bindE (assertE (x > 0)) (\<lambda>_. floorLog2_u32 (of_int x))"

definition floorLog2_long :: "int \<Rightarrow> int res" where
  "floorLog2_long x = bindE (assertE (x > 0)) (\<lambda>_. floorLog2 (of_int x))"

definition ceilLog2 :: "u64 \<Rightarrow> int res" where
  "ceilLog2 n =
     (if n = 1 then Inr 0 else bindE (floorLog2 (n - 1)) (\<lambda>y. Inr (y + 1)))"

text \<open>A shift by 64 is undefined; \<open>ceilLog2\<close> can return 64.\<close>

definition shl1 :: "int \<Rightarrow> u64 res" where
  "shl1 k = (if 0 \<le> k \<and> k < 64 then Inr (push_bit (nat k) 1) else Inl Undefined)"

definition floorPow2 :: "u64 \<Rightarrow> u64 res" where
  "floorPow2 n = bindE (floorLog2 n) shl1"

definition ceilPow2 :: "u64 \<Rightarrow> u64 res" where
  "ceilPow2 n = bindE (ceilLog2 n) shl1"

definition divCeil :: "u64 \<Rightarrow> u64 \<Rightarrow> u64 res" where
  "divCeil a b = (if b = 0 then Inl Undefined else Inr ((a + b - 1) div b))"

definition roundUp :: "'a::len word \<Rightarrow> 'a word \<Rightarrow> 'a word" where
  "roundUp val align = (let mask = align - 1 in (val + mask) AND NOT mask)"

definition roundDown :: "'a::len word \<Rightarrow> 'a word \<Rightarrow> 'a word" where
  "roundDown val align = (let mask = align - 1 in val AND NOT mask)"

text \<open>\<open>power\<close>: repeated multiplication; the overflow warnings are not part of the result.\<close>

fun power_loop :: "nat \<Rightarrow> u64 \<Rightarrow> u64 \<Rightarrow> u64" where
  "power_loop 0 n result = result"
| "power_loop (Suc k) n result = power_loop k n (result * n)"

definition power_u32 :: "u32 \<Rightarrow> u32 \<Rightarrow> u64" where
  "power_u32 n e = (if e = 0 then 1 else power_loop (unat e - 1) (ucast n) (ucast n))"

subsection \<open>Bit fields\<close>

text \<open>\<open>mask(nbits)\<close> for \<open>0 \<le> nbits \<le> 64\<close>, the range in which the shift is defined.\<close>

definition bitmask :: "nat \<Rightarrow> u64" where
  "bitmask nbits = (if nbits = 64 then - 1 else push_bit nbits 1 - 1)"

definition bits :: "u64 \<Rightarrow> nat \<Rightarrow> nat \<Rightarrow> u64" where
  "bits val hi lo = drop_bit lo val AND bitmask (hi + 1 - lo)"

definition mbits :: "u64 \<Rightarrow> nat \<Rightarrow> nat \<Rightarrow> u64" where
  "mbits val hi lo = val AND (bitmask (hi + 1) AND NOT (bitmask lo))"

definition sext :: "nat \<Rightarrow> u64 \<Rightarrow> u64" where
  "sext N val =
     (let sign_bit = bits val (N - 1) (N - 1) in
      if sign_bit \<noteq> 0 then val OR NOT (bitmask N) else val)"

definition insertBits :: "u64 \<Rightarrow> nat \<Rightarrow> nat \<Rightarrow> u64 \<Rightarrow> u64" where
  "insertBits val hi lo bit_val =
     (let bmask = push_bit lo (bitmask (hi + 1 - lo)) in
      (push_bit lo bit_val AND bmask) OR (val AND NOT bmask))"

definition msb_step :: "nat \<Rightarrow> nat \<Rightarrow> nat \<Rightarrow> nat \<times> u64 \<Rightarrow> nat \<times> u64" where
  "msb_step hi lo k =
     (\<lambda>(msb, val). if bits val hi lo \<noteq> 0 then (msb + k, drop_bit k val) else (msb, val))"

definition findMsbSet :: "u64 \<Rightarrow> nat" where
  "findMsbSet val =
     (if val = 0 then 0
      else
        let s = (0, val);
            s = msb_step 63 32 32 s;
            s = msb_step 31 16 16 s;
            s = msb_step 15 8 8 s;
            s = msb_step 7 4 4 s;
            s = msb_step 3 2 2 s
        in if bits (snd s) 1 1 \<noteq> 0 then fst s + 1 else fst s)"

definition lsb_step :: "nat \<Rightarrow> nat \<Rightarrow> nat \<times> u64 \<Rightarrow> nat \<times> u64" where
  "lsb_step hi k =
     (\<lambda>(lsb, val). if bits val hi 0 = 0 then (lsb + k, drop_bit k val) else (lsb, val))"

definition findLsbSet :: "u64 \<Rightarrow> nat" where
  "findLsbSet val =
     (if val = 0 then 64
      else
        let s = (0, val);
            s = lsb_step 31 32 s;
            s = lsb_step 15 16 s;
            s = lsb_step 7 8 s;
            s = lsb_step 3 4 s;
            s = lsb_step 1 2 s
        in if bits (snd s) 0 0 = 0 then fst s + 1 else fst s)"

section \<open>Logarithms\<close>

definition is_log2 :: "nat \<Rightarrow> nat \<Rightarrow> bool" where
  "is_log2 y n \<longleftrightarrow> 2 ^ y \<le> n \<and> n < 2 ^ (y + 1)"

lemma is_log2_le: "\<lbrakk> is_log2 y m; is_log2 z n; m \<le> n \<rbrakk> \<Longrightarrow> y \<le> z"
proof (rule ccontr)
  assume h: "is_log2 y m" "is_log2 z n" "m \<le> n" "\<not> y \<le> z"
  then have "(2 :: nat) ^ (z + 1) \<le> 2 ^ y" by (intro power_increasing) auto
  with h show False by (simp add: is_log2_def)
qed

lemma is_log2_unique: "\<lbrakk> is_log2 y n; is_log2 z n \<rbrakk> \<Longrightarrow> y = z"
  by (meson is_log2_le le_antisym order_refl)

lemma unat_drop_bit_div: "unat (drop_bit k x) = unat x div 2 ^ k"
  by (simp only: unat_drop_bit_eq) (simp add: drop_bit_eq_div)

lemma word_ge_exp_iff:
  fixes x :: "'a::len word"
  shows "2 ^ k \<le> unat x \<longleftrightarrow> drop_bit k x \<noteq> 0"
proof -
  have "drop_bit k x = 0 \<longleftrightarrow> unat (drop_bit k x) = 0" by (simp only: unat_eq_zero)
  then show ?thesis by (auto simp only: unat_drop_bit_div div_eq_0_iff not_less power_eq_0_iff)
qed

lemma upper_bits_iff:
  fixes x :: "'a::len word"
  assumes "unat x < 2 ^ (2 * k)"
  shows "x AND push_bit k (mask k) \<noteq> 0 \<longleftrightarrow> 2 ^ k \<le> unat x"
proof -
  have "drop_bit (2 * k) x = 0" using assms word_ge_exp_iff [of "2 * k" x] by linarith
  then have hi: "\<not> bit x n" if "2 * k \<le> n" for n
    using bit_drop_bit_eq [of "2 * k" x] that by (auto dest: fun_cong [of _ _ "n - 2 * k"])
  have d: "drop_bit k (x AND push_bit k (mask k)) = drop_bit k x"
  proof (rule bit_word_eqI)
    fix n assume n: "n < LENGTH('a)"
    show "bit (drop_bit k (x AND push_bit k (mask k))) n = bit (drop_bit k x) n"
      using hi [of "k + n"] by (cases "n < k") (auto simp: bit_simps dest: bit_imp_le_length)
  qed
  have p: "x AND push_bit k (mask k) = push_bit k (drop_bit k x)"
  proof (rule bit_word_eqI)
    fix n assume n: "n < LENGTH('a)"
    show "bit (x AND push_bit k (mask k)) n = bit (push_bit k (drop_bit k x)) n"
      using hi [of n] n by (cases "n < 2 * k") (auto simp: bit_simps)
  qed
  show ?thesis
  proof (cases "drop_bit k x = 0")
    case True
    then show ?thesis using p word_ge_exp_iff [of k x] by simp
  next
    case False
    then have "x AND push_bit k (mask k) \<noteq> 0" using d by (metis drop_bit_of_0)
    then show ?thesis using False word_ge_exp_iff [of k x] by simp
  qed
qed

text \<open>After the step for width \<open>k\<close> the remaining value is below \<open>2 ^ k\<close>.\<close>

definition flog_inv :: "nat \<Rightarrow> nat \<Rightarrow> int \<times> 'a::len word \<Rightarrow> bool" where
  "flog_inv n b s \<longleftrightarrow> (\<exists>j. fst s = int j \<and> unat (snd s) = n div 2 ^ j) \<and> snd s \<noteq> 0 \<and> unat (snd s) < 2 ^ b"

lemma flog_step_inv:
  assumes "flog_inv n b s" "b = 2 * k" "m = push_bit k (mask k)"
  shows "flog_inv n k (flog_step k m s)"
proof (cases "2 ^ k \<le> unat (snd s)")
  case True
  obtain y x where s: "s = (y, x)" by (cases s)
  from assms(1,2) s obtain j where j: "y = int j" "unat x = n div 2 ^ j" "unat x < 2 ^ (2 * k)"
    by (auto simp: flog_inv_def)
  have d: "drop_bit k x \<noteq> 0" using True s by (simp add: word_ge_exp_iff)
  have "unat (drop_bit k x) = n div 2 ^ (j + k)"
    by (simp only: unat_drop_bit_div j(2) div_mult2_eq power_add)
  moreover have "unat (drop_bit k x) < 2 ^ k"
    using j(3) by (simp only: unat_drop_bit_div mult_2 power_add less_mult_imp_div_less)
  ultimately show ?thesis
    using True s assms(3) d j upper_bits_iff [OF j(3)]
    by (auto simp: flog_step_def flog_inv_def intro!: exI [of _ "j + k"])
next
  case False
  then show ?thesis using assms upper_bits_iff [of "snd s" k]
    by (auto simp: flog_step_def flog_inv_def split: prod.splits)
qed

lemma flog_inv_1:
  assumes "flog_inv n 1 s" shows "\<exists>y. fst s = int y \<and> is_log2 y n"
proof -
  from assms obtain y where y: "fst s = int y" "unat (snd s) = n div 2 ^ y"
      and x: "snd s \<noteq> 0" "unat (snd s) < 2" by (auto simp: flog_inv_def)
  have "unat (snd s) \<noteq> 0" using x(1) by (simp add: unat_eq_zero)
  then have "n div 2 ^ y = 1" using x(2) y(2) by simp
  then have "2 ^ y \<le> n" "n < 2 ^ (y + 1)"
    using div_less [of n "2 ^ y"] div_le_mono [of "2 ^ (y + 1)" n "2 ^ y"] by (force simp: not_less)+
  with y show ?thesis by (auto simp: is_log2_def)
qed

lemma floorLog2_u32_correct:
  assumes "x \<noteq> 0" shows "\<exists>y. floorLog2_u32 x = Inr (int y) \<and> is_log2 y (unat x)"
proof -
  let ?s = "flog_step 1 2 (flog_step 2 0xc (flog_step 4 0xf0 (flog_step 8 0xff00
      (flog_step 16 0xffff0000 (0, x)))))"
  have i: "flog_inv (unat x) 32 (0, x)"
    using assms unsigned_less [of x, where ?'a = nat] by (auto simp: flog_inv_def intro: exI [of _ 0])
  have "flog_inv (unat x) 1 ?s"
    by ((rule flog_step_inv)+, rule i) (simp_all add: mask_eq_exp_minus_1)
  moreover have "floorLog2_u32 x = Inr (fst ?s)"
    using assms by (simp add: floorLog2_u32_def Let_def word_gt_0 flog_step_def [of "Suc 0"] split_beta)
  ultimately show ?thesis using flog_inv_1 by fastforce
qed

lemma floorLog2_correct:
  assumes "x \<noteq> 0" shows "\<exists>y. floorLog2 x = Inr (int y) \<and> is_log2 y (unat x)"
proof -
  let ?s = "flog_step 1 2 (flog_step 2 0xc (flog_step 4 0xf0 (flog_step 8 0xff00
      (flog_step 16 0xffff0000 (flog_step 32 0xffffffff00000000 (0, x))))))"
  have i: "flog_inv (unat x) 64 (0, x)"
    using assms unsigned_less [of x, where ?'a = nat] by (auto simp: flog_inv_def intro: exI [of _ 0])
  have "flog_inv (unat x) 1 ?s"
    by ((rule flog_step_inv)+, rule i) (simp_all add: mask_eq_exp_minus_1)
  moreover have "floorLog2 x = Inr (fst ?s)"
    using assms by (simp add: floorLog2_def Let_def word_gt_0 flog_step_def [of "Suc 0"] split_beta)
  ultimately show ?thesis using flog_inv_1 by fastforce
qed

lemma floorLog2_eq: "is_log2 y (unat x) \<Longrightarrow> floorLog2 x = Inr (int y)"
proof -
  assume y: "is_log2 y (unat x)"
  then have "x \<noteq> 0" by (auto simp: is_log2_def)
  then show ?thesis using floorLog2_correct y is_log2_unique by blast
qed

lemma is_log2_word: "is_log2 y (unat (n :: u64)) \<Longrightarrow> y < 64"
proof -
  assume "is_log2 y (unat n)"
  then have "2 ^ y < (2 :: nat) ^ 64" using unsigned_less [of n, where ?'a = nat] by (simp add: is_log2_def)
  then show ?thesis using power_less_imp_less_exp [of "2 :: nat" y 64] by simp
qed

lemma unat_exp: "k < 64 \<Longrightarrow> unat (2 ^ k :: u64) = 2 ^ k"
proof -
  assume "k < 64"
  then have "(2 :: nat) ^ k < 2 ^ LENGTH(64)" by (intro power_strict_increasing) simp_all
  then have "unat (of_nat (2 ^ k) :: u64) = 2 ^ k" 
    unfolding unsigned_of_nat by (simp add: take_bit_nat_eq_self del: len_bit0 len_num1)
  then show ?thesis by simp
qed

lemma drop_bit_log:
  assumes "is_log2 y (unat x)" shows "bit x y"
proof -
  have "unat x div 2 ^ y = 1" using assms by (auto simp: is_log2_def intro!: div_nat_eqI)
  then have "unat (drop_bit y x) = 1" by (simp add: unat_drop_bit_div)
  then have "drop_bit y x = 1" by (intro unsigned_word_eqI [where ?'a = nat]) simp
  then show ?thesis by (simp add: bit_iff_odd_drop_bit)
qed

lemma isPowerOf2_log:
  fixes n :: "'a::len word"
  assumes "isPowerOf2 n" "is_log2 y (unat n)"
  shows "unat n = 2 ^ y"
proof (rule ccontr)
  assume "unat n \<noteq> 2 ^ y"
  moreover have "unat (n - 1) = unat n - 1" using assms(1) by (simp add: isPowerOf2_def unat_minus_one)
  ultimately have "is_log2 y (unat (n - 1))" using assms(2) by (auto simp: is_log2_def)
  then show False using assms(1) drop_bit_log [of y "n - 1"] drop_bit_log [OF assms(2)]
    unfolding isPowerOf2_def leastSigBit_def by (metis bit_and_iff bit_not_iff)
qed

lemma isPowerOf2_exp:
  fixes n :: u64
  assumes "isPowerOf2 n"
  shows "\<exists>k < 64. n = 2 ^ k \<and> floorLog2 n = Inr (int k)"
proof -
  obtain y where y: "floorLog2 n = Inr (int y)" "is_log2 y (unat n)"
    using floorLog2_correct [of n] assms by (auto simp: isPowerOf2_def)
  have k: "y < 64" using is_log2_word [OF y(2)] .
  then have "unat n = unat (2 ^ y :: u64)" using isPowerOf2_log [OF assms y(2)] by (simp add: unat_exp)
  then have "n = 2 ^ y" by (rule unsigned_word_eqI)
  then show ?thesis using y(1) k by blast
qed

lemma floorPow2_bounds:
  assumes "n \<noteq> 0"
  shows "\<exists>y < 64. floorPow2 n = Inr (2 ^ y) \<and> 2 ^ y \<le> unat n \<and> unat n < 2 * 2 ^ y"
proof -
  obtain y where "floorLog2 n = Inr (int y)" "is_log2 y (unat n)"
    using floorLog2_correct [OF assms] by auto
  then show ?thesis using is_log2_word [of y n]
    by (auto simp: floorPow2_def shl1_def is_log2_def push_bit_eq_mult intro!: exI [of _ y])
qed

lemma ceilLog2_bounds:
  assumes "1 < n" shows "\<exists>y \<le> 64. ceilLog2 n = Inr (int y) \<and> 2 ^ y < 2 * unat n \<and> unat n \<le> 2 ^ y"
proof -
  have n: "unat (n - 1) = unat n - 1" "1 < unat n"
    using assms by (auto simp: unat_sub word_le_nat_alt word_less_nat_alt)
  then have "n - 1 \<noteq> 0" by (metis less_numeral_extra(3) unsigned_0 zero_less_diff)
  then obtain y where y: "floorLog2 (n - 1) = Inr (int y)" "is_log2 y (unat (n - 1))"
    using floorLog2_correct [of "n - 1"] by auto
  with assms n is_log2_word [of y "n - 1"] show ?thesis
    by (auto simp: ceilLog2_def is_log2_def intro!: exI [of _ "y + 1"])
qed

text \<open>
  C33: \<open>floorPow2\<close> and \<open>ceilPow2\<close> are the nearest powers of two. For \<open>n > 0\<close>, \<open>floorPow2 n\<close> is
  the power of two with \<open>p \<le> n < 2p\<close>; for \<open>1 < n \<le> 2^63\<close>, \<open>ceilPow2 n\<close> is the one with
  \<open>p / 2 < n \<le> p\<close>; for \<open>n > 2^63\<close> the shift of \<open>ceilPow2\<close> is by the width of the type, which is
  undefined.
\<close>

theorem pow2_bounds:
  assumes "1 < n"
  shows "(\<exists>y < 64. floorPow2 n = Inr (2 ^ y) \<and> 2 ^ y \<le> unat n \<and> unat n < 2 * 2 ^ y) \<and>
    (if n \<le> 2 ^ 63
     then \<exists>y < 64. ceilPow2 n = Inr (2 ^ y) \<and> 2 ^ y < 2 * unat n \<and> unat n \<le> 2 ^ y
     else ceilPow2 n = Inl Undefined)"
proof -
  obtain y where y: "y \<le> 64" "ceilLog2 n = Inr (int y)" "2 ^ y < 2 * unat n" "unat n \<le> 2 ^ y"
    using ceilLog2_bounds [OF assms] by auto
  have "(n \<le> 2 ^ 63) = (unat n \<le> 2 ^ 63)" by (simp add: word_le_nat_alt)
  moreover have "(unat n \<le> 2 ^ 63) = (y < 64)"
  proof
    assume "unat n \<le> 2 ^ 63"
    then have "(2 :: nat) ^ y < 2 ^ 64" using y(3) by simp
    then show "y < 64" using power_less_imp_less_exp [of "2 :: nat" y 64] by simp
  next
    assume "y < 64"
    then have "(2 :: nat) ^ y \<le> 2 ^ 63" by (intro power_increasing) auto
    then show "unat n \<le> 2 ^ 63" using y(4) by simp
  qed
  moreover have "n \<noteq> 0" using assms by auto
  ultimately show ?thesis using floorPow2_bounds y
    by (auto simp: ceilPow2_def shl1_def push_bit_eq_mult intro!: exI [of _ y])
qed

theorem pow2_bounds_witness: "(1 :: u64) < 5 \<and>
    (\<exists>y < 64. floorPow2 5 = Inr (2 ^ y) \<and> 2 ^ y \<le> (5 :: nat) \<and> 5 < 2 * (2 ^ y :: nat)) \<and>
    (\<exists>y < 64. ceilPow2 5 = Inr (2 ^ y) \<and> 2 ^ y < 2 * (5 :: nat) \<and> 5 \<le> (2 ^ y :: nat))"
  using pow2_bounds [of 5] by simp

section \<open>Rounding and division\<close>

lemma and_not_mask_eq: "v AND NOT (mask k) = push_bit k (drop_bit k v)" for v :: "'a::len word"
  by (rule bit_word_eqI) (auto simp: bit_simps)

lemma unat_and_not_mask: "unat (v AND NOT (mask k)) = unat v div 2 ^ k * 2 ^ k"
  for v :: "'a::len word"
proof -
  have "unat v div 2 ^ k * 2 ^ k \<le> unat v" by (simp add: div_mult2_eq)
  then have "unat v div 2 ^ k * 2 ^ k < 2 ^ LENGTH('a)" using unsigned_less [of v, where ?'a = nat] by linarith
  moreover have "unat (push_bit k (drop_bit k v)) = take_bit LENGTH('a) (push_bit k (unat v div 2 ^ k))"
    by (simp only: unsigned_push_bit_eq unat_drop_bit_div)
  ultimately show ?thesis
    by (simp only: and_not_mask_eq push_bit_eq_mult take_bit_nat_eq_self)
qed

lemma roundDown_pow2: "unat (roundDown v (2 ^ k)) = unat v div 2 ^ k * 2 ^ k"
  unfolding roundDown_def Let_def mask_eq_exp_minus_1 [symmetric] by (rule unat_and_not_mask)

lemma unat_mask: "k < LENGTH('a) \<Longrightarrow> unat (mask k :: 'a::len word) = mask k"
  by (rule bit_eqI) (auto simp: bit_simps)

lemma roundUp_pow2:
  fixes v :: "'a::len word"
  assumes "k < LENGTH('a)" "unat v + 2 ^ k - 1 < 2 ^ LENGTH('a)"
  shows "unat (roundUp v (2 ^ k)) = (unat v + 2 ^ k - 1) div 2 ^ k * 2 ^ k"
proof -
  have m: "unat (mask k :: 'a word) = 2 ^ k - 1"
    using unat_mask [OF assms(1)] by (simp only: mask_eq_exp_minus_1)
  have "unat (v + mask k) = unat v + (2 ^ k - 1)"
    using assms(2) m by (simp add: unat_word_ariths)
  then have "unat ((v + mask k) AND NOT (mask k)) = (unat v + (2 ^ k - 1)) div 2 ^ k * 2 ^ k"
    by (simp only: unat_and_not_mask)
  then show ?thesis by (simp add: roundUp_def Let_def mask_eq_exp_minus_1)
qed

lemma roundUp_least:
  fixes v :: "'a::len word"
  assumes "k < LENGTH('a)" "unat v + 2 ^ k - 1 < 2 ^ LENGTH('a)"
  shows "2 ^ k dvd unat (roundUp v (2 ^ k)) \<and> unat v \<le> unat (roundUp v (2 ^ k)) \<and>
     unat (roundUp v (2 ^ k)) < unat v + 2 ^ k"
proof -
  let ?n = "unat v + 2 ^ k - 1"
  have "?n = ?n div 2 ^ k * 2 ^ k + ?n mod 2 ^ k" by (rule div_mult_mod_eq [symmetric])
  moreover have "?n mod 2 ^ k < 2 ^ k" by simp
  ultimately have "unat v \<le> ?n div 2 ^ k * 2 ^ k" "?n div 2 ^ k * 2 ^ k < unat v + 2 ^ k"
    by linarith+
  then show ?thesis by (simp add: roundUp_pow2 [OF assms])
qed

lemma divCeil_exact:
  assumes "b \<noteq> 0" "unat a + unat b \<le> 2 ^ 64"
  shows "\<exists>q. divCeil a b = Inr q \<and> unat q = (unat a + unat b - 1) div unat b \<and>
     unat a \<le> unat q * unat b \<and> unat q * unat b < unat a + unat b"
proof -
  have b: "0 < unat b" using assms(1) by (simp add: unat_gt_0)
  have e: "a + b - 1 = a + (b - 1)" by simp
  have "unat (b - 1) = unat b - 1" using assms(1) by (rule unat_minus_one)
  then have n: "unat (a + b - 1) = unat a + unat b - 1"
    using assms(2) b unfolding e by (subst unat_word_ariths) simp
  let ?n = "unat a + unat b - 1"
  have "?n = ?n div unat b * unat b + ?n mod unat b" by (rule div_mult_mod_eq [symmetric])
  moreover have "?n mod unat b < unat b" using b by simp
  ultimately have "unat a \<le> ?n div unat b * unat b \<and> ?n div unat b * unat b < unat a + unat b"
    using b by linarith
  then show ?thesis using assms(1) by (simp add: divCeil_def unat_div n)
qed

section \<open>Bit fields\<close>

lemma bitmask_eq: "n \<le> 64 \<Longrightarrow> bitmask n = mask n"
  by (auto simp: bitmask_def mask_eq_exp_minus_1 push_bit_eq_mult)

lemma bits_eq: "hi < 64 \<Longrightarrow> bits val hi lo = take_bit (hi + 1 - lo) (drop_bit lo val)"
  by (simp add: bits_def bitmask_eq take_bit_eq_mask)

lemma bit_bits: "hi < 64 \<Longrightarrow> bit (bits val hi lo) n \<longleftrightarrow> n + lo \<le> hi \<and> bit val (lo + n)"
  by (auto simp: bits_eq bit_simps)

lemma bit_insertBits:
  assumes "hi < 64" "lo \<le> hi"
  shows "bit (insertBits val hi lo v) n \<longleftrightarrow>
    (if lo \<le> n \<and> n \<le> hi then bit v (n - lo) else bit val n)"
proof (cases "n < 64")
  case True
  then show ?thesis using assms by (auto simp: insertBits_def Let_def bitmask_eq bit_simps)
next
  case False
  then have "\<not> bit (insertBits val hi lo v) n" "\<not> bit val n"
    by (auto dest: bit_imp_le_length)
  then show ?thesis using False assms(1) by auto
qed

text \<open>A field that was inserted is read back, and the other bits keep their value.\<close>

lemma bits_insertBits_same:
  "\<lbrakk> hi < 64; lo \<le> hi \<rbrakk> \<Longrightarrow> bits (insertBits val hi lo v) hi lo = take_bit (hi + 1 - lo) v"
  by (rule bit_word_eqI) (auto simp: bit_bits bit_insertBits bit_simps)

lemma bits_insertBits_other:
  "\<lbrakk> hi < 64; lo \<le> hi; hi' < 64; hi' < lo \<or> hi < lo' \<rbrakk> \<Longrightarrow>
     bits (insertBits val hi lo v) hi' lo' = bits val hi' lo'"
  by (rule bit_word_eqI) (auto simp: bit_bits bit_insertBits)

lemma bit_sext:
  assumes "0 < N" "N \<le> 64" "n < 64" "take_bit N val = val"
  shows "bit (sext N val) n \<longleftrightarrow> bit val (min n (N - 1))"
proof -
  have above: "\<not> bit val m" if "N \<le> m" for m
    using assms(4) that by (metis bit_take_bit_iff linorder_not_less)
  have "bit (bits val (N - 1) (N - 1)) n \<longleftrightarrow> n = 0 \<and> bit val (N - 1)" for n
    using assms(1,2) by (cases n) (auto simp: bit_bits)
  then have "bits val (N - 1) (N - 1) \<noteq> 0 \<longleftrightarrow> bit val (N - 1)"
    by (metis bit_0_eq bit_eqI bot_apply bot_bool_def)
  then show ?thesis using assms above
    by (cases "n < N") (auto simp: sext_def Let_def bitmask_eq bit_simps min_def)
qed

text \<open>The state of \<open>findMsbSet\<close> and of \<open>findLsbSet\<close> once the highest (lowest) set bit is confined to
  \<open>b\<close> bits.\<close>

definition msb_inv :: "u64 \<Rightarrow> nat \<Rightarrow> nat \<times> u64 \<Rightarrow> bool" where
  "msb_inv val b s \<longleftrightarrow> snd s = drop_bit (fst s) val \<and> snd s \<noteq> 0 \<and> drop_bit b (snd s) = 0"

definition lsb_inv :: "u64 \<Rightarrow> nat \<Rightarrow> nat \<times> u64 \<Rightarrow> bool" where
  "lsb_inv val b s \<longleftrightarrow> snd s = drop_bit (fst s) val \<and> take_bit (fst s) val = 0 \<and> take_bit b (snd s) \<noteq> 0"

lemma drop_zero_iff: "drop_bit b x = 0 \<longleftrightarrow> (\<forall>n. bit x n \<longrightarrow> n < b)" for x :: u64
proof
  assume z: "drop_bit b x = 0"
  show "\<forall>n. bit x n \<longrightarrow> n < b"
  proof (intro allI impI, rule ccontr)
    fix n assume "bit x n" "\<not> n < b"
    then have "bit (drop_bit b x) (n - b)" by (simp add: bit_drop_bit_eq)
    with z show False by simp
  qed
qed (auto intro!: bit_word_eqI simp: bit_drop_bit_eq)

lemma take_zero_iff: "take_bit b x = 0 \<longleftrightarrow> (\<forall>n < b. \<not> bit x n)" for x :: u64
proof
  assume z: "\<forall>n < b. \<not> bit x n"
  show "take_bit b x = 0" by (rule bit_word_eqI) (use z in \<open>simp add: bit_take_bit_iff\<close>)
next
  assume "take_bit b x = 0"
  then show "\<forall>n < b. \<not> bit x n" by (metis bit_0_eq bit_take_bit_iff bot_apply bot_bool_def)
qed

lemma msb_step_inv:
  assumes "msb_inv val b s" "b = 2 * k" "hi = 2 * k - 1" "hi < 64" "0 < k"
  shows "msb_inv val k (msb_step hi k k s)"
proof -
  obtain j x where s: "s = (j, x)" by (cases s)
  have "drop_bit (2 * k) x = 0" using assms(1,2) unfolding s msb_inv_def fst_conv snd_conv by blast
  then have "\<forall>n. bit x n \<longrightarrow> n < 2 * k" by (simp only: drop_zero_iff)
  then have "bits x hi k = drop_bit k x"
    using assms(3-5) by (intro bit_word_eqI) (fastforce simp: bit_bits bit_simps)
  moreover have "drop_bit k (drop_bit k x) = 0"
    using \<open>drop_bit (2 * k) x = 0\<close> by (simp add: mult_2 drop_bit_drop_bit)
  ultimately show ?thesis using assms(1) s by (auto simp: msb_step_def msb_inv_def ac_simps)
qed

lemma lsb_step_inv:
  assumes "lsb_inv val b s" "b = 2 * k" "hi = k - 1" "hi < 64" "0 < k"
  shows "lsb_inv val k (lsb_step hi k s)"
proof -
  obtain j x where s: "s = (j, x)" by (cases s)
  have b: "bits x hi 0 = take_bit k x" using assms by (simp add: bits_eq)
  have "take_bit k (drop_bit k x) \<noteq> 0 \<and> take_bit (j + k) val = 0" if "take_bit k x = 0"
  proof -
    obtain n where n: "n < 2 * k" "bit x n" using assms s by (auto simp: lsb_inv_def take_zero_iff)
    then have "k \<le> n" using that by (auto simp: take_zero_iff not_less)
    then have "bit (drop_bit k x) (n - k)" "n - k < k" using n by (auto simp: bit_simps)
    moreover have "\<not> bit val m" if "m < j + k" for m
    proof (cases "m < j")
      case False
      then have "\<not> bit x (m - j)" using \<open>take_bit k x = 0\<close> that by (auto simp: take_zero_iff)
      then show ?thesis using False assms(1) s by (simp add: lsb_inv_def bit_simps)
    qed (use assms(1) s in \<open>simp add: lsb_inv_def take_zero_iff\<close>)
    ultimately show ?thesis unfolding take_zero_iff by blast
  qed
  then show ?thesis using assms(1) s b by (auto simp: lsb_step_def lsb_inv_def add.commute)
qed

lemma findMsbSet_inv:
  assumes "val \<noteq> 0" shows "\<exists>s. msb_inv val 1 s \<and> findMsbSet val = fst s"
proof -
  let ?s = "msb_step 1 1 1 (msb_step 3 2 2 (msb_step 7 4 4 (msb_step 15 8 8 (msb_step 31 16 16
      (msb_step 63 32 32 (0, val))))))"
  have i: "msb_inv val 64 (0, val)"
    using assms by (auto simp: msb_inv_def drop_zero_iff dest: bit_imp_le_length)
  have "msb_inv val 1 ?s" by ((rule msb_step_inv)+, rule i) simp_all
  moreover have "findMsbSet val = fst ?s"
    using assms by (simp add: findMsbSet_def Let_def msb_step_def [of 1 1] msb_step_def [of "Suc 0" "Suc 0"] split_beta)
  ultimately show ?thesis by blast
qed

lemma findLsbSet_inv:
  assumes "val \<noteq> 0" shows "\<exists>s. lsb_inv val 1 s \<and> findLsbSet val = fst s"
proof -
  let ?s = "lsb_step 0 1 (lsb_step 1 2 (lsb_step 3 4 (lsb_step 7 8 (lsb_step 15 16
      (lsb_step 31 32 (0, val))))))"
  have i: "lsb_inv val 64 (0, val)" using assms by (simp add: lsb_inv_def take_bit_word_eq_self)
  have "lsb_inv val 1 ?s" by ((rule lsb_step_inv)+, rule i) simp_all
  moreover have "findLsbSet val = fst ?s"
    using assms by (simp add: findLsbSet_def Let_def lsb_step_def [of 0] split_beta)
  ultimately show ?thesis by blast
qed

text \<open>
  C34: \<open>findMsbSet\<close> and \<open>findLsbSet\<close> find the highest and the lowest set bit of a non-zero value, and
  \<open>findMsbSet\<close> agrees with \<open>floorLog2\<close>.
\<close>

theorem find_set_bits:
  assumes "val \<noteq> 0"
  shows "bit val (findMsbSet val) \<and> (\<forall>n > findMsbSet val. \<not> bit val n) \<and>
    bit val (findLsbSet val) \<and> (\<forall>n < findLsbSet val. \<not> bit val n) \<and>
    floorLog2 val = Inr (int (findMsbSet val))"
proof -
  obtain j x where m: "msb_inv val 1 (j, x)" "findMsbSet val = j"
    using findMsbSet_inv [OF assms] by auto
  then have x: "x = drop_bit j val" "x \<noteq> 0" "\<forall>n. bit x n \<longrightarrow> n < 1"
    by (auto simp: msb_inv_def drop_zero_iff)
  then have b: "bit x 0" by (metis bit_eqI bit_0_eq bot_apply bot_bool_def less_one)
  have "unat x < 2 ^ 1" using x(3) word_ge_exp_iff [of 1 x] drop_zero_iff [of 1 x] not_less by blast
  moreover have "unat x = unat val div 2 ^ j" by (simp only: x(1) unat_drop_bit_div)
  ultimately have "flog_inv (unat val) 1 (int j, x)" using x(2) by (auto simp: flog_inv_def)
  then have "is_log2 j (unat val)" using flog_inv_1 by fastforce
  then have "floorLog2 val = Inr (int j)" by (rule floorLog2_eq)
  moreover have "bit val j" using b x(1) by (simp add: bit_drop_bit_eq)
  moreover have "\<not> bit val n" if "j < n" for n
    using x(3) that unfolding x(1) bit_drop_bit_eq
    by (metis add_diff_inverse_nat comp_apply less_one less_imp_not_less zero_less_diff not_less_zero)
  moreover obtain k where "lsb_inv val 1 (k, drop_bit k val)" "findLsbSet val = k"
    using findLsbSet_inv [OF assms] by (auto simp: lsb_inv_def)
  then have "bit val (findLsbSet val)" "\<forall>n < findLsbSet val. \<not> bit val n"
    unfolding lsb_inv_def fst_conv snd_conv take_zero_iff by (auto simp only: less_one bit_drop_bit_eq comp_apply add_0_right)
  ultimately show ?thesis using m(2) by blast
qed

theorem find_set_bits_witness: "(0x50 :: u64) \<noteq> 0 \<and> findMsbSet 0x50 = 6 \<and> findLsbSet 0x50 = 4 \<and>
    bit (0x50 :: u64) (findMsbSet 0x50) \<and> bit (0x50 :: u64) (findLsbSet 0x50)"
proof -
  have "findMsbSet 0x50 = 6" "findLsbSet 0x50 = 4" by code_simp+
  then show ?thesis using find_set_bits [of "0x50"] by simp
qed

subsection \<open>Powers of two\<close>

lemma and_pred_eq_0: "0 < m \<Longrightarrow> m AND (m - 1) = 0 \<Longrightarrow> \<exists>k. m = 2 ^ k" for m :: nat
proof (induction m rule: less_induct)
  case (less m)
  show ?case
  proof (cases "odd m")
    case True
    then have "m AND (m - 1) = 2 * (m div 2)" by (subst and_nat_rec) (auto elim!: oddE)
    then have "m = 2 ^ 0" using less.prems True by (auto elim!: oddE)
    then show ?thesis by blast
  next
    case False
    then have m: "m = 2 * (m div 2)" "0 < m div 2" "(m - 1) div 2 = m div 2 - 1" using less.prems(1) by auto
    have "m AND (m - 1) = 2 * ((m div 2) AND (m div 2 - 1))" using False m(3) by (subst and_nat_rec) simp
    then obtain k where "m div 2 = 2 ^ k" using less.IH [of "m div 2"] less.prems m by auto
    then have "m = 2 ^ Suc k" using m(1) by simp
    then show ?thesis by blast
  qed
qed

lemma isPowerOf2_unat: "isPowerOf2 n \<Longrightarrow> \<exists>k < LENGTH('a). unat n = 2 ^ k" for n :: "'a::len word"
proof -
  assume "isPowerOf2 n"
  then have n: "n \<noteq> 0" "n AND NOT (n - 1) = n" by (auto simp: isPowerOf2_def leastSigBit_def)
  then have "n AND (n - 1) = (n AND NOT (n - 1)) AND (n - 1)" by simp
  also have "\<dots> = 0" by (simp add: and.assoc)
  finally have "unat (n AND (n - 1)) = 0" by simp
  then have "unat n AND (unat n - 1) = 0" using n(1) by (simp add: unsigned_and_eq unat_minus_one)
  moreover have "0 < unat n" using n(1) by (simp add: unat_gt_0)
  ultimately obtain k where "unat n = 2 ^ k" using and_pred_eq_0 by blast
  moreover from this have "k < LENGTH('a)"
    using unsigned_less [of n, where ?'a = nat] by simp
  ultimately show ?thesis by blast
qed

lemma ceilLog2_power:
  assumes "unat n = 2 ^ k" "k < 32" shows "ceilLog2 (ucast (n :: u32)) = Inr (int k)"
proof -
  have u: "unat (ucast n :: u64) = 2 ^ k"
    using unsigned_less [of n, where ?'a = nat] assms by (simp add: unsigned_ucast_eq take_bit_nat_eq_self)
  show ?thesis
  proof (cases k)
    case 0
    then have "(ucast n :: u64) = 1" using u by (metis power_0 unat_1 unsigned_word_eqI)
    then show ?thesis using 0 by (simp add: ceilLog2_def)
  next
    case (Suc j)
    then have ne: "(ucast n :: u64) \<noteq> 0" "(ucast n :: u64) \<noteq> 1"
      using u by (metis power_not_zero unsigned_0 zero_neq_numeral, metis One_nat_def Suc nat_power_eq_Suc_0_iff nat.distinct(1) numeral_eq_one_iff semiring_norm(85) u unat_1)
    have "unat (ucast n - 1 :: u64) = 2 ^ k - 1" using u ne by (simp add: unat_minus_one)
    then have "is_log2 j (unat (ucast n - 1 :: u64))" using Suc by (simp add: is_log2_def)
    then show ?thesis using ne Suc by (simp add: ceilLog2_def floorLog2_eq)
  qed
qed

lemma bitmask_power:
  assumes "unat n = 2 ^ k" "k < 32" shows "ucast (bitmask k) = (n :: u32) - 1"
proof -
  have "n \<noteq> 0" using assms by auto
  then have "unat (n - 1) = 2 ^ k - 1" using assms by (simp add: unat_minus_one)
  moreover have "unat (ucast (bitmask k) :: u32) = 2 ^ k - 1"
  proof -
    have "unat (bitmask k) = 2 ^ k - 1" using assms(2) by (simp add: bitmask_eq unat_mask mask_nat_def)
    moreover have "(2 :: nat) ^ k - 1 < 2 ^ 32" using assms unsigned_less [of n, where ?'a = nat] by simp
    ultimately show ?thesis by (simp add: unsigned_ucast_eq take_bit_nat_eq_self)
  qed
  ultimately show ?thesis by (metis unsigned_word_eqI)
qed

end
