(* ===== verification/Clocked_Object.thy ===== *)
theory Clocked_Object
  imports Int_Math
begin

text \<open>
  Clocked objects, \<open>sim/clocked_object.hh\<close>: a cached pair of the next clock edge and its cycle
  number, brought up to date on demand. The clock period of the domain is the argument \<open>period\<close>
  and the current tick the argument \<open>now\<close>; the functions that update the cache return the object.
\<close>

record clocked_object =
  co_tick :: tick
  co_cycle :: cycles

definition ClockedObject_new :: clocked_object where
  "ClockedObject_new = \<lparr>co_tick = 0, co_cycle = 0\<rparr>"

definition co_update :: "tick \<Rightarrow> tick \<Rightarrow> clocked_object \<Rightarrow> clocked_object res" where
  "co_update period now c =
     (if co_tick c \<ge> now then Inr c
      else
        let c = c\<lparr>co_tick := co_tick c + period, co_cycle := co_cycle c + 1\<rparr> in
        if co_tick c \<ge> now then Inr c
        else
          bindE (divCeil (now - co_tick c) period) (\<lambda>elapsedCycles.
          Inr (c\<lparr>co_cycle := co_cycle c + elapsedCycles,
                 co_tick := co_tick c + elapsedCycles * period\<rparr>)))"

definition resetClock :: "tick \<Rightarrow> tick \<Rightarrow> clocked_object \<Rightarrow> clocked_object res" where
  "resetClock period now c =
     bindE (divCeil now period) (\<lambda>elapsedCycles.
     Inr (c\<lparr>co_cycle := elapsedCycles, co_tick := elapsedCycles * period\<rparr>))"

definition clockEdge :: "tick \<Rightarrow> tick \<Rightarrow> cycles \<Rightarrow> clocked_object \<Rightarrow> (tick \<times> clocked_object) res" where
  "clockEdge period now cycles c =
     bindE (co_update period now c) (\<lambda>c. Inr (co_tick c + period * cycles, c))"

definition curCycle :: "tick \<Rightarrow> tick \<Rightarrow> clocked_object \<Rightarrow> (cycles \<times> clocked_object) res" where
  "curCycle period now c = bindE (co_update period now c) (\<lambda>c. Inr (co_cycle c, c))"

definition nextCycle :: "tick \<Rightarrow> tick \<Rightarrow> clocked_object \<Rightarrow> (tick \<times> clocked_object) res" where
  "nextCycle period now c = clockEdge period now 1 c"

definition ticksToCycles :: "tick \<Rightarrow> tick \<Rightarrow> cycles res" where
  "ticksToCycles period t = divCeil t period"

section \<open>Clock edges\<close>

text \<open>
  The cached edge is a multiple of the period, its cycle number is the quotient, and it is less
  than a period ahead of the time \<open>t\<close> of the last update.
\<close>

definition clock_ok :: "tick \<Rightarrow> tick \<Rightarrow> clocked_object \<Rightarrow> bool" where
  "clock_ok period t c \<longleftrightarrow> unat (co_tick c) = unat (co_cycle c) * unat period \<and>
     unat (co_tick c) < unat t + unat period"

lemma clock_ok_new: "period \<noteq> 0 \<Longrightarrow> clock_ok period t ClockedObject_new"
  by (simp add: clock_ok_def ClockedObject_new_def unat_gt_0)

lemma unat_add_lt: "unat a + unat b < 2 ^ 64 \<Longrightarrow> unat (a + b) = unat a + unat b" for a b :: u64
  by (simp add: unat_word_ariths)

lemma unat_mult_lt: "unat a * unat b < 2 ^ 64 \<Longrightarrow> unat (a * b) = unat a * unat b" for a b :: u64
  by (simp add: unat_word_ariths)

lemma quotient_unique:
  fixes n p k :: nat
  assumes "n \<le> k * p" "k * p < n + p"
  shows "k = (n + p - 1) div p"
proof -
  have p: "0 < p" using assms by (cases p) auto
  have "n + p - 1 = k * p + (n + p - 1 - k * p)" "n + p - 1 - k * p < p" using assms by linarith+
  then show ?thesis using p by (metis div_mult_self3 div_less add_cancel_right_right less_numeral_extra(3))
qed

lemma co_update_ok:
  assumes p: "period \<noteq> 0" and ok: "clock_ok period t c" and le: "t \<le> now"
    and small: "unat now + unat period < 2 ^ 64"
  obtains c' where "co_update period now c = Inr c'" "clock_ok period now c'"
    "unat now \<le> unat (co_tick c')"
proof (cases "co_tick c \<ge> now")
  case True
  then show ?thesis using that [of c] ok le
    by (auto simp: co_update_def clock_ok_def word_le_nat_alt)
next
  case False
  let ?c = "c\<lparr>co_tick := co_tick c + period, co_cycle := co_cycle c + 1\<rparr>"
  have lt: "unat (co_tick c) < unat now" using False by (simp add: word_le_nat_alt)
  have P: "0 < unat period" using p by (simp add: unat_gt_0)
  have t1: "unat (co_tick ?c) = unat (co_tick c) + unat period"
    using lt small by (simp add: unat_add_lt)
  have "unat (co_cycle c) \<le> unat (co_tick c)" using ok P by (simp add: clock_ok_def)
  then have c1: "unat (co_cycle ?c) = unat (co_cycle c) + 1"
    using lt small unat_add_lt [of "co_cycle c" 1] by simp
  have al: "unat (co_tick ?c) = unat (co_cycle ?c) * unat period"
    using ok t1 c1 by (simp add: clock_ok_def)
  show ?thesis
  proof (cases "co_tick ?c \<ge> now")
    case True
    have "clock_ok period now ?c" using al t1 lt by (simp add: clock_ok_def)
    then show ?thesis using that [of ?c] False True by (simp add: co_update_def word_le_nat_alt)
  next
    case F2: False
    then have d: "unat (now - co_tick ?c) = unat now - unat (co_tick ?c)" "unat (co_tick ?c) < unat now"
      by (simp_all add: unat_sub word_le_nat_alt word_less_nat_alt not_le)
    then have "unat (now - co_tick ?c) + unat period \<le> 2 ^ 64" using small by linarith
    then obtain q where q: "divCeil (now - co_tick ?c) period = Inr q"
        "unat (now - co_tick ?c) \<le> unat q * unat period"
        "unat q * unat period < unat (now - co_tick ?c) + unat period"
      using divCeil_exact [OF p] by blast
    let ?d = "?c\<lparr>co_cycle := co_cycle ?c + q, co_tick := co_tick ?c + q * period\<rparr>"
    have qp: "unat (q * period) = unat q * unat period"
      using q(3) d small by (intro unat_mult_lt) linarith
    have td: "unat (co_tick ?d) = unat (co_tick ?c) + unat q * unat period"
      using q(3) d small qp unat_add_lt [of "co_tick ?c" "q * period"] by simp
    have "unat (co_cycle ?c) + unat q \<le> unat (co_tick ?c) + unat q * unat period"
      using P al by (intro add_mono) simp_all
    then have cd: "unat (co_cycle ?d) = unat (co_cycle ?c) + unat q"
      using q(3) d small unat_add_lt [of "co_cycle ?c" q] by simp
    have "clock_ok period now ?d" "unat now \<le> unat (co_tick ?d)"
      using q d al td cd by (simp_all add: clock_ok_def distrib_right del: select_convs)
    moreover have "co_update period now c = Inr ?d"
      using False F2 q(1) by (simp add: co_update_def Let_def)
    ultimately show ?thesis using that by blast
  qed
qed

text \<open>
  C35: \<open>clockEdge\<close> is the first clock edge at or after the current tick, shifted by whole cycles.
  With a constant period the cached computation of \<open>update\<close>, whichever of its three paths it takes,
  yields cycle number \<open>ceil(now / period)\<close> and the edge at that multiple of the period, so the
  result lies in \<open>now + [0, period) + period * cycles\<close> as documented; and the cache is again
  consistent.
\<close>

theorem clockEdge_correct:
  assumes "period \<noteq> 0" "clock_ok period t c" "t \<le> now"
    and "unat now + unat period * (unat cycles + 1) < 2 ^ 64"
  shows "\<exists>e c'. clockEdge period now cycles c = Inr (e, c') \<and> clock_ok period now c' \<and>
     unat (co_cycle c') = (unat now + unat period - 1) div unat period \<and>
     unat e = (unat (co_cycle c') + unat cycles) * unat period \<and>
     unat now + unat period * unat cycles \<le> unat e \<and>
     unat e < unat now + unat period + unat period * unat cycles"
proof -
  have small: "unat now + unat period < 2 ^ 64" using assms(4) by simp
  obtain c' where c': "co_update period now c = Inr c'" "clock_ok period now c'"
      "unat now \<le> unat (co_tick c')"
    by (rule co_update_ok [OF assms(1-3) small])
  then have t: "unat (co_tick c') = unat (co_cycle c') * unat period"
      "unat (co_tick c') < unat now + unat period"
    by (simp_all add: clock_ok_def)
  have q: "unat (co_cycle c') = (unat now + unat period - 1) div unat period"
    using quotient_unique [of "unat now" "unat (co_cycle c')" "unat period"] c'(3) t by simp
  have m: "unat (period * cycles) = unat period * unat cycles"
    using assms(4) by (intro unat_mult_lt) simp
  have "unat (co_tick c' + period * cycles) = unat (co_tick c') + unat period * unat cycles"
    using assms(4) t(2) m unat_add_lt [of "co_tick c'" "period * cycles"] by simp
  then show ?thesis using c' t q by (auto simp: clockEdge_def algebra_simps)
qed

theorem clockEdge_correct_witness:
  "(500 :: u64) \<noteq> 0 \<and> clock_ok 500 0 ClockedObject_new \<and>
   (\<exists>e c'. clockEdge 500 1200 2 ClockedObject_new = Inr (e, c') \<and> unat (co_cycle c') = 3 \<and>
     unat e = 2500)"
proof -
  have "clock_ok 500 0 ClockedObject_new" by (rule clock_ok_new) simp
  then show ?thesis using clockEdge_correct [of 500 0 ClockedObject_new 1200 2] by auto
qed

end
