(* ===== verification/Virtual_Device.thy ===== *)
theory Virtual_Device
  imports Energy_Mgmt Clocked_Object
begin

text \<open>
  The virtual peripheral \<open>vdev/vdev.{hh,cc}\<close>. Its registers and memory \<open>pmem\<close> are the command byte
  \<open>reg\<close> (\<open>pmem[0]\<close>; a device has at least this byte) and the bytes behind it. The handlers return
  the calls they make on the CPU and on the energy port, in order; none of these calls comes back
  to the device. The variant \<open>vdev_br.cc\<close> is textually the same.
\<close>

unbundle bit_operations_syntax

section \<open>State\<close>

datatype vdev_engy_state = STATE_POWER_OFF | STATE_SLEEP | STATE_NORMAL | STATE_ACTIVE

record vdev =
  vid :: u32
  dev_name :: string
  need_recover :: bool
  tickEvent :: ev
  need_log :: bool
  access_time :: int
  range_start :: addr
  delay_set :: tick
  delay_self :: tick
  delay_recover :: tick
  delay_cpu_interrupt :: tick
  is_interruptable :: bool
  delay_remained :: tick
  energy_consumed_per_cycle_vdev :: "vdev_engy_state \<Rightarrow> double"
  vdev_energy_state :: vdev_engy_state
  event_interrupt :: ev
  event_init :: ev
  reg :: u8
  pmem_tail :: "u8 list"
  vclock :: clocked_object
  vperiod :: tick

definition VDEV_INIT :: u8 where "VDEV_INIT = 0x80"
definition VDEV_ACTIVATE :: u8 where "VDEV_ACTIVATE = 0x40"
definition VDEV_CHAOS :: u8 where "VDEV_CHAOS = 0x08"
definition VDEV_READY :: u8 where "VDEV_READY = 0x04"
definition VDEV_BUSY :: u8 where "VDEV_BUSY = 0x02"
definition VDEV_IDLE :: u8 where "VDEV_IDLE = 0x01"

text \<open>\<open>*pmem & f\<close>, \<open>*pmem |= f\<close> and \<open>*pmem &= ~f\<close>.\<close>

definition pmem_has :: "vdev \<Rightarrow> u8 \<Rightarrow> bool" where
  "pmem_has d f \<longleftrightarrow> reg d AND f \<noteq> 0"

definition pmem_set :: "u8 \<Rightarrow> vdev \<Rightarrow> vdev" where
  "pmem_set f d = d\<lparr>reg := reg d OR f\<rparr>"

definition pmem_clr :: "u8 \<Rightarrow> vdev \<Rightarrow> vdev" where
  "pmem_clr f d = d\<lparr>reg := reg d AND NOT f\<rparr>"

definition pmem :: "vdev \<Rightarrow> u8 list" where
  "pmem d = reg d # pmem_tail d"

text \<open>The calls on the CPU and on the energy port.\<close>

datatype vdev_call =
    Call_Interrupt tick
  | Call_Recover tick
  | Call_Start u32
  | Call_End u32
  | Call_Consume string double

datatype mem_cmd = ReadReq | WriteReq | OtherCmd

record packet =
  pkt_addr :: addr
  pkt_cmd :: mem_cmd
  pkt_data :: "u8 list"

section \<open>Operations\<close>

text \<open>
  The constructor: the memory cleared, \<open>delay_remained\<close> forced to 0 whatever the parameter. The
  first argument carries the parameters.
\<close>

definition VirtualDevice_new :: "vdev \<Rightarrow> nat \<Rightarrow> vdev" where
  "VirtualDevice_new p sz = p\<lparr>need_recover := False, tickEvent := ev_idle, access_time := 0,
     delay_remained := 0, vdev_energy_state := STATE_POWER_OFF, event_interrupt := ev_idle,
     event_init := ev_idle, reg := 0, pmem_tail := replicate (sz - 1) 0,
     vclock := ClockedObject_new\<rparr>"

text \<open>\<open>init\<close>; \<open>id'\<close> is what \<open>cpu->registerVDev\<close> stored in \<open>id\<close>.\<close>

definition VirtualDevice_init :: "tick \<Rightarrow> u32 \<Rightarrow> vdev \<Rightarrow> vdev res" where
  "VirtualDevice_init now id' d =
     (let d = d\<lparr>vid := id', vdev_energy_state := STATE_POWER_OFF\<rparr> in
      if scheduled (tickEvent d) then Inr d
      else
        bindE (clockEdge (vperiod d) now 0 (vclock d)) (\<lambda>(t, c).
        bindE (ev_schedule now t (tickEvent d)) (\<lambda>e.
        Inr (d\<lparr>vclock := c, tickEvent := e\<rparr>))))"

definition triggerInterrupt :: "tick \<Rightarrow> vdev \<Rightarrow> (vdev \<times> vdev_call list) res" where
  "triggerInterrupt now d =
     bindE (assertE (pmem_has d VDEV_BUSY)) (\<lambda>_.
     (let d = pmem_set VDEV_IDLE d;
          d = pmem_clr VDEV_BUSY d;
          d = d\<lparr>vdev_energy_state := STATE_NORMAL\<rparr>
      in
      if pmem_has d VDEV_CHAOS then
        (let d = pmem_set VDEV_READY d;
             d = pmem_clr VDEV_CHAOS d;
             calls = [Call_Interrupt 0, Call_End (vid d)]
         in
         if delay_remained d > 0 then
           bindE (ev_schedule now (now + delay_remained d) (event_interrupt d)) (\<lambda>e.
           (let d = d\<lparr>event_interrupt := e\<rparr>;
                calls = calls @ [Call_Recover (delay_remained d)];
                d = pmem_set VDEV_BUSY d;
                d = d\<lparr>vdev_energy_state := STATE_ACTIVE\<rparr>
            in Inr (d, calls @ [Call_Start (vid d)])))
         else Inr (d, calls))
      else
        (let d = d\<lparr>delay_remained := 0\<rparr> in
         Inr (d, [Call_Interrupt (delay_cpu_interrupt d), Call_End (vid d)]))))"

text \<open>
  The copies of \<open>access\<close>; a copy outside the memory is undefined.
\<close>

definition pmem_read :: "vdev \<Rightarrow> addr \<Rightarrow> nat \<Rightarrow> u8 list res" where
  "pmem_read d offset sz =
     (if unat offset + sz \<le> length (pmem d)
      then Inr (take sz (drop (unat offset) (pmem d))) else Inl Undefined)"

definition pmem_write :: "vdev \<Rightarrow> addr \<Rightarrow> u8 list \<Rightarrow> vdev res" where
  "pmem_write d offset data =
     (if unat offset + length data \<le> length (pmem d)
      then Inr (let m = take (unat offset) (pmem d) @ data @
                  drop (unat offset + length data) (pmem d)
                in d\<lparr>reg := hd m, pmem_tail := tl m\<rparr>)
      else Inl Undefined)"

text \<open>The two commands, written to the first byte.\<close>

definition access_init :: "tick \<Rightarrow> vdev \<Rightarrow> (vdev \<times> vdev_call list) res" where
  "access_init now d =
     (if pmem_has d VDEV_BUSY then Inr (d, [])
      else
        (let d = d\<lparr>vdev_energy_state := STATE_NORMAL\<rparr>;
             d = pmem_set VDEV_BUSY d;
             d = pmem_clr VDEV_IDLE d
         in
         bindE (ev_schedule now (now + delay_set d) (event_init d)) (\<lambda>e.
         Inr (d\<lparr>event_init := e\<rparr>, []))))"

definition access_activate :: "bool \<Rightarrow> tick \<Rightarrow> vdev \<Rightarrow> (vdev \<times> vdev_call list) res" where
  "access_activate log_ok now d =
     (if pmem_has d VDEV_CHAOS then Inr (d, [])
      else if pmem_has d VDEV_BUSY then Inr (d, [])
      else
        (let d = d\<lparr>vdev_energy_state := STATE_ACTIVE\<rparr> in
         bindE (if need_log d
                then if access_time d = 2 ^ 31 - 1 then Inl Undefined
                     else bindE (assertE log_ok) (\<lambda>_. Inr (d\<lparr>access_time := access_time d + 1\<rparr>))
                else Inr d) (\<lambda>d.
         (let d = pmem_set VDEV_BUSY d;
              d = pmem_clr VDEV_IDLE d
          in
          bindE (ev_schedule now (now + delay_self d) (event_interrupt d)) (\<lambda>e.
          Inr (d\<lparr>event_interrupt := e\<rparr>, [Call_Start (vid d)]))))))"

definition VirtualDevice_access ::
  "bool \<Rightarrow> tick \<Rightarrow> packet \<Rightarrow> vdev \<Rightarrow> (packet \<times> vdev \<times> vdev_call list) res" where
  "VirtualDevice_access log_ok now pkt d =
     (let offset = pkt_addr pkt - range_start d in
      case pkt_cmd pkt of
        ReadReq \<Rightarrow>
          bindE (pmem_read d offset (length (pkt_data pkt))) (\<lambda>bytes.
          Inr (pkt\<lparr>pkt_data := bytes\<rparr>, d, []))
      | WriteReq \<Rightarrow>
          (if offset = 0 then
             (case pkt_data pkt of
                [] \<Rightarrow> Inl Undefined
              | cmd # _ \<Rightarrow>
                  bindE (if cmd AND VDEV_INIT \<noteq> 0 then access_init now d
                         else if cmd AND VDEV_ACTIVATE \<noteq> 0 then access_activate log_ok now d
                         else Inr (d, [])) (\<lambda>(d, calls).
                  Inr (pkt, d, calls)))
           else bindE (pmem_write d offset (pkt_data pkt)) (\<lambda>d. Inr (pkt, d, [])))
      | OtherCmd \<Rightarrow> Inr (pkt, d, []))"

definition VirtualDevice_tick :: "tick \<Rightarrow> vdev \<Rightarrow> (vdev \<times> vdev_call list) res" where
  "VirtualDevice_tick now d =
     (let latency = vperiod d in
      bindE (ticksToCycles (vperiod d) latency) (\<lambda>c.
      (let EngyConsume = d_mul (energy_consumed_per_cycle_vdev d (vdev_energy_state d)) (d_of_u64 c) in
       bindE (ev_schedule now (now + latency) (tickEvent d)) (\<lambda>e.
       Inr (d\<lparr>tickEvent := e\<rparr>, [Call_Consume (dev_name d) EngyConsume])))))"

subsection \<open>Energy messages\<close>

definition vdev_power_off :: "tick \<Rightarrow> vdev \<Rightarrow> (vdev \<times> vdev_call list) res" where
  "vdev_power_off now d =
     (let d = d\<lparr>vdev_energy_state := STATE_POWER_OFF\<rparr> in
      bindE
        (if pmem_has d VDEV_READY \<and> \<not> pmem_has d VDEV_BUSY
         then Inr (d\<lparr>need_recover := True, delay_remained := 0\<rparr>)
         else if \<not> pmem_has d VDEV_READY \<and> pmem_has d VDEV_BUSY
         then bindE (assertE (scheduled (event_init d))) (\<lambda>_.
              bindE (ev_deschedule (event_init d)) (\<lambda>e.
              Inr (d\<lparr>event_init := e, need_recover := True, delay_remained := 0\<rparr>)))
         else if pmem_has d VDEV_READY \<and> pmem_has d VDEV_BUSY
         then bindE (assertE (scheduled (event_interrupt d))) (\<lambda>_.
              bindE (ev_deschedule (event_interrupt d)) (\<lambda>e.
              (let d = d\<lparr>event_interrupt := e, need_recover := True\<rparr> in
               if \<not> is_interruptable d
               then Inr (d\<lparr>delay_remained := delay_self d\<rparr>)
               else Inr (d\<lparr>delay_remained := ev_when (event_interrupt d) - now\<rparr>))))
         else Inr d) (\<lambda>d.
      Inr (pmem_clr VDEV_IDLE (pmem_clr VDEV_BUSY (pmem_clr VDEV_READY (pmem_set VDEV_CHAOS d))), [])))"

definition vdev_power_on :: "tick \<Rightarrow> vdev \<Rightarrow> (vdev \<times> vdev_call list) res" where
  "vdev_power_on now d =
     (if need_recover d then
        bindE (ev_schedule now (now + delay_set d) (event_init d)) (\<lambda>e.
        (let d = d\<lparr>event_init := e, vdev_energy_state := STATE_NORMAL\<rparr>;
             d = pmem_set VDEV_BUSY d
         in Inr (d, [Call_Recover (delay_set d), Call_Start (vid d)])))
      else Inr (pmem_clr VDEV_BUSY d, []))"

text \<open>\<open>SimpleEnergySM::MsgType\<close>: POWER\_OFF is 1 and POWER\_ON is 2.\<close>

definition VirtualDevice_handleMsg ::
  "tick \<Rightarrow> energy_msg \<Rightarrow> vdev \<Rightarrow> (int \<times> vdev \<times> vdev_call list) res" where
  "VirtualDevice_handleMsg now msg d =
     (if msg_type msg = 1 then bindE (vdev_power_off now d) (\<lambda>(d, calls). Inr (1, d, calls))
      else if msg_type msg = 2 then bindE (vdev_power_on now d) (\<lambda>(d, calls). Inr (1, d, calls))
      else Inr (0, d, []))"

end
