(* ===== verification/Virtual_Device_Props.thy ===== *)
theory Virtual_Device_Props
  imports Virtual_Device
begin

text \<open>
  The life cycle of a virtual device. The flags of the command byte and the pending events always
  describe one of five modes (\<open>vmode\<close>); every handler is shown to follow the abstract machine
  \<open>vmode_next\<close> on them. From this follow the absence of assertion failures under a stated use of
  the device, the recovery of interrupted tasks, and the places where that use is needed.
\<close>

unbundle bit_operations_syntax

section \<open>Flags\<close>

lemma pmem_has_bit [vdev_defs]:
  "pmem_has d VDEV_CHAOS \<longleftrightarrow> bit (reg d) 3" "pmem_has d VDEV_READY \<longleftrightarrow> bit (reg d) 2"
  "pmem_has d VDEV_BUSY \<longleftrightarrow> bit (reg d) 1" "pmem_has d VDEV_IDLE \<longleftrightarrow> bit (reg d) 0"
  using and_exp_eq_0_iff_not_bit [of "reg d" 3] and_exp_eq_0_iff_not_bit [of "reg d" 2]
    and_exp_eq_0_iff_not_bit [of "reg d" 1] and_exp_eq_0_iff_not_bit [of "reg d" 0]
  by (simp_all add: pmem_has_def VDEV_CHAOS_def VDEV_READY_def VDEV_BUSY_def VDEV_IDLE_def)

lemma bit_flag [vdev_defs]:
  "bit VDEV_CHAOS n \<longleftrightarrow> n = 3" "bit VDEV_READY n \<longleftrightarrow> n = 2" "bit VDEV_BUSY n \<longleftrightarrow> n = 1" "bit VDEV_IDLE n \<longleftrightarrow> n = 0"
  using bit_exp_iff [of 3 n, where ?'a = u8] bit_exp_iff [of 2 n, where ?'a = u8]
    bit_exp_iff [of 1 n, where ?'a = u8] bit_exp_iff [of 0 n, where ?'a = u8]
  by (auto simp: VDEV_CHAOS_def VDEV_READY_def VDEV_BUSY_def VDEV_IDLE_def)

lemma bit_pmem_set [vdev_defs]: "bit (reg (pmem_set f d)) n \<longleftrightarrow> bit (reg d) n \<or> bit f n"
  by (simp add: pmem_set_def bit_or_iff)

lemma bit_pmem_clr [vdev_defs]: "bit (reg (pmem_clr f d)) n \<longleftrightarrow> bit (reg d) n \<and> \<not> bit f n"
  by (auto simp: pmem_clr_def bit_simps dest: bit_imp_le_length)

text \<open>The rest of the device does not change with the flags.\<close>

lemma pmem_set_frame [simp]:
  "vid (pmem_set f d) = vid d" "need_recover (pmem_set f d) = need_recover d"
  "event_init (pmem_set f d) = event_init d" "event_interrupt (pmem_set f d) = event_interrupt d"
  "delay_remained (pmem_set f d) = delay_remained d" "delay_self (pmem_set f d) = delay_self d"
  "delay_set (pmem_set f d) = delay_set d" "tickEvent (pmem_set f d) = tickEvent d"
  "delay_cpu_interrupt (pmem_set f d) = delay_cpu_interrupt d" "pmem_tail (pmem_set f d) = pmem_tail d"
  "vdev_energy_state (pmem_set f d) = vdev_energy_state d" "is_interruptable (pmem_set f d) = is_interruptable d"
  "need_log (pmem_set f d) = need_log d" "access_time (pmem_set f d) = access_time d"
  "range_start (pmem_set f d) = range_start d" "vperiod (pmem_set f d) = vperiod d" "dev_name (pmem_set f d) = dev_name d"
  by (simp_all add: pmem_set_def)

lemma pmem_clr_frame [simp]:
  "vid (pmem_clr f d) = vid d" "need_recover (pmem_clr f d) = need_recover d"
  "event_init (pmem_clr f d) = event_init d" "event_interrupt (pmem_clr f d) = event_interrupt d"
  "delay_remained (pmem_clr f d) = delay_remained d" "delay_self (pmem_clr f d) = delay_self d"
  "delay_set (pmem_clr f d) = delay_set d" "tickEvent (pmem_clr f d) = tickEvent d"
  "delay_cpu_interrupt (pmem_clr f d) = delay_cpu_interrupt d" "pmem_tail (pmem_clr f d) = pmem_tail d"
  "vdev_energy_state (pmem_clr f d) = vdev_energy_state d" "is_interruptable (pmem_clr f d) = is_interruptable d"
  "need_log (pmem_clr f d) = need_log d" "access_time (pmem_clr f d) = access_time d"
  "range_start (pmem_clr f d) = range_start d" "vperiod (pmem_clr f d) = vperiod d" "dev_name (pmem_clr f d) = dev_name d"
  by (simp_all add: pmem_clr_def)

section \<open>Modes\<close>

datatype vmode = Fresh | Down | Initing | Ready | Working

text \<open>
  \<open>Fresh\<close> is the state of a new device, with all flags clear; \<open>Down\<close> the state after a power
  failure. In \<open>Initing\<close> and \<open>Working\<close> exactly the event of the running operation is scheduled.
\<close>

fun in_mode :: "vmode \<Rightarrow> vdev \<Rightarrow> bool" where
  "in_mode Fresh d \<longleftrightarrow> \<not> bit (reg d) 3 \<and> \<not> bit (reg d) 2 \<and> \<not> bit (reg d) 1 \<and>
     \<not> scheduled (event_init d) \<and> \<not> scheduled (event_interrupt d) \<and> \<not> need_recover d \<and> delay_remained d = 0"
| "in_mode Down d \<longleftrightarrow> bit (reg d) 3 \<and> \<not> bit (reg d) 2 \<and> \<not> bit (reg d) 1 \<and>
     \<not> scheduled (event_init d) \<and> \<not> scheduled (event_interrupt d)"
| "in_mode Initing d \<longleftrightarrow> bit (reg d) 3 \<and> \<not> bit (reg d) 2 \<and> bit (reg d) 1 \<and>
     scheduled (event_init d) \<and> \<not> scheduled (event_interrupt d)"
| "in_mode Ready d \<longleftrightarrow> \<not> bit (reg d) 3 \<and> bit (reg d) 2 \<and> \<not> bit (reg d) 1 \<and>
     \<not> scheduled (event_init d) \<and> \<not> scheduled (event_interrupt d)"
| "in_mode Working d \<longleftrightarrow> \<not> bit (reg d) 3 \<and> bit (reg d) 2 \<and> bit (reg d) 1 \<and>
     \<not> scheduled (event_init d) \<and> scheduled (event_interrupt d)"

lemma in_mode_unique: "\<lbrakk> in_mode m d; in_mode m' d \<rbrakk> \<Longrightarrow> m = m'"
  by (cases m; cases m') auto

lemma in_mode_new: "in_mode Fresh (VirtualDevice_new p sz)"
  by (simp add: VirtualDevice_new_def)

subsection \<open>The handlers on modes\<close>

definition vdev_params :: "vdev \<Rightarrow> vdev \<Rightarrow> bool" where
  "vdev_params d d' \<longleftrightarrow> vid d' = vid d \<and> delay_set d' = delay_set d \<and> delay_self d' = delay_self d \<and>
     delay_cpu_interrupt d' = delay_cpu_interrupt d \<and> is_interruptable d' = is_interruptable d \<and>
     range_start d' = range_start d \<and> need_log d' = need_log d \<and> vperiod d' = vperiod d \<and>
     length (pmem_tail d') = length (pmem_tail d) \<and> dev_name d' = dev_name d"

definition remaining :: "tick \<Rightarrow> vdev \<Rightarrow> tick" where
  "remaining now d = (if is_interruptable d then ev_when (event_interrupt d) - now else delay_self d)"

lemma power_off_mode:
  assumes "in_mode m d"
  shows "\<exists>d'. vdev_power_off now d = Inr (d', []) \<and> in_mode Down d' \<and>
     vdev_params d d' \<and> need_recover d' = (need_recover d \<or> m \<in> {Initing, Ready, Working}) \<and>
     delay_remained d' = (if m = Working then remaining now d
        else if m \<in> {Initing, Ready} then 0 else delay_remained d) \<and>
     vdev_energy_state d' = STATE_POWER_OFF"
  using assms
  by (cases m) (auto simp: vdev_power_off_def Let_def vdev_defs ev_deschedule_def remaining_def vdev_params_def)

lemma power_on_mode:
  assumes "in_mode m d" "m \<in> {Fresh, Down}" "now \<le> now + delay_set d"
  shows "\<exists>d' cs. vdev_power_on now d = Inr (d', cs) \<and> vdev_params d d' \<and>
     in_mode (if m = Down \<and> need_recover d then Initing else m) d' \<and>
     need_recover d' = need_recover d \<and> delay_remained d' = delay_remained d \<and>
     (need_recover d \<longrightarrow> ev_when (event_init d') = now + delay_set d \<and>
        vdev_energy_state d' = STATE_NORMAL \<and> cs = [Call_Recover (delay_set d), Call_Start (vid d)]) \<and>
     (\<not> need_recover d \<longrightarrow> cs = [])"
  using assms
  by (cases m) (auto simp: vdev_power_on_def Let_def vdev_defs ev_schedule_def vdev_params_def)

lemma init_done_mode:
  assumes "in_mode Initing d" "now \<le> now + delay_remained d"
  shows "\<exists>d' cs. triggerInterrupt now (d\<lparr>event_init := ev_fire (event_init d)\<rparr>) = Inr (d', cs) \<and>
     vdev_params d d' \<and> need_recover d' = need_recover d \<and> delay_remained d' = delay_remained d \<and>
     in_mode (if delay_remained d > 0 then Working else Ready) d' \<and> bit (reg d') 0 \<and>
     cs = [Call_Interrupt 0, Call_End (vid d)] @
       (if delay_remained d > 0 then [Call_Recover (delay_remained d), Call_Start (vid d)] else []) \<and>
     vdev_energy_state d' = (if delay_remained d > 0 then STATE_ACTIVE else STATE_NORMAL) \<and>
     (delay_remained d > 0 \<longrightarrow> ev_when (event_interrupt d') = now + delay_remained d)"
  using assms
  by (auto simp: triggerInterrupt_def Let_def vdev_defs ev_schedule_def vdev_params_def)

lemma task_done_mode:
  assumes "in_mode Working d"
  shows "\<exists>d'. triggerInterrupt now (d\<lparr>event_interrupt := ev_fire (event_interrupt d)\<rparr>) =
       Inr (d', [Call_Interrupt (delay_cpu_interrupt d), Call_End (vid d)]) \<and>
     vdev_params d d' \<and> need_recover d' = need_recover d \<and> delay_remained d' = 0 \<and>
     in_mode Ready d' \<and> bit (reg d') 0 \<and> vdev_energy_state d' = STATE_NORMAL"
  using assms
  by (auto simp: triggerInterrupt_def Let_def vdev_defs vdev_params_def)

lemma access_init_mode:
  assumes "in_mode m d" "m \<in> {Down, Initing, Working}" "now \<le> now + delay_set d"
  shows "\<exists>d'. access_init now d = Inr (d', []) \<and> vdev_params d d' \<and>
     in_mode (if m = Down then Initing else m) d' \<and> need_recover d' = need_recover d \<and>
     delay_remained d' = delay_remained d \<and> (m \<noteq> Down \<longrightarrow> d' = d) \<and>
     (m = Down \<longrightarrow> ev_when (event_init d') = now + delay_set d)"
  using assms
  by (cases m) (auto simp: access_init_def Let_def vdev_defs ev_schedule_def vdev_params_def)

lemma access_activate_mode:
  assumes "in_mode m d" "m \<noteq> Fresh" "now \<le> now + delay_self d"
    and "need_log d \<longrightarrow> log_ok \<and> access_time d < 2 ^ 31 - 1"
  shows "\<exists>d' cs. access_activate log_ok now d = Inr (d', cs) \<and> vdev_params d d' \<and>
     in_mode (if m = Ready then Working else m) d' \<and> need_recover d' = need_recover d \<and>
     delay_remained d' = delay_remained d \<and> (m \<noteq> Ready \<longrightarrow> d' = d \<and> cs = []) \<and>
     (m = Ready \<longrightarrow> ev_when (event_interrupt d') = now + delay_self d \<and> cs = [Call_Start (vid d)])"
  using assms
  by (cases m) (auto simp: access_activate_def Let_def vdev_defs ev_schedule_def vdev_params_def)

section \<open>Runs of a device\<close>

datatype vdev_event = Ev_Access packet | Ev_Init | Ev_Interrupt | Ev_Tick | Ev_Msg energy_msg

text \<open>What happens to a device: an access, one of its events being serviced, or a message.\<close>

fun vdev_exec :: "bool \<Rightarrow> tick \<Rightarrow> vdev_event \<Rightarrow> vdev \<Rightarrow> (vdev \<times> vdev_call list) res" where
  "vdev_exec lo now (Ev_Access pkt) d =
     bindE (VirtualDevice_access lo now pkt d) (\<lambda>(_, d, cs). Inr (d, cs))"
| "vdev_exec lo now Ev_Init d = triggerInterrupt now (d\<lparr>event_init := ev_fire (event_init d)\<rparr>)"
| "vdev_exec lo now Ev_Interrupt d =
     triggerInterrupt now (d\<lparr>event_interrupt := ev_fire (event_interrupt d)\<rparr>)"
| "vdev_exec lo now Ev_Tick d = VirtualDevice_tick now (d\<lparr>tickEvent := ev_fire (tickEvent d)\<rparr>)"
| "vdev_exec lo now (Ev_Msg msg) d =
     bindE (VirtualDevice_handleMsg now msg d) (\<lambda>(_, d, cs). Inr (d, cs))"

text \<open>
  The use of a device. Events are serviced at their tick. Packets stay inside the device's range. No
  command is given to a fresh device, and no \<open>INIT\<close> to one that is ready. A power-on message
  comes after a power-off.
\<close>

definition in_range :: "packet \<Rightarrow> vdev \<Rightarrow> bool" where
  "in_range pkt d \<longleftrightarrow> unat (pkt_addr pkt - range_start d) + length (pkt_data pkt) \<le> length (pmem d) \<and>
     pkt_data pkt \<noteq> []"

definition is_command :: "packet \<Rightarrow> vdev \<Rightarrow> bool" where
  "is_command pkt d \<longleftrightarrow> pkt_cmd pkt = WriteReq \<and> pkt_addr pkt = range_start d"

fun vdev_legal :: "bool \<Rightarrow> tick \<Rightarrow> vdev_event \<Rightarrow> vdev \<Rightarrow> bool" where
  "vdev_legal lo now (Ev_Access pkt) d \<longleftrightarrow> in_range pkt d \<and>
     (is_command pkt d \<longrightarrow> \<not> in_mode Fresh d \<and>
        (in_mode Ready d \<longrightarrow> hd (pkt_data pkt) AND VDEV_INIT = 0) \<and>
        (need_log d \<longrightarrow> lo \<and> access_time d < 2 ^ 31 - 1))"
| "vdev_legal lo now Ev_Init d \<longleftrightarrow> scheduled (event_init d) \<and> ev_when (event_init d) = now"
| "vdev_legal lo now Ev_Interrupt d \<longleftrightarrow> scheduled (event_interrupt d) \<and> ev_when (event_interrupt d) = now"
| "vdev_legal lo now Ev_Tick d \<longleftrightarrow> scheduled (tickEvent d) \<and> ev_when (tickEvent d) = now"
| "vdev_legal lo now (Ev_Msg msg) d \<longleftrightarrow> (msg_type msg = 2 \<longrightarrow> in_mode Down d \<or> in_mode Fresh d)"

text \<open>
  Time: it does not pass a scheduled task, and the ticks the device computes do not overflow.
\<close>

definition vdev_timely :: "tick \<Rightarrow> vdev \<Rightarrow> bool" where
  "vdev_timely now d \<longleftrightarrow> (scheduled (event_interrupt d) \<longrightarrow> now \<le> ev_when (event_interrupt d)) \<and>
     now \<le> now + delay_set d \<and> unat now + unat (delay_self d) < 2 ^ 64 \<and> now \<le> now + vperiod d \<and>
     vperiod d \<noteq> 0"

fun vdev_exec_all :: "bool \<Rightarrow> (tick \<times> vdev_event) list \<Rightarrow> vdev \<Rightarrow> (vdev \<times> vdev_call list) res" where
  "vdev_exec_all lo [] d = Inr (d, [])"
| "vdev_exec_all lo ((now, e) # tr) d =
     bindE (vdev_exec lo now e d) (\<lambda>(d, cs).
     bindE (vdev_exec_all lo tr d) (\<lambda>(d, cs'). Inr (d, cs @ cs')))"

fun vdev_use :: "bool \<Rightarrow> tick \<Rightarrow> (tick \<times> vdev_event) list \<Rightarrow> vdev \<Rightarrow> bool" where
  "vdev_use lo t [] d \<longleftrightarrow> True"
| "vdev_use lo t ((now, e) # tr) d \<longleftrightarrow> t \<le> now \<and> vdev_timely now d \<and> vdev_legal lo now e d \<and>
     (case vdev_exec lo now e d of Inl _ \<Rightarrow> True | Inr (d', _) \<Rightarrow> vdev_use lo now tr d')"

subsection \<open>The invariant\<close>

definition vdev_inv :: "tick \<Rightarrow> vdev \<Rightarrow> bool" where
  "vdev_inv t d \<longleftrightarrow> (\<exists>m. in_mode m d) \<and> delay_remained d \<le> delay_self d \<and>
     (scheduled (event_interrupt d) \<longrightarrow> unat (ev_when (event_interrupt d)) \<le> unat t + unat (delay_self d))"

lemma word_le_add: "unat a + unat b < 2 ^ 64 \<Longrightarrow> a \<le> a + b \<and> unat (a + b) = unat a + unat b" for a b :: u64
  by (simp add: word_le_nat_alt unat_add_lt)

lemma vdev_inv_later: "\<lbrakk> vdev_inv t d; t \<le> now \<rbrakk> \<Longrightarrow> vdev_inv now d"
  by (auto simp: vdev_inv_def word_le_nat_alt)

lemma in_mode_scheduled:
  "in_mode m d \<Longrightarrow> scheduled (event_init d) \<longleftrightarrow> m = Initing"
  "in_mode m d \<Longrightarrow> scheduled (event_interrupt d) \<longleftrightarrow> m = Working"
  by (cases m; simp)+

lemma remaining_le:
  assumes "vdev_inv now d" "vdev_timely now d" "in_mode Working d"
  shows "remaining now d \<le> delay_self d"
proof -
  have w: "now \<le> ev_when (event_interrupt d)"
      "unat (ev_when (event_interrupt d)) \<le> unat now + unat (delay_self d)"
    using assms by (auto simp: vdev_inv_def vdev_timely_def)
  then have "unat (ev_when (event_interrupt d) - now) \<le> unat (delay_self d)"
    by (simp add: unat_sub)
  then show ?thesis by (simp add: remaining_def word_le_nat_alt)
qed

lemma vdev_invI:
  assumes "in_mode m d" "delay_remained d \<le> delay_self d"
    and "m = Working \<Longrightarrow> unat (ev_when (event_interrupt d)) \<le> unat t + unat (delay_self d)"
  shows "vdev_inv t d"
  using assms in_mode_scheduled(2) by (auto simp: vdev_inv_def)

lemma exec_power_off:
  assumes "vdev_inv now d" "vdev_timely now d"
  shows "\<exists>d' cs. vdev_power_off now d = Inr (d', cs) \<and> vdev_inv now d'"
proof -
  obtain m where m: "in_mode m d" using assms(1) by (auto simp: vdev_inv_def)
  from power_off_mode [OF m, of now] obtain d' where d': "vdev_power_off now d = Inr (d', [])"
      "in_mode Down d'" "vdev_params d d'"
      "delay_remained d' = (if m = Working then remaining now d
        else if m \<in> {Initing, Ready} then 0 else delay_remained d)" by blast
  have "delay_remained d \<le> delay_self d" using assms(1) by (simp add: vdev_inv_def)
  then have "delay_remained d' \<le> delay_self d"
    using d'(4) remaining_le [OF assms] m by (auto split: if_splits)
  then have "vdev_inv now d'" using d'(3) by (intro vdev_invI [OF d'(2)]) (auto simp: vdev_params_def)
  then show ?thesis using d'(1) by blast
qed

lemma exec_power_on:
  assumes "vdev_inv now d" "vdev_timely now d" "in_mode Down d \<or> in_mode Fresh d"
  shows "\<exists>d' cs. vdev_power_on now d = Inr (d', cs) \<and> vdev_inv now d'"
proof -
  obtain m where m: "in_mode m d" "m \<in> {Fresh, Down}" using assms(3) by blast
  have "now \<le> now + delay_set d" using assms(2) by (simp add: vdev_timely_def)
  from power_on_mode [OF m this] obtain d' cs where d': "vdev_power_on now d = Inr (d', cs)"
      "vdev_params d d'" "in_mode (if m = Down \<and> need_recover d then Initing else m) d'"
      "delay_remained d' = delay_remained d" by blast
  have "delay_remained d \<le> delay_self d" using assms(1) by (simp add: vdev_inv_def)
  then have "vdev_inv now d'"
    using d'(2,4) m(2) by (intro vdev_invI [OF d'(3)]) (auto simp: vdev_params_def split: if_splits)
  then show ?thesis using d'(1) by blast
qed

lemma exec_msg:
  assumes "vdev_inv now d" "vdev_timely now d" "vdev_legal lo now (Ev_Msg msg) d"
  shows "\<exists>d' cs. vdev_exec lo now (Ev_Msg msg) d = Inr (d', cs) \<and> vdev_inv now d'"
  using exec_power_off [OF assms(1,2)] exec_power_on [OF assms(1,2)] assms(1,3)
  by (auto simp: VirtualDevice_handleMsg_def)

lemma exec_init:
  assumes "vdev_inv now d" "vdev_timely now d" "vdev_legal lo now Ev_Init d"
  shows "\<exists>d' cs. vdev_exec lo now Ev_Init d = Inr (d', cs) \<and> vdev_inv now d'"
proof -
  have m: "in_mode Initing d"
    using assms(1,3) in_mode_scheduled(1) by (auto simp: vdev_inv_def)
  have r: "delay_remained d \<le> delay_self d" using assms(1) by (simp add: vdev_inv_def)
  have le: "unat now + unat (delay_remained d) < 2 ^ 64"
    using r assms(2) by (simp add: vdev_timely_def word_le_nat_alt)
  from init_done_mode [OF m word_le_add [OF le, THEN conjunct1]] obtain d' cs where
      d': "triggerInterrupt now (d\<lparr>event_init := ev_fire (event_init d)\<rparr>) = Inr (d', cs)"
      "vdev_params d d'" "delay_remained d' = delay_remained d"
      "in_mode (if delay_remained d > 0 then Working else Ready) d'"
      "delay_remained d > 0 \<longrightarrow> ev_when (event_interrupt d') = now + delay_remained d" by blast
  have "vdev_inv now d'"
    using d'(2,3,5) r word_le_add [OF le]
    by (intro vdev_invI [OF d'(4)]) (auto simp: vdev_params_def word_le_nat_alt split: if_splits)
  then show ?thesis using d'(1) by auto
qed

lemma exec_interrupt:
  assumes "vdev_inv now d" "vdev_legal lo now Ev_Interrupt d"
  shows "\<exists>d' cs. vdev_exec lo now Ev_Interrupt d = Inr (d', cs) \<and> vdev_inv now d'"
proof -
  have m: "in_mode Working d"
    using assms in_mode_scheduled(2) by (auto simp: vdev_inv_def)
  from task_done_mode [OF m, of now] obtain d' cs where
      d': "triggerInterrupt now (d\<lparr>event_interrupt := ev_fire (event_interrupt d)\<rparr>) = Inr (d', cs)"
      "delay_remained d' = 0" "in_mode Ready d'" by blast
  then have "vdev_inv now d'" by (intro vdev_invI [OF d'(3)]) auto
  then show ?thesis using d'(1) by auto
qed

lemma in_mode_frame:
  "\<lbrakk> reg d' = reg d; event_init d' = event_init d; event_interrupt d' = event_interrupt d;
     need_recover d' = need_recover d; delay_remained d' = delay_remained d \<rbrakk> \<Longrightarrow>
   in_mode m d' = in_mode m d"
  by (cases m) simp_all

lemma exec_tick:
  assumes "vdev_inv now d" "vdev_timely now d"
  shows "\<exists>d' cs. vdev_exec lo now Ev_Tick d = Inr (d', cs) \<and> vdev_inv now d'"
proof -
  have "\<exists>e cs. vdev_exec lo now Ev_Tick d = Inr (d\<lparr>tickEvent := e\<rparr>, cs)"
    using assms(2) by (auto simp: VirtualDevice_tick_def ticksToCycles_def divCeil_def ev_schedule_def
        vdev_timely_def Let_def)
  moreover have "vdev_inv now (d\<lparr>tickEvent := e\<rparr>)" for e
    using assms(1) in_mode_frame [of "d\<lparr>tickEvent := e\<rparr>" d] by (simp add: vdev_inv_def)
  ultimately show ?thesis by blast
qed

text \<open>A write behind the first byte leaves the command byte alone and is read back.\<close>

lemma pmem_write_ok:
  assumes "unat offset + length data \<le> length (pmem d)" "offset \<noteq> 0"
  shows "\<exists>d'. pmem_write d offset data = Inr d' \<and> d' = d\<lparr>pmem_tail := pmem_tail d'\<rparr> \<and>
     length (pmem_tail d') = length (pmem_tail d) \<and>
     pmem d' = take (unat offset) (pmem d) @ data @ drop (unat offset + length data) (pmem d)"
proof -
  obtain k where k: "unat offset = Suc k" using assms(2) by (metis unat_eq_zero not0_implies_Suc)
  then show ?thesis using assms(1) by (auto simp: pmem_write_def pmem_def Let_def)
qed

lemma exec_access_init:
  assumes "vdev_inv now d" "vdev_timely now d" "\<not> in_mode Fresh d" "\<not> in_mode Ready d"
  shows "\<exists>d' cs. access_init now d = Inr (d', cs) \<and> vdev_inv now d'"
proof -
  obtain m where m: "in_mode m d" using assms(1) by (auto simp: vdev_inv_def)
  then have "m \<in> {Down, Initing, Working}" using assms(3,4) by (cases m) auto
  moreover have "now \<le> now + delay_set d" using assms(2) by (simp add: vdev_timely_def)
  ultimately obtain d' where d': "access_init now d = Inr (d', [])" "vdev_params d d'"
      "in_mode (if m = Down then Initing else m) d'" "delay_remained d' = delay_remained d"
      "m \<noteq> Down \<longrightarrow> d' = d" using access_init_mode [OF m] by blast
  have "delay_remained d' \<le> delay_self d'"
    using assms(1) d'(2,4) by (simp add: vdev_inv_def vdev_params_def)
  then have "vdev_inv now d'" using assms(1) d'(5) vdev_invI [OF d'(3)] by (cases "m = Down") auto
  then show ?thesis using d'(1) by blast
qed

lemma exec_access_activate:
  assumes "vdev_inv now d" "vdev_timely now d" "\<not> in_mode Fresh d"
    and "need_log d \<longrightarrow> lo \<and> access_time d < 2 ^ 31 - 1"
  shows "\<exists>d' cs. access_activate lo now d = Inr (d', cs) \<and> vdev_inv now d'"
proof -
  obtain m where m: "in_mode m d" using assms(1) by (auto simp: vdev_inv_def)
  have "m \<noteq> Fresh" using assms(3) m by blast
  have le: "unat now + unat (delay_self d) < 2 ^ 64" using assms(2) by (simp add: vdev_timely_def)
  obtain d' cs where d': "access_activate lo now d = Inr (d', cs)" "vdev_params d d'"
      "in_mode (if m = Ready then Working else m) d'" "delay_remained d' = delay_remained d"
      "m \<noteq> Ready \<longrightarrow> d' = d" "m = Ready \<longrightarrow> ev_when (event_interrupt d') = now + delay_self d"
    using access_activate_mode [OF m \<open>m \<noteq> Fresh\<close> word_le_add [OF le, THEN conjunct1] assms(4)] by blast
  have "delay_remained d' \<le> delay_self d'"
    using assms(1) d'(2,4) by (simp add: vdev_inv_def vdev_params_def)
  then have "vdev_inv now d'" using assms(1) d'(2,5,6) vdev_invI [OF d'(3)] word_le_add [OF le]
    by (cases "m = Ready") (auto simp: vdev_params_def)
  then show ?thesis using d'(1) by blast
qed

lemma exec_access:
  assumes "vdev_inv now d" "vdev_timely now d" "vdev_legal lo now (Ev_Access pkt) d"
  shows "\<exists>d' cs. vdev_exec lo now (Ev_Access pkt) d = Inr (d', cs) \<and> vdev_inv now d'"
proof (cases "is_command pkt d")
  case True
  obtain cmd rest where data: "pkt_data pkt = cmd # rest"
    using assms(3) by (auto simp: in_range_def neq_Nil_conv)
  have n: "\<not> in_mode Fresh d" "need_log d \<longrightarrow> lo \<and> access_time d < 2 ^ 31 - 1"
      "cmd AND VDEV_INIT \<noteq> 0 \<Longrightarrow> \<not> in_mode Ready d"
    using assms(3) True data by auto
  have c: "pkt_cmd pkt = WriteReq" "pkt_addr pkt - range_start d = 0"
    using True by (auto simp: is_command_def)
  have "\<exists>d' cs. (if cmd AND VDEV_INIT \<noteq> 0 then access_init now d
      else if cmd AND VDEV_ACTIVATE \<noteq> 0 then access_activate lo now d else Inr (d, [])) = Inr (d', cs) \<and>
      vdev_inv now d'"
    using exec_access_init [OF assms(1,2) n(1)] exec_access_activate [OF assms(1,2) n(1,2)] n(3) assms(1)
    by auto
  then show ?thesis using c data by (auto simp: VirtualDevice_access_def Let_def)
next
  case False
  let ?o = "pkt_addr pkt - range_start d"
  have l: "unat ?o + length (pkt_data pkt) \<le> length (pmem d)" using assms(3) by (simp add: in_range_def)
  show ?thesis
  proof (cases "pkt_cmd pkt = WriteReq")
    case True
    then have "?o \<noteq> 0" using False by (auto simp: is_command_def)
    from pmem_write_ok [OF l this] obtain d' t where d': "pmem_write d ?o (pkt_data pkt) = Inr d'"
        "d' = d\<lparr>pmem_tail := t\<rparr>" by blast
    have "vdev_inv now d'" using assms(1) in_mode_frame [of d' d] d'(2) by (simp add: vdev_inv_def)
    then show ?thesis using True \<open>?o \<noteq> 0\<close> d'(1) by (simp add: VirtualDevice_access_def Let_def)
  qed (use assms(1) l in \<open>auto simp: VirtualDevice_access_def pmem_read_def Let_def split: mem_cmd.splits\<close>)
qed

lemma vdev_step_safe:
  assumes "vdev_inv t d" "t \<le> now" "vdev_timely now d" "vdev_legal lo now e d"
  shows "\<exists>d' cs. vdev_exec lo now e d = Inr (d', cs) \<and> vdev_inv now d'"
proof -
  have i: "vdev_inv now d" using assms(1,2) by (rule vdev_inv_later)
  show ?thesis
    using exec_access [OF i assms(3)] exec_init [OF i assms(3)] exec_interrupt [OF i]
      exec_tick [OF i assms(3)] exec_msg [OF i assms(3)] assms(4)
    by (cases e) auto
qed

text \<open>
  C6: a device used as intended never fails. Starting from a constructed device, take any sequence
  of accesses, serviced events, ticks and energy messages at non-decreasing times, in which no
  command reaches the device before its first power-off message, no \<open>INIT\<close> is written to a ready
  device, and power-on messages only follow power-off messages. Then none of the assertions of
  \<open>triggerInterrupt\<close>, \<open>access\<close>, \<open>tick\<close>, \<open>handleMsg\<close> and of the event queue calls they make fails, and
  afterwards flags and pending events still describe exactly one mode.
\<close>

theorem vdev_never_fails:
  assumes "vdev_use lo t tr (VirtualDevice_new p sz)"
  shows "\<exists>d cs. vdev_exec_all lo tr (VirtualDevice_new p sz) = Inr (d, cs) \<and> (\<exists>!m. in_mode m d)"
proof -
  have "\<exists>d' cs. vdev_exec_all lo tr d = Inr (d', cs) \<and> (\<exists>m. in_mode m d')"
    if "vdev_use lo t tr d" "vdev_inv t d" for d
    using that
  proof (induction tr arbitrary: t d)
    case Nil
    then show ?case by (simp add: vdev_inv_def)
  next
    case (Cons x tr)
    obtain now e where x: "x = (now, e)" by (cases x)
    with Cons.prems have h: "t \<le> now" "vdev_timely now d" "vdev_legal lo now e d" by auto
    from vdev_step_safe [OF Cons.prems(2) h] obtain d1 cs where
        d1: "vdev_exec lo now e d = Inr (d1, cs)" "vdev_inv now d1" by blast
    then have "vdev_use lo now tr d1" using Cons.prems(1) x by simp
    from Cons.IH [OF this d1(2)] d1(1) x show ?case by auto
  qed
  moreover have "vdev_inv t (VirtualDevice_new p sz)"
    by (rule vdev_invI [OF in_mode_new]) (simp_all add: VirtualDevice_new_def)
  ultimately show ?thesis using assms in_mode_unique by blast
qed

text \<open>An interruptible device with 3 bytes behind the command byte.\<close>

definition example_vdev :: vdev where
  "example_vdev = VirtualDevice_new \<lparr>vid = 0, dev_name = ''VDEV-0'', need_recover = False,
     tickEvent = ev_idle, need_log = False, access_time = 0, range_start = 0x1000, delay_set = 100,
     delay_self = 400, delay_recover = 0, delay_cpu_interrupt = 20, is_interruptable = True,
     delay_remained = 0, energy_consumed_per_cycle_vdev = (\<lambda>_. Fin 1),
     vdev_energy_state = STATE_POWER_OFF, event_interrupt = ev_idle, event_init = ev_idle, reg = 0,
     pmem_tail = [], vclock = ClockedObject_new, vperiod = 10\<rparr> 4"

definition cmd_packet :: "vdev \<Rightarrow> u8 \<Rightarrow> packet" where
  "cmd_packet d cmd = \<lparr>pkt_addr = range_start d, pkt_cmd = WriteReq, pkt_data = [cmd]\<rparr>"

definition example_trace :: "(tick \<times> vdev_event) list" where
  "example_trace = [(0, Ev_Msg (sm_msg 1)), (5, Ev_Msg (sm_msg 2)),
     (10, Ev_Access (cmd_packet example_vdev VDEV_INIT)), (110, Ev_Init),
     (120, Ev_Access (cmd_packet example_vdev VDEV_ACTIVATE)), (300, Ev_Msg (sm_msg 1)),
     (1000, Ev_Msg (sm_msg 2)), (1100, Ev_Init), (1320, Ev_Interrupt)]"

lemmas example_vdev_defs = example_vdev_def VirtualDevice_new_def cmd_packet_def sm_msg_def
  VirtualDevice_handleMsg_def vdev_power_off_def vdev_power_on_def triggerInterrupt_def
  VirtualDevice_access_def access_init_def access_activate_def ev_schedule_def ev_deschedule_def
  ev_fire_def ev_idle_def pmem_has_def pmem_set_def pmem_clr_def VDEV_INIT_def VDEV_ACTIVATE_def
  VDEV_CHAOS_def VDEV_READY_def VDEV_BUSY_def VDEV_IDLE_def vdev_timely_def in_range_def
  is_command_def pmem_def Let_def

lemma example_trace_use: "vdev_use True 0 example_trace example_vdev"
  by (simp add: example_trace_def) (simp add: example_vdev_defs)

theorem vdev_never_fails_witness:
  "vdev_use True 0 example_trace example_vdev \<and>
   (\<exists>d cs. vdev_exec_all True example_trace example_vdev = Inr (d, cs) \<and> (\<exists>!m. in_mode m d))"
proof -
  have "vdev_use True 0 example_trace example_vdev" by (rule example_trace_use)
  then show ?thesis using vdev_never_fails [of True 0 example_trace] unfolding example_vdev_def by blast
qed

section \<open>Recovery\<close>

text \<open>
  C7: an interrupted task is resumed. If power fails at \<open>t1\<close> while the device works on a task and
  comes back at \<open>t2\<close>, the device initialises for \<open>delay_set\<close> ticks and then works again, for the
  time that was left (\<open>when - t1\<close>) if its tasks are interruptible and for the full \<open>delay_self\<close>
  otherwise; the CPU is told to wait for both phases. If nothing was left, no task is resumed. While
  the resumed task runs, the \<open>IDLE\<close> flag is set together with \<open>BUSY\<close>.
\<close>

theorem vdev_recovers_task:
  fixes d :: vdev and t1 t2 :: tick
  defines "left \<equiv> (if is_interruptable d then ev_when (event_interrupt d) - t1 else delay_self d)"
    and "t3 \<equiv> t2 + delay_set d"
  assumes "in_mode Working d" "t2 \<le> t3" "t3 \<le> t3 + left"
  shows "\<exists>d' cs. vdev_exec_all lo [(t1, Ev_Msg (sm_msg 1)), (t2, Ev_Msg (sm_msg 2)), (t3, Ev_Init)] d =
       Inr (d', cs) \<and>
     cs = [Call_Recover (delay_set d), Call_Start (vid d), Call_Interrupt 0, Call_End (vid d)] @
       (if left > 0 then [Call_Recover left, Call_Start (vid d)] else []) \<and>
     (if left > 0
      then in_mode Working d' \<and> ev_when (event_interrupt d') = t3 + left \<and> pmem_has d' VDEV_IDLE
      else in_mode Ready d')"
proof -
  obtain d1 where d1: "vdev_power_off t1 d = Inr (d1, [])" "in_mode Down d1" "vdev_params d d1"
      "need_recover d1" "delay_remained d1 = left"
    using power_off_mode [OF assms(3), of t1] by (auto simp: left_def remaining_def)
  then have s: "delay_set d1 = delay_set d" "vid d1 = vid d" by (simp_all add: vdev_params_def)
  obtain d2 where d2: "vdev_power_on t2 d1 = Inr (d2, [Call_Recover (delay_set d), Call_Start (vid d)])"
      "in_mode Initing d2" "vdev_params d1 d2" "delay_remained d2 = left"
    using power_on_mode [OF d1(2), of t2] d1 s assms(4) by (auto simp: t3_def)
  have "t3 \<le> t3 + delay_remained d2" using d2(4) assms(5) by simp
  from init_done_mode [OF d2(2) this] obtain d3 cs where
      "triggerInterrupt t3 (d2\<lparr>event_init := ev_fire (event_init d2)\<rparr>) = Inr (d3, cs)"
      "in_mode (if left > 0 then Working else Ready) d3" "bit (reg d3) 0"
      "cs = [Call_Interrupt 0, Call_End (vid d2)] @
         (if left > 0 then [Call_Recover left, Call_Start (vid d2)] else [])"
      "left > 0 \<longrightarrow> ev_when (event_interrupt d3) = t3 + left" unfolding d2(4) by blast
  then show ?thesis using d1(1) d2(1,3) s
    by (auto simp: VirtualDevice_handleMsg_def sm_msg_def vdev_params_def vdev_defs)
qed

text \<open>The device of the example, working on a task that ends at tick 520.\<close>

definition example_working :: vdev where
  "example_working = example_vdev\<lparr>reg := 6, event_interrupt := \<lparr>scheduled = True, ev_when = 520\<rparr>\<rparr>"

lemma example_working_mode: "in_mode Working example_working"
  by (simp add: example_working_def example_vdev_def VirtualDevice_new_def ev_idle_def)

theorem vdev_recovers_task_witness:
  "in_mode Working example_working \<and>
   (\<exists>d' cs. vdev_exec_all True [(300, Ev_Msg (sm_msg 1)), (1000, Ev_Msg (sm_msg 2)), (1100, Ev_Init)]
       example_working = Inr (d', cs) \<and> in_mode Working d' \<and> ev_when (event_interrupt d') = 1320)"
proof -
  have p: "delay_set example_working = 100" "is_interruptable example_working = True"
      "ev_when (event_interrupt example_working) = 520"
    by (simp_all add: example_working_def example_vdev_def VirtualDevice_new_def)
  show ?thesis
    using vdev_recovers_task [OF example_working_mode, of 1000 300 True] example_working_mode
    unfolding p by (auto simp del: vdev_exec_all.simps in_mode.simps)
qed

text \<open>
  C28: a second power failure during recovery loses the task. If power fails again at \<open>t3\<close> before the
  re-initialisation has finished, the remaining time of the interrupted task is cleared; at the next
  recovery the device comes up ready and idle, with no event pending, and the task is neither
  resumed nor completed.
\<close>

theorem vdev_loses_task:
  assumes "in_mode Working d" "t2 \<le> t2 + delay_set d" "t4 \<le> t4 + delay_set d"
  shows "\<exists>d' cs. vdev_exec_all lo [(t1, Ev_Msg (sm_msg 1)), (t2, Ev_Msg (sm_msg 2)),
       (t3, Ev_Msg (sm_msg 1)), (t4, Ev_Msg (sm_msg 2)), (t4 + delay_set d, Ev_Init)] d = Inr (d', cs) \<and>
     in_mode Ready d' \<and> delay_remained d' = 0"
proof -
  obtain d1 where d1: "vdev_power_off t1 d = Inr (d1, [])" "in_mode Down d1" "vdev_params d d1"
      "need_recover d1"
    using power_off_mode [OF assms(1), of t1] by auto
  obtain d2 cs where d2: "vdev_power_on t2 d1 = Inr (d2, cs)" "in_mode Initing d2" "vdev_params d1 d2"
      "need_recover d2"
    using power_on_mode [OF d1(2), of t2] d1 assms(2) by (auto simp: vdev_params_def)
  obtain d3 where d3: "vdev_power_off t3 d2 = Inr (d3, [])" "in_mode Down d3" "vdev_params d2 d3"
      "need_recover d3" "delay_remained d3 = 0"
    using power_off_mode [OF d2(2), of t3] by auto
  obtain d4 cs' where d4: "vdev_power_on t4 d3 = Inr (d4, cs')" "in_mode Initing d4" "vdev_params d3 d4"
      "delay_remained d4 = 0"
    using power_on_mode [OF d3(2), of t4] d1 d2 d3 assms(3) by (auto simp: vdev_params_def)
  obtain d5 cs'' where "triggerInterrupt (t4 + delay_set d) (d4\<lparr>event_init := ev_fire (event_init d4)\<rparr>) =
      Inr (d5, cs'')" "in_mode Ready d5" "delay_remained d5 = 0"
    using init_done_mode [OF d4(2), of "t4 + delay_set d"] d4(4) by auto
  then show ?thesis using d1 d2 d3 d4 by (auto simp: VirtualDevice_handleMsg_def sm_msg_def)
qed

theorem vdev_loses_task_witness:
  "in_mode Working example_working \<and>
   (\<exists>d' cs. vdev_exec_all True [(300, Ev_Msg (sm_msg 1)), (1000, Ev_Msg (sm_msg 2)),
       (1050, Ev_Msg (sm_msg 1)), (2000, Ev_Msg (sm_msg 2)), (2100, Ev_Init)] example_working = Inr (d', cs) \<and>
     in_mode Ready d' \<and> delay_remained d' = 0)"
proof -
  have p: "delay_set example_working = 100"
    by (simp add: example_working_def example_vdev_def VirtualDevice_new_def)
  show ?thesis
    using vdev_loses_task [OF example_working_mode, of 1000 2000 True 300 1050] example_working_mode
    unfolding p by (auto simp del: vdev_exec_all.simps in_mode.simps)
qed

section \<open>Why the use is restricted\<close>

text \<open>
  Commands outside the intended use end the simulation at the next power failure. A ready device
  accepts \<open>INIT\<close> and schedules its initialisation, but the following power-off takes it for a running
  task and asserts that \<open>event_interrupt\<close> is scheduled. A fresh device, which was never initialised,
  accepts \<open>ACTIVATE\<close>, since \<open>CHAOS\<close> is not set before the first power-off; the following power-off
  takes this for an initialisation and asserts that \<open>event_init\<close> is scheduled.
\<close>

lemma vdev_misuse_fails:
  assumes "now \<le> now + delay_set d" "now \<le> now + delay_self d" "\<not> need_log d"
  shows "(in_mode Ready d \<longrightarrow>
      vdev_exec_all lo [(now, Ev_Access (cmd_packet d VDEV_INIT)), (t, Ev_Msg (sm_msg 1))] d = Inl Assert_Failed) \<and>
    (in_mode Fresh d \<longrightarrow>
      vdev_exec_all lo [(now, Ev_Access (cmd_packet d VDEV_ACTIVATE)), (t, Ev_Msg (sm_msg 1))] d = Inl Assert_Failed)"
proof -
  have c: "VDEV_INIT AND VDEV_INIT \<noteq> 0" "VDEV_ACTIVATE AND VDEV_INIT = 0" "VDEV_ACTIVATE AND VDEV_ACTIVATE \<noteq> 0"
    by (simp_all add: VDEV_INIT_def VDEV_ACTIVATE_def)
  have "vdev_exec_all lo [(now, Ev_Access (cmd_packet d VDEV_INIT)), (t, Ev_Msg (sm_msg 1))] d = Inl Assert_Failed"
    if "in_mode Ready d"
    using that assms c by (simp add: VirtualDevice_access_def cmd_packet_def access_init_def ev_schedule_def
        VirtualDevice_handleMsg_def sm_msg_def vdev_power_off_def Let_def vdev_defs)
  moreover have "vdev_exec_all lo [(now, Ev_Access (cmd_packet d VDEV_ACTIVATE)), (t, Ev_Msg (sm_msg 1))] d = Inl Assert_Failed"
    if "in_mode Fresh d"
    using that assms c by (simp add: VirtualDevice_access_def cmd_packet_def access_activate_def ev_schedule_def
        VirtualDevice_handleMsg_def sm_msg_def vdev_power_off_def Let_def vdev_defs)
  ultimately show ?thesis by blast
qed

lemma vdev_misuse_fails_witness:
  "in_mode Fresh example_vdev \<and>
   vdev_exec_all True [(10, Ev_Access (cmd_packet example_vdev VDEV_ACTIVATE)), (50, Ev_Msg (sm_msg 1))]
     example_vdev = Inl Assert_Failed \<and>
   in_mode Ready (example_vdev\<lparr>reg := 5\<rparr>) \<and>
   vdev_exec_all True [(10, Ev_Access (cmd_packet (example_vdev\<lparr>reg := 5\<rparr>) VDEV_INIT)), (50, Ev_Msg (sm_msg 1))]
     (example_vdev\<lparr>reg := 5\<rparr>) = Inl Assert_Failed"
proof -
  have f: "in_mode Fresh example_vdev" unfolding example_vdev_def by (rule in_mode_new)
  have r: "in_mode Ready (example_vdev\<lparr>reg := 5\<rparr>)"
    by (simp add: example_vdev_def VirtualDevice_new_def)
  have "10 \<le> 10 + delay_set example_vdev" "10 \<le> 10 + delay_self example_vdev" "\<not> need_log example_vdev"
    by (simp_all add: example_vdev_def VirtualDevice_new_def)
  then show ?thesis
    using vdev_misuse_fails [of 10 example_vdev True 50] vdev_misuse_fails [of 10 "example_vdev\<lparr>reg := 5\<rparr>" True 50] f r
    by (simp del: vdev_exec_all.simps in_mode.simps)
qed

section \<open>Memory\<close>

text \<open>
  C29: the memory behind the command byte is ordinary memory and the command byte cannot be written.
  A write at a non-zero offset inside the range changes exactly the addressed bytes and nothing
  else of the device, and a read of the same address and size returns what was written. A write at
  offset 0 with neither the \<open>INIT\<close> nor the \<open>ACTIVATE\<close> bit changes nothing.
\<close>

theorem vdev_memory:
  assumes "in_range pkt d" "pkt_cmd pkt = WriteReq"
    and "pkt_addr pkt = range_start d \<Longrightarrow> hd (pkt_data pkt) AND VDEV_INIT = 0 \<and> hd (pkt_data pkt) AND VDEV_ACTIVATE = 0"
  shows "\<exists>d'. VirtualDevice_access lo now pkt d = Inr (pkt, d', []) \<and> d' = d\<lparr>pmem_tail := pmem_tail d'\<rparr> \<and>
    (if pkt_addr pkt = range_start d then d' = d
     else let off = unat (pkt_addr pkt - range_start d); n = length (pkt_data pkt) in
       pmem d' = take off (pmem d) @ pkt_data pkt @ drop (off + n) (pmem d) \<and>
       VirtualDevice_access lo now (pkt\<lparr>pkt_cmd := ReadReq, pkt_data := replicate n 0\<rparr>) d' =
         Inr (pkt\<lparr>pkt_cmd := ReadReq\<rparr>, d', []))"
proof (cases "pkt_addr pkt = range_start d")
  case True
  then show ?thesis using assms
    by (cases "pkt_data pkt") (auto simp: VirtualDevice_access_def Let_def in_range_def)
next
  case False
  let ?o = "pkt_addr pkt - range_start d"
  have l: "unat ?o + length (pkt_data pkt) \<le> length (pmem d)" using assms(1) by (simp add: in_range_def)
  have ne: "?o \<noteq> 0" using False by simp
  obtain d' where d': "pmem_write d ?o (pkt_data pkt) = Inr d'" "d' = d\<lparr>pmem_tail := pmem_tail d'\<rparr>"
      "pmem d' = take (unat ?o) (pmem d) @ pkt_data pkt @ drop (unat ?o + length (pkt_data pkt)) (pmem d)"
    using pmem_write_ok [OF l ne] by blast
  have s: "range_start d' = range_start d" by (subst d'(2)) simp
  have "pmem_read d' ?o (length (pkt_data pkt)) = Inr (pkt_data pkt)"
    using l by (simp add: pmem_read_def d'(3))
  then show ?thesis using assms(2) False ne d' s
    by (intro exI [of _ d']) (simp add: VirtualDevice_access_def Let_def)
qed

theorem vdev_memory_witness:
  "in_range \<lparr>pkt_addr = 0x1001, pkt_cmd = WriteReq, pkt_data = [7, 8]\<rparr> example_vdev \<and>
   (\<exists>d'. VirtualDevice_access True 0 \<lparr>pkt_addr = 0x1001, pkt_cmd = WriteReq, pkt_data = [7, 8]\<rparr> example_vdev =
       Inr (\<lparr>pkt_addr = 0x1001, pkt_cmd = WriteReq, pkt_data = [7, 8]\<rparr>, d', []) \<and> pmem d' = [0, 7, 8, 0])"
proof -
  let ?p = "\<lparr>pkt_addr = 0x1001, pkt_cmd = WriteReq, pkt_data = [7, 8 :: u8]\<rparr>"
  have m: "range_start example_vdev = 0x1000" "pmem example_vdev = [0, 0, 0, 0]"
    by (simp_all add: example_vdev_def VirtualDevice_new_def pmem_def eval_nat_numeral)
  then have r: "in_range ?p example_vdev" by (simp add: in_range_def)
  show ?thesis using vdev_memory [OF r, of True 0] r m by (auto simp: Let_def)
qed

end
