(* ===== verification/Atomic_CPU.thy ===== *)
theory Atomic_CPU
  imports Energy_Mgmt Clocked_Object
begin

text \<open>
  The CPU as the energy framework and the devices see it: the device table of \<open>cpu/base.cc\<close> and the
  tick event, the device hooks and the energy handler of \<open>cpu/simple/atomic.{hh,cc}\<close>
  (\<open>atomic_br.cc\<close> is textually the same). Instruction execution is the input of \<open>cpu_tick\<close>: the
  list of outcomes of the loop iterations. Energy the CPU consumes is returned as a list of calls
  of \<open>consumeEnergy\<close>, in order. The thread, the ports and the statistics are left out.
\<close>

section \<open>State\<close>

record base_cpu =
  lat_vdev :: "tick list"
  status_vdev :: "bool list"

datatype cpu_status = Idle | Running

record atomic_cpu = base_cpu +
  power_cpu :: "nat \<Rightarrow> double"
  clkmult :: double
  recover_time :: double
  tick_recover :: tick
  cycle_backup :: tick
  cycle_restore :: tick
  in_interrupt :: bool
  cpu_tickEvent :: ev
  cpu_status :: cpu_status
  cpu_width :: nat
  locked :: bool
  simulate_data_stalls :: bool
  simulate_inst_stalls :: bool
  drain_manager :: bool
  switched_out :: bool
  cpu_clock :: clocked_object
  cpu_domain_period :: tick

type_synonym consumption = "string \<times> double"

definition AtomicCPU_name :: string where
  "AtomicCPU_name = ''AtomicCPU''"

text \<open>The constructor, on a record that carries the parameters.\<close>

definition AtomicSimpleCPU_new :: "atomic_cpu \<Rightarrow> atomic_cpu" where
  "AtomicSimpleCPU_new p = p\<lparr>lat_vdev := [], status_vdev := [], clkmult := Fin 1, recover_time := Fin 0,
     tick_recover := 0, in_interrupt := False, cpu_tickEvent := ev_idle, cpu_status := Idle,
     locked := False, drain_manager := False, cpu_clock := ClockedObject_new\<rparr>"

section \<open>The device table\<close>

definition registerVDev :: "tick \<Rightarrow> 'a base_cpu_scheme \<Rightarrow> u32 \<times> 'a base_cpu_scheme" where
  "registerVDev t c =
     (of_nat (length (lat_vdev c)),
      c\<lparr>lat_vdev := lat_vdev c @ [t], status_vdev := status_vdev c @ [False]\<rparr>)"

fun total_lat :: "tick list \<Rightarrow> bool list \<Rightarrow> tick \<Rightarrow> tick" where
  "total_lat (l # ls) (b # bs) tot = total_lat ls bs (if b then tot + l else tot)"
| "total_lat _ _ tot = tot"

definition getTotalLat :: "'a base_cpu_scheme \<Rightarrow> tick" where
  "getTotalLat c = total_lat (lat_vdev c) (status_vdev c) 0"

text \<open>Indexing \<open>status_vdev\<close> outside its size is undefined.\<close>

definition set_status_vdev :: "u32 \<Rightarrow> bool \<Rightarrow> 'a base_cpu_scheme \<Rightarrow> 'a base_cpu_scheme res" where
  "set_status_vdev i b c =
     (if unat i < length (status_vdev c) then Inr (c\<lparr>status_vdev := (status_vdev c)[unat i := b]\<rparr>)
      else Inl Undefined)"

definition virtualDeviceStart :: "u32 \<Rightarrow> 'a base_cpu_scheme \<Rightarrow> 'a base_cpu_scheme res" where
  "virtualDeviceStart i c = set_status_vdev i True c"

definition virtualDeviceEnd :: "u32 \<Rightarrow> 'a base_cpu_scheme \<Rightarrow> 'a base_cpu_scheme res" where
  "virtualDeviceEnd i c = set_status_vdev i False c"

section \<open>Clock\<close>

text \<open>\<open>ClockedObject::clockPeriod() * clkmult\<close> and \<open>ClockedObject::ticksToCycles(t / clkmult)\<close>,
  through double and back.\<close>

definition cpu_clockPeriod :: "atomic_cpu \<Rightarrow> tick res" where
  "cpu_clockPeriod c = u64_of_d (d_mul (d_of_u64 (cpu_domain_period c)) (clkmult c))"

definition cpu_ticksToCycles :: "tick \<Rightarrow> atomic_cpu \<Rightarrow> cycles res" where
  "cpu_ticksToCycles t c =
     bindE (u64_of_d (d_div (d_of_u64 t) (clkmult c))) (ticksToCycles (cpu_domain_period c))"

definition modE :: "u64 \<Rightarrow> u64 \<Rightarrow> u64 res" where
  "modE a b = (if b = 0 then Inl Undefined else Inr (a mod b))"

section \<open>Device hooks\<close>

definition virtualDeviceInterrupt :: "tick \<Rightarrow> tick \<Rightarrow> atomic_cpu \<Rightarrow> atomic_cpu res" where
  "virtualDeviceInterrupt now delay_isa c =
     (let time = ev_when (cpu_tickEvent c) in
      bindE (cpu_clockPeriod c) (\<lambda>p.
      bindE (modE delay_isa p) (\<lambda>r.
      (let delay_isa = (if r \<noteq> 0 then delay_isa + (p - r) else delay_isa);
           time = time + delay_isa
       in bindE (ev_reschedule now time False (cpu_tickEvent c)) (\<lambda>e.
          Inr (c\<lparr>cpu_tickEvent := e\<rparr>))))))"

definition virtualDeviceRecover :: "tick \<Rightarrow> tick \<Rightarrow> atomic_cpu \<Rightarrow> atomic_cpu res" where
  "virtualDeviceRecover now delay_vdev_init c =
     bindE (u64_of_d (d_sub (d_of_u64 (ev_when (cpu_tickEvent c))) (recover_time c))) (\<lambda>time.
     bindE (u64_of_d (d_add (d_of_u64 time)
              (if d_ge (recover_time c) (d_of_u64 delay_vdev_init)
               then recover_time c else d_of_u64 delay_vdev_init))) (\<lambda>time.
     bindE (ev_reschedule now time False (cpu_tickEvent c)) (\<lambda>e.
     Inr (c\<lparr>cpu_tickEvent := e\<rparr>))))"

section \<open>Energy messages\<close>

definition power_active :: "atomic_cpu \<Rightarrow> double" where
  "power_active c = power_cpu c 2"

definition cpu_power_off :: "tick \<Rightarrow> atomic_cpu \<Rightarrow> (atomic_cpu \<times> consumption list) res" where
  "cpu_power_off now c =
     bindE (cpu_clockPeriod c) (\<lambda>p.
     (let rec = tick_recover c + cycle_backup c * p;
          tick_remain = ev_when (cpu_tickEvent c) - now
      in
      bindE (modE tick_remain p) (\<lambda>r.
      (let c = c\<lparr>tick_recover := rec + (tick_remain + (p - r)), recover_time := Fin 0\<rparr> in
       bindE (assertE (scheduled (cpu_tickEvent c))) (\<lambda>_.
       bindE (ev_deschedule (cpu_tickEvent c)) (\<lambda>e.
       Inr (c\<lparr>cpu_tickEvent := e\<rparr>,
            [(AtomicCPU_name, d_mul (power_active c) (d_of_u64 (cycle_backup c)))])))))))"

definition cpu_power_on :: "tick \<Rightarrow> atomic_cpu \<Rightarrow> (atomic_cpu \<times> consumption list) res" where
  "cpu_power_on now c =
     bindE (cpu_clockPeriod c) (\<lambda>p.
     (let c = c\<lparr>tick_recover := tick_recover c + cycle_restore c * p\<rparr> in
      bindE (ev_schedule now (now + tick_recover c) (cpu_tickEvent c)) (\<lambda>e.
      Inr (c\<lparr>cpu_tickEvent := e\<rparr>,
           [(AtomicCPU_name, d_mul (power_active c) (d_of_u64 (cycle_restore c)))]))))"

definition AtomicSimpleCPU_handleMsg ::
  "tick \<Rightarrow> energy_msg \<Rightarrow> atomic_cpu \<Rightarrow> (int \<times> atomic_cpu \<times> consumption list) res" where
  "AtomicSimpleCPU_handleMsg now msg c =
     (let c = c\<lparr>tick_recover := 0\<rparr> in
      if msg_type msg = 1 then bindE (cpu_power_off now c) (\<lambda>(c, es). Inr (1, c, es))
      else if msg_type msg = 2 then bindE (cpu_power_on now c) (\<lambda>(c, es). Inr (1, c, es))
      else Inr (0, c, []))"

section \<open>Ticks\<close>

text \<open>
  The outcome of one iteration of the loop of \<open>tick\<close>: whether the interrupt and PC event checks
  suspended the thread, whether the fetch faulted, the latencies of the accesses, and whether the
  instruction suspended the thread and what it left in \<open>locked\<close>.
\<close>

record iteration =
  it_pc_suspend :: bool
  it_fault :: bool
  icache_access :: bool
  icache_latency :: tick
  dcache_access :: bool
  dcache_latency :: tick
  it_suspend :: bool
  it_locked :: bool

definition stall_ticks :: "atomic_cpu \<Rightarrow> iteration \<Rightarrow> tick" where
  "stall_ticks c it =
     (let s = (if simulate_inst_stalls c \<and> icache_access it then icache_latency it else 0)
      in if simulate_data_stalls c \<and> dcache_access it then s + dcache_latency it else s)"

definition iteration_latency :: "atomic_cpu \<Rightarrow> iteration \<Rightarrow> tick \<Rightarrow> tick res" where
  "iteration_latency c it latency =
     (if it_fault it \<or> stall_ticks c it = 0 then Inr latency
      else
        bindE (cpu_clockPeriod c) (\<lambda>p.
        bindE (divCeil (stall_ticks c it) p) (\<lambda>n. Inr (latency + n * p))))"

text \<open>
  \<open>for (int i = 0; i < width || locked; ++i)\<close>. The result carries \<open>None\<close> for the early return on a
  suspended thread. An instruction stream that ends before the loop does is not a run of the
  program; it is given the error \<open>Undefined\<close>.
\<close>

fun tick_loop ::
  "nat \<Rightarrow> iteration list \<Rightarrow> tick \<Rightarrow> atomic_cpu \<Rightarrow> (tick option \<times> atomic_cpu) res" where
  "tick_loop i its latency c =
     (if i < cpu_width c \<or> locked c then
        (case its of
           [] \<Rightarrow> Inl Undefined
         | it # its \<Rightarrow>
             (let c = (if it_pc_suspend it then c\<lparr>cpu_status := Idle\<rparr> else c) in
              if cpu_status c = Idle then Inr (None, c)
              else bindE (iteration_latency c it latency) (\<lambda>latency.
                   tick_loop (Suc i) its latency
                     (c\<lparr>locked := it_locked it, cpu_status := (if it_suspend it then Idle else cpu_status c)\<rparr>))))
      else Inr (Some latency, c))"

declare tick_loop.simps [simp del]

text \<open>\<open>isDrained\<close> depends on the thread; it is the argument \<open>drained\<close>.\<close>

definition tryCompleteDrain :: "bool \<Rightarrow> atomic_cpu \<Rightarrow> bool \<times> atomic_cpu" where
  "tryCompleteDrain drained c =
     (if \<not> drain_manager c then (False, c)
      else if \<not> drained then (False, c)
      else (True, c\<lparr>drain_manager := False\<rparr>))"

definition AtomicSimpleCPU_tick ::
  "tick \<Rightarrow> bool \<Rightarrow> iteration list \<Rightarrow> atomic_cpu \<Rightarrow> (atomic_cpu \<times> consumption list) res" where
  "AtomicSimpleCPU_tick now drained its c =
     bindE (tick_loop 0 its 0 c) (\<lambda>(res, c).
     case res of
       None \<Rightarrow> Inr (snd (tryCompleteDrain drained c), [])
     | Some latency \<Rightarrow>
         (let (done, c) = tryCompleteDrain drained c in
          if done then Inr (c, [])
          else
            bindE (cpu_clockPeriod c) (\<lambda>p.
            (let latency = (if latency < p then p else latency) in
             bindE (cpu_ticksToCycles latency c) (\<lambda>n.
             (let es = [(AtomicCPU_name, d_mul (power_active c) (d_of_u64 n))] in
              if cpu_status c \<noteq> Idle
              then bindE (ev_schedule now (now + latency) (cpu_tickEvent c)) (\<lambda>e.
                   Inr (c\<lparr>cpu_tickEvent := e\<rparr>, es))
              else Inr (c, es)))))))"

section \<open>Draining and contexts\<close>

definition AtomicSimpleCPU_drain :: "bool \<Rightarrow> atomic_cpu \<Rightarrow> (nat \<times> atomic_cpu) res" where
  "AtomicSimpleCPU_drain drained c =
     bindE (assertE (\<not> drain_manager c)) (\<lambda>_.
     if switched_out c then Inr (0, c)
     else if \<not> drained then Inr (1, c\<lparr>drain_manager := True\<rparr>)
     else if scheduled (cpu_tickEvent c)
     then bindE (ev_deschedule (cpu_tickEvent c)) (\<lambda>e. Inr (0, c\<lparr>cpu_tickEvent := e\<rparr>))
     else Inr (0, c))"

text \<open>\<open>active\<close> is whether the thread is active; the checks of the memory mode and of the number of
  threads are on the configuration.\<close>

definition AtomicSimpleCPU_drainResume :: "tick \<Rightarrow> bool \<Rightarrow> atomic_cpu \<Rightarrow> atomic_cpu res" where
  "AtomicSimpleCPU_drainResume now active c =
     bindE (assertE (\<not> scheduled (cpu_tickEvent c))) (\<lambda>_.
     bindE (assertE (\<not> drain_manager c)) (\<lambda>_.
     if switched_out c then Inr c
     else if active
     then bindE (nextCycle (cpu_domain_period c) now (cpu_clock c)) (\<lambda>(t, k).
          bindE (ev_schedule now t (cpu_tickEvent c)) (\<lambda>e.
          Inr (c\<lparr>cpu_clock := k, cpu_tickEvent := e, cpu_status := Running\<rparr>)))
     else Inr (c\<lparr>cpu_status := Idle\<rparr>)))"

definition activateContext :: "tick \<Rightarrow> atomic_cpu \<Rightarrow> atomic_cpu res" where
  "activateContext now c =
     bindE (assertE (cpu_status c = Idle)) (\<lambda>_.
     bindE (assertE (\<not> scheduled (cpu_tickEvent c))) (\<lambda>_.
     bindE (clockEdge (cpu_domain_period c) now 0 (cpu_clock c)) (\<lambda>(t, k).
     bindE (ev_schedule now t (cpu_tickEvent c)) (\<lambda>e.
     Inr (c\<lparr>cpu_clock := k, cpu_tickEvent := e, cpu_status := Running\<rparr>)))))"

definition suspendContext :: "atomic_cpu \<Rightarrow> atomic_cpu res" where
  "suspendContext c =
     (if cpu_status c = Idle then Inr c
      else
        bindE (if scheduled (cpu_tickEvent c)
               then bindE (ev_deschedule (cpu_tickEvent c)) (\<lambda>e. Inr (c\<lparr>cpu_tickEvent := e\<rparr>))
               else Inr c) (\<lambda>c. Inr (c\<lparr>cpu_status := Idle\<rparr>)))"

end
