(* ===== verification/Atomic_CPU_Props.thy ===== *)
theory Atomic_CPU_Props
  imports Atomic_CPU
begin

text \<open>
  What the CPU does on energy messages, device interrupts and ticks: when its next tick is due and
  how much energy it takes. Clock periods go through double; up to \<open>2^53\<close> ticks this is exact.
\<close>

section \<open>The clock\<close>

definition cpu_clock_ok :: "atomic_cpu \<Rightarrow> bool" where
  "cpu_clock_ok c \<longleftrightarrow> clkmult c = Fin 1 \<and> cpu_domain_period c \<noteq> 0 \<and> uint (cpu_domain_period c) \<le> 2 ^ 53"

lemma d_round_unsigned: "uint (n :: u64) \<le> 2 ^ 53 \<Longrightarrow> d_round (unsigned n) = Fin (unsigned n)"
  using d_round_of_int [of "uint n"] by simp

lemma d_mul_one: "uint n \<le> 2 ^ 53 \<Longrightarrow> d_mul (d_of_u64 n) (Fin 1) = d_of_u64 n"
  by (simp add: d_of_u64_exact d_mul_def d_round_unsigned)

lemma cpu_clockPeriod_eq: "cpu_clock_ok c \<Longrightarrow> cpu_clockPeriod c = Inr (cpu_domain_period c)"
  by (simp add: cpu_clock_ok_def cpu_clockPeriod_def d_mul_one u64_of_d_of_u64)

lemma cpu_ticksToCycles_eq:
  assumes "cpu_clock_ok c" "uint t \<le> 2 ^ 53"
  shows "cpu_ticksToCycles t c = divCeil t (cpu_domain_period c)"
proof -
  have "d_div (d_of_u64 t) (Fin 1) = d_of_u64 t"
    using assms(2) by (simp add: d_of_u64_exact d_div_def d_round_unsigned)
  then show ?thesis using assms
    by (simp add: cpu_clock_ok_def cpu_ticksToCycles_def u64_of_d_of_u64 ticksToCycles_def)
qed

section \<open>Power cycles\<close>

lemma cpu_power_off_ok:
  assumes "cpu_clock_ok c" "scheduled (cpu_tickEvent c)"
  shows "\<exists>r. cpu_power_off now c = Inr (c\<lparr>tick_recover := r, recover_time := Fin 0,
       cpu_tickEvent := (cpu_tickEvent c)\<lparr>scheduled := False\<rparr>\<rparr>,
     [(AtomicCPU_name, d_mul (power_active c) (d_of_u64 (cycle_backup c)))])"
  using assms
  by (auto simp: cpu_power_off_def cpu_clockPeriod_eq modE_def cpu_clock_ok_def Let_def
      ev_deschedule_def power_active_def)

lemma cpu_power_on_ok:
  assumes "cpu_clock_ok c" "\<not> scheduled (cpu_tickEvent c)"
    and "now \<le> now + (tick_recover c + cycle_restore c * cpu_domain_period c)"
  shows "cpu_power_on now c = Inr (c\<lparr>tick_recover := tick_recover c + cycle_restore c * cpu_domain_period c,
       cpu_tickEvent := \<lparr>scheduled = True,
         ev_when = now + (tick_recover c + cycle_restore c * cpu_domain_period c)\<rparr>\<rparr>,
     [(AtomicCPU_name, d_mul (power_active c) (d_of_u64 (cycle_restore c)))])"
  using assms
  by (auto simp: cpu_power_on_def cpu_clockPeriod_eq Let_def ev_schedule_def power_active_def)

text \<open>
  C8: a power cycle resumes the CPU exactly the restore time after power returns. A power-off at \<open>t1\<close>
  removes the tick event, and the following power-on at \<open>t2\<close> schedules it at
  \<open>t2 + cycle_restore * period\<close>; the energy of the backup and of the restore is consumed. The
  remaining time of the interrupted tick and the backup time, which the power-off adds up in
  \<open>tick_recover\<close>, have no effect, since every message starts by clearing it.
\<close>

theorem cpu_power_cycle:
  assumes "cpu_clock_ok c" "scheduled (cpu_tickEvent c)"
    and "t2 \<le> t2 + cycle_restore c * cpu_domain_period c"
  shows "\<exists>c1 c2. AtomicSimpleCPU_handleMsg t1 (sm_msg 1) c =
       Inr (1, c1, [(AtomicCPU_name, d_mul (power_active c) (d_of_u64 (cycle_backup c)))]) \<and>
     \<not> scheduled (cpu_tickEvent c1) \<and>
     AtomicSimpleCPU_handleMsg t2 (sm_msg 2) c1 =
       Inr (1, c2, [(AtomicCPU_name, d_mul (power_active c) (d_of_u64 (cycle_restore c)))]) \<and>
     c2 = c\<lparr>tick_recover := cycle_restore c * cpu_domain_period c, recover_time := Fin 0,
       cpu_tickEvent := \<lparr>scheduled = True, ev_when = t2 + cycle_restore c * cpu_domain_period c\<rparr>\<rparr>"
proof -
  have ok: "cpu_clock_ok (c\<lparr>tick_recover := x\<rparr>)" for x using assms(1) by (simp add: cpu_clock_ok_def)
  obtain r where off: "cpu_power_off t1 (c\<lparr>tick_recover := 0\<rparr>) = Inr (c\<lparr>tick_recover := r,
        recover_time := Fin 0, cpu_tickEvent := (cpu_tickEvent c)\<lparr>scheduled := False\<rparr>\<rparr>,
      [(AtomicCPU_name, d_mul (power_active c) (d_of_u64 (cycle_backup c)))])"
    using cpu_power_off_ok [OF ok] assms(2) by (auto simp: power_active_def)
  let ?c1 = "c\<lparr>tick_recover := r, recover_time := Fin 0,
      cpu_tickEvent := (cpu_tickEvent c)\<lparr>scheduled := False\<rparr>\<rparr>"
  have "cpu_clock_ok (?c1\<lparr>tick_recover := 0\<rparr>)" using assms(1) by (simp add: cpu_clock_ok_def)
  from cpu_power_on_ok [OF this, of t2] assms(3) off show ?thesis
    by (simp add: AtomicSimpleCPU_handleMsg_def sm_msg_def power_active_def)
qed

text \<open>A CPU with a period of 500 ticks, running, whose next tick is due at 4000.\<close>

definition example_cpu :: atomic_cpu where
  "example_cpu = \<lparr>lat_vdev = [0], status_vdev = [False], power_cpu = (\<lambda>_. Fin 2), clkmult = Fin 1,
     recover_time = Fin 0, tick_recover = 0, cycle_backup = 10, cycle_restore = 20,
     in_interrupt = False, cpu_tickEvent = \<lparr>scheduled = True, ev_when = 4000\<rparr>, cpu_status = Running,
     cpu_width = 1, locked = False, simulate_data_stalls = True, simulate_inst_stalls = True,
     drain_manager = False, switched_out = False, cpu_clock = ClockedObject_new,
     cpu_domain_period = 500\<rparr>"

lemma example_cpu_ok: "cpu_clock_ok example_cpu" "scheduled (cpu_tickEvent example_cpu)"
  by (simp_all add: cpu_clock_ok_def example_cpu_def)

theorem cpu_power_cycle_witness:
  "cpu_clock_ok example_cpu \<and>
   (\<exists>c1 c2 es1 es2. AtomicSimpleCPU_handleMsg 3700 (sm_msg 1) example_cpu = Inr (1, c1, es1) \<and>
      AtomicSimpleCPU_handleMsg 9000 (sm_msg 2) c1 = Inr (1, c2, es2) \<and>
      ev_when (cpu_tickEvent c2) = 19000)"
proof -
  have p: "cycle_restore example_cpu * cpu_domain_period example_cpu = 10000"
    by (simp add: example_cpu_def)
  have "(9000 :: tick) \<le> 9000 + 10000" by simp
  then show ?thesis
    using cpu_power_cycle [OF example_cpu_ok, of 9000 3700, unfolded p] example_cpu_ok(1) by auto
qed

section \<open>Device hooks\<close>

lemma virtualDeviceRecover_exact:
  assumes "recover_time c = Fin 0" and small: "unat (ev_when (cpu_tickEvent c)) + unat d \<le> 2 ^ 53"
  shows "virtualDeviceRecover now d c =
     bindE (ev_reschedule now (ev_when (cpu_tickEvent c) + d) False (cpu_tickEvent c)) (\<lambda>e. Inr (c\<lparr>cpu_tickEvent := e\<rparr>))"
proof -
  let ?w = "ev_when (cpu_tickEvent c)"
  have n: "unat (?w + d) = unat ?w + unat d" using small by (intro unat_add_lt) simp
  have "int (unat ?w + unat d) \<le> int (2 ^ 53)" using small by (simp only: of_nat_le_iff)
  then have "uint ?w + uint d \<le> 2 ^ 53"
    by (simp only: uint_nat of_nat_add of_nat_power of_nat_numeral)
  moreover have "0 \<le> uint ?w" "0 \<le> uint d" by simp_all
  moreover have "uint (?w + d) = uint ?w + uint d" by (simp only: uint_nat n of_nat_add)
  ultimately have u: "uint ?w \<le> 2 ^ 53" "uint d \<le> 2 ^ 53" "uint (?w + d) \<le> 2 ^ 53"
    "uint (?w + d) = uint ?w + uint d"
    by linarith+
  have s: "d_sub (d_of_u64 ?w) (Fin 0) = d_of_u64 ?w"
    using u(1) by (simp add: d_sub_def d_add_def d_of_u64_exact d_round_unsigned)
  have "(0 :: rat) \<le> of_nat (unat d)" by (rule of_nat_0_le_iff)
  then have "(0 :: rat) \<le> unsigned d" by (simp only: of_nat_unat)
  then have m: "(if d_ge (Fin 0) (d_of_u64 d) then Fin 0 else d_of_u64 d) = d_of_u64 d"
    using u(2) by (auto simp: d_of_u64_exact d_le_def)
  have a: "d_add (d_of_u64 ?w) (d_of_u64 d) = d_of_u64 (?w + d)"
  proof -
    have "\<bar>uint (?w + d)\<bar> \<le> 2 ^ 53" using u(3) by simp
    then have "d_round (of_int (uint ?w) + of_int (uint d)) = Fin (of_int (uint (?w + d)))"
      using d_round_of_int [of "uint (?w + d)"] by (simp only: u(4) of_int_add)
    then show ?thesis by (simp only: d_add_def d_of_u64_exact [OF u(1)] d_of_u64_exact [OF u(2)]
        d_of_u64_exact [OF u(3)] double.case)
  qed
  show ?thesis
    by (simp only: virtualDeviceRecover_def assms(1) s m a u64_of_d_of_u64 [OF u(1)] u64_of_d_of_u64 [OF u(3)]
        bindE_simps)
qed

lemma virtualDeviceRecover_eq:
  assumes "recover_time c = Fin 0" "scheduled (cpu_tickEvent c)" "now \<le> ev_when (cpu_tickEvent c)"
    and "unat (ev_when (cpu_tickEvent c)) + unat d \<le> 2 ^ 53"
  shows "virtualDeviceRecover now d c =
     Inr (c\<lparr>cpu_tickEvent := (cpu_tickEvent c)\<lparr>ev_when := ev_when (cpu_tickEvent c) + d\<rparr>\<rparr>)"
proof -
  have "unat (ev_when (cpu_tickEvent c) + d) = unat (ev_when (cpu_tickEvent c)) + unat d"
    using assms(4) by (intro unat_add_lt) simp
  then have "now \<le> ev_when (cpu_tickEvent c) + d" using assms(3) by (simp add: word_le_nat_alt)
  then show ?thesis using assms(2) by (simp add: virtualDeviceRecover_exact [OF assms(1,4)] ev_reschedule_def)
qed

text \<open>A CPU without a pending tick cannot be told to wait, and cannot lose its power.\<close>

lemma virtualDeviceRecover_unscheduled:
  assumes "recover_time c = Fin 0" "unat (ev_when (cpu_tickEvent c)) + unat d \<le> 2 ^ 53" "\<not> scheduled (cpu_tickEvent c)"
  shows "virtualDeviceRecover now d c = Inl Assert_Failed"
  using assms(3) by (simp add: virtualDeviceRecover_exact [OF assms(1,2)] ev_reschedule_def assertE_def)

lemma cpu_power_off_unscheduled:
  assumes "cpu_clock_ok c" "\<not> scheduled (cpu_tickEvent c)"
  shows "cpu_power_off now c = Inl Assert_Failed"
  using assms by (simp add: cpu_power_off_def cpu_clockPeriod_eq modE_def cpu_clock_ok_def Let_def assertE_def)

lemma recover_all:
  assumes "recover_time c = Fin 0" "scheduled (cpu_tickEvent c)" "now \<le> ev_when (cpu_tickEvent c)"
    and "unat (ev_when (cpu_tickEvent c)) + sum_list (map unat ds) \<le> 2 ^ 53"
  shows "foldE (virtualDeviceRecover now) ds c =
     Inr (c\<lparr>cpu_tickEvent := (cpu_tickEvent c)\<lparr>ev_when := ev_when (cpu_tickEvent c) + sum_list ds\<rparr>\<rparr>)"
  using assms
proof (induction ds arbitrary: c)
  case (Cons d ds)
  let ?w = "ev_when (cpu_tickEvent c)"
  have small: "unat ?w + unat d \<le> 2 ^ 53" using Cons.prems(4) by simp
  note e = virtualDeviceRecover_eq [OF Cons.prems(1-3) small]
  have n: "unat (?w + d) = unat ?w + unat d" using small by (intro unat_add_lt) simp
  then have "now \<le> ?w + d" using Cons.prems(3) by (simp add: word_le_nat_alt)
  moreover have "unat (?w + d) + sum_list (map unat ds) \<le> 2 ^ 53" using Cons.prems(4) n by simp
  ultimately show ?case using Cons.IH [of "c\<lparr>cpu_tickEvent := (cpu_tickEvent c)\<lparr>ev_when := ?w + d\<rparr>\<rparr>"]
      Cons.prems(1,2) e by (simp add: add.assoc)
qed simp

text \<open>
  C30: recovering devices one after the other makes the CPU wait for the sum of their delays. The
  member \<open>recover_time\<close>, documented as the maximum of the recovery times of devices that recover in
  parallel, is 0 from construction on and is only ever reset to 0, so \<open>virtualDeviceRecover\<close> postpones
  the tick by the full delay of each device (exactly, while ticks stay below \<open>2^53\<close>).
\<close>

theorem recover_delays_add_up:
  assumes "recover_time c = Fin 0" "scheduled (cpu_tickEvent c)" "now \<le> ev_when (cpu_tickEvent c)"
    and "unat (ev_when (cpu_tickEvent c)) + sum_list (map unat ds) \<le> 2 ^ 53"
  shows "\<exists>c'. foldE (virtualDeviceRecover now) ds c = Inr c' \<and> recover_time c' = Fin 0 \<and>
     unat (ev_when (cpu_tickEvent c')) = unat (ev_when (cpu_tickEvent c)) + sum_list (map unat ds)"
proof -
  have "unat (w + sum_list ds) = unat w + sum_list (map unat ds)"
    if "unat w + sum_list (map unat ds) \<le> 2 ^ 53" for w :: tick
    using that
  proof (induction ds arbitrary: w)
    case (Cons d ds)
    then have "unat (w + d) = unat w + unat d" by (intro unat_add_lt) simp
    then show ?case using Cons.IH [of "w + d"] Cons.prems by (simp add: add.assoc)
  qed simp
  then show ?thesis using recover_all [OF assms] assms(1,4) by simp
qed

theorem recover_delays_add_up_witness:
  "\<exists>c'. foldE (virtualDeviceRecover 3000) [100, 700, 200] example_cpu = Inr c' \<and>
     unat (ev_when (cpu_tickEvent c')) = 5000"
proof -
  have p: "recover_time example_cpu = Fin 0" "ev_when (cpu_tickEvent example_cpu) = 4000"
    by (simp_all add: example_cpu_def)
  have l: "3000 \<le> ev_when (cpu_tickEvent example_cpu)"
    "unat (ev_when (cpu_tickEvent example_cpu)) + sum_list (map unat [100, 700, 200 :: tick]) \<le> 2 ^ 53"
    by (simp_all add: p(2))
  show ?thesis using recover_delays_add_up [OF p(1) example_cpu_ok(2) l] by (auto simp: p(2))
qed

lemma virtualDeviceInterrupt_eq:
  assumes "cpu_clock_ok c" "scheduled (cpu_tickEvent c)" "now \<le> ev_when (cpu_tickEvent c)"
    and "unat (ev_when (cpu_tickEvent c)) + unat d + unat (cpu_domain_period c) < 2 ^ 64"
  shows "\<exists>c' k. virtualDeviceInterrupt now d c = Inr c' \<and>
     c' = c\<lparr>cpu_tickEvent := \<lparr>scheduled = True, ev_when = ev_when (cpu_tickEvent c')\<rparr>\<rparr> \<and>
     unat (ev_when (cpu_tickEvent c')) = unat (ev_when (cpu_tickEvent c)) + k * unat (cpu_domain_period c) \<and>
     unat d \<le> k * unat (cpu_domain_period c) \<and> k * unat (cpu_domain_period c) < unat d + unat (cpu_domain_period c)"
proof -
  let ?p = "cpu_domain_period c" and ?w = "ev_when (cpu_tickEvent c)"
  let ?d = "if d mod ?p \<noteq> 0 then d + (?p - d mod ?p) else d"
  have p: "0 < unat ?p" using assms(1) by (simp add: cpu_clock_ok_def unat_gt_0)
  define q m where "q = unat d div unat ?p" and "m = unat d mod unat ?p"
  define k where "k = (if m \<noteq> 0 then q + 1 else q)"
  have r: "unat (d mod ?p) = m" unfolding m_def by (rule unat_mod)
  have dm: "unat d = q * unat ?p + m" unfolding q_def m_def by (rule div_mult_mod_eq [symmetric])
  have ml: "m < unat ?p" using p by (simp add: m_def)
  have z: "(d mod ?p = 0) = (m = 0)" using r by (metis unat_eq_zero)
  have "unat (?p - d mod ?p) = unat ?p - m"
    using r ml by (subst unat_sub) (simp_all add: word_le_nat_alt)
  then have ud: "unat ?d = k * unat ?p"
    using dm ml assms(4) unat_add_lt [of d "?p - d mod ?p"] by (auto simp: k_def z)
  have kb: "unat d \<le> k * unat ?p" "k * unat ?p < unat d + unat ?p"
    using dm ml by (auto simp: k_def)
  have uw: "unat (?w + ?d) = unat ?w + k * unat ?p"
    using ud kb assms(4) unat_add_lt [of ?w ?d] by linarith
  then have "now \<le> ?w + ?d" using assms(3) by (simp add: word_le_nat_alt)
  then have "virtualDeviceInterrupt now d c = Inr (c\<lparr>cpu_tickEvent := \<lparr>scheduled = True, ev_when = ?w + ?d\<rparr>\<rparr>)"
    using assms(1,2) by (auto simp: virtualDeviceInterrupt_def cpu_clockPeriod_eq modE_def Let_def
        cpu_clock_ok_def ev_reschedule_def)
  then show ?thesis using uw kb by auto
qed

text \<open>
  C31: an interrupt postpones the CPU by whole cycles. \<open>virtualDeviceInterrupt\<close> moves the next tick by
  the smallest multiple of the clock period that covers the interrupt latency, so ticks stay aligned
  to the clock and a latency of 0 changes nothing.
\<close>

theorem interrupt_whole_cycles:
  assumes "cpu_clock_ok c" "scheduled (cpu_tickEvent c)" "now \<le> ev_when (cpu_tickEvent c)"
    and "unat (ev_when (cpu_tickEvent c)) + unat d + unat (cpu_domain_period c) < 2 ^ 64"
  shows "\<exists>c' k. virtualDeviceInterrupt now d c = Inr c' \<and>
     c' = c\<lparr>cpu_tickEvent := \<lparr>scheduled = True, ev_when = ev_when (cpu_tickEvent c')\<rparr>\<rparr> \<and>
     unat (ev_when (cpu_tickEvent c')) = unat (ev_when (cpu_tickEvent c)) + k * unat (cpu_domain_period c) \<and>
     unat d \<le> k * unat (cpu_domain_period c) \<and> k * unat (cpu_domain_period c) < unat d + unat (cpu_domain_period c)"
  using assms by (rule virtualDeviceInterrupt_eq)

theorem interrupt_whole_cycles_witness:
  "\<exists>c' k. virtualDeviceInterrupt 3000 700 example_cpu = Inr c' \<and>
     unat (ev_when (cpu_tickEvent c')) = 4000 + k * 500 \<and> 700 \<le> k * 500 \<and> k * 500 < (1200 :: nat)"
proof -
  have p: "ev_when (cpu_tickEvent example_cpu) = 4000" "cpu_domain_period example_cpu = 500"
    by (simp_all add: example_cpu_def)
  have l: "3000 \<le> ev_when (cpu_tickEvent example_cpu)"
    "unat (ev_when (cpu_tickEvent example_cpu)) + unat (700 :: tick) + unat (cpu_domain_period example_cpu) < 2 ^ 64"
    by (simp_all add: p)
  show ?thesis using interrupt_whole_cycles [OF example_cpu_ok l] by (auto simp: p)
qed

section \<open>Ticks\<close>

text \<open>The cycles one iteration stalls for: its stall ticks, rounded up to the clock period.\<close>

definition stall_cycles :: "atomic_cpu \<Rightarrow> iteration \<Rightarrow> nat" where
  "stall_cycles c it = (if it_fault it \<or> stall_ticks c it = 0 then 0
     else (unat (stall_ticks c it) + unat (cpu_domain_period c) - 1) div unat (cpu_domain_period c))"

definition stalls_fit :: "atomic_cpu \<Rightarrow> iteration \<Rightarrow> bool" where
  "stalls_fit c it \<longleftrightarrow> unat (stall_ticks c it) + unat (cpu_domain_period c) \<le> 2 ^ 64"

lemma iteration_latency_eq:
  assumes "cpu_clock_ok c" "stalls_fit c it"
    and "unat lat + stall_cycles c it * unat (cpu_domain_period c) < 2 ^ 64"
  shows "\<exists>l. iteration_latency c it lat = Inr l \<and> unat l = unat lat + stall_cycles c it * unat (cpu_domain_period c)"
proof (cases "it_fault it \<or> stall_ticks c it = 0")
  case False
  have "cpu_domain_period c \<noteq> 0" using assms(1) by (simp add: cpu_clock_ok_def)
  from divCeil_exact [OF this] assms(2) obtain n where
      n: "divCeil (stall_ticks c it) (cpu_domain_period c) = Inr n" "unat n = stall_cycles c it"
    using False unfolding stalls_fit_def stall_cycles_def by auto
  have m: "unat (n * cpu_domain_period c) = unat n * unat (cpu_domain_period c)"
    using assms(3) n(2) by (intro unat_mult_lt) simp
  then have "unat (lat + n * cpu_domain_period c) = unat lat + stall_cycles c it * unat (cpu_domain_period c)"
    using assms(3) n(2) unat_add_lt [of lat "n * cpu_domain_period c"] by simp
  then show ?thesis using False n(1) by (simp add: iteration_latency_def cpu_clockPeriod_eq [OF assms(1)])
qed (simp add: iteration_latency_def stall_cycles_def)

lemma stall_frame [simp]:
  "stall_cycles (c\<lparr>locked := l, cpu_status := st\<rparr>) = stall_cycles c"
  "stalls_fit (c\<lparr>locked := l, cpu_status := st\<rparr>) = stalls_fit c"
  "cpu_clock_ok (c\<lparr>locked := l, cpu_status := st\<rparr>) = cpu_clock_ok c"
  by (simp_all add: fun_eq_iff stall_cycles_def stalls_fit_def stall_ticks_def cpu_clock_ok_def)

lemma tick_loop_frame:
  "tick_loop i its lat c = Inr (r, c') \<Longrightarrow> cpu_tickEvent c' = cpu_tickEvent c"
proof (induction its arbitrary: i lat c)
  case Nil
  then show ?case by (auto simp: tick_loop.simps [of i "[]"] split: if_splits)
next
  case (Cons it its)
  then show ?case
    by (fastforce simp: tick_loop.simps [of i "it # its"] Let_def bindE_Inr_iff split: if_splits)
qed

lemma tick_loop_latency:
  assumes "cpu_clock_ok c" "\<forall>it \<in> set its. stalls_fit c it" "tick_loop i its lat c = Inr (Some l, c')"
    and "unat lat + sum_list (map (stall_cycles c) its) * unat (cpu_domain_period c) < 2 ^ 64"
  shows "\<exists>k lo st. k \<le> length its \<and> c' = c\<lparr>locked := lo, cpu_status := st\<rparr> \<and>
     unat l = unat lat + sum_list (map (stall_cycles c) (take k its)) * unat (cpu_domain_period c)"
  using assms
proof (induction its arbitrary: i lat c)
  case Nil
  then have "c' = c\<lparr>locked := locked c, cpu_status := cpu_status c\<rparr>" "l = lat"
    by (auto simp: tick_loop.simps [of i "[]"] split: if_splits)
  then show ?case by (intro exI [of _ 0] exI [of _ "locked c"] exI [of _ "cpu_status c"]) simp
next
  case (Cons it its)
  show ?case
  proof (cases "i < cpu_width c \<or> locked c")
    case False
    then have "c' = c\<lparr>locked := locked c, cpu_status := cpu_status c\<rparr>" "l = lat"
      using Cons.prems(3) by (auto simp: tick_loop.simps [of i "it # its"])
    then show ?thesis by (intro exI [of _ 0] exI [of _ "locked c"] exI [of _ "cpu_status c"]) simp
  next
    case True
    let ?c = "\<lambda>st. c\<lparr>locked := it_locked it, cpu_status := st\<rparr>"
    have "unat lat + stall_cycles c it * unat (cpu_domain_period c) < 2 ^ 64"
      using Cons.prems(4) by (simp add: distrib_right)
    then obtain lat' where lat': "iteration_latency c it lat = Inr lat'"
        "unat lat' = unat lat + stall_cycles c it * unat (cpu_domain_period c)"
      using iteration_latency_eq [OF Cons.prems(1), of it lat] Cons.prems(2) by auto
    from Cons.prems(3) True lat' obtain st where r: "tick_loop (Suc i) its lat' (?c st) = Inr (Some l, c')"
      by (auto simp: tick_loop.simps [of i "it # its"] Let_def split: if_splits)
    have "unat lat' + sum_list (map (stall_cycles c) its) * unat (cpu_domain_period c) < 2 ^ 64"
      using Cons.prems(4) lat'(2) by (simp add: distrib_right)
    then obtain k lo st' where "k \<le> length its" "c' = ?c st\<lparr>locked := lo, cpu_status := st'\<rparr>"
        "unat l = unat lat' + sum_list (map (stall_cycles c) (take k its)) * unat (cpu_domain_period c)"
      using Cons.IH [OF _ _ r] Cons.prems(1,2) by auto
    then show ?thesis using lat'(2)
      by (intro exI [of _ "Suc k"] exI [of _ lo] exI [of _ st']) (simp add: distrib_right)
  qed
qed

lemma divCeil_multiple:
  assumes "p \<noteq> 0" "unat l = n * unat p" "n * unat p + unat p \<le> 2 ^ 64"
  shows "divCeil l p = Inr (of_nat n)"
proof -
  obtain q where q: "divCeil l p = Inr q" "unat l \<le> unat q * unat p" "unat q * unat p < unat l + unat p"
    using divCeil_exact [OF assms(1)] assms(2,3) by metis
  have "0 < unat p" using assms(1) by (simp add: unat_gt_0)
  then have "unat q = n"
    using q(2,3) assms(2) by (metis add.commute le_antisym less_Suc_eq_le mult_Suc mult_le_cancel2 mult_less_cancel2)
  then show ?thesis using q(1) by (metis of_nat_unat ucast_id)
qed

text \<open>
  C32: a tick takes a whole number of cycles, at least one, and is charged for exactly these. Whatever
  the instructions of the tick do, if the CPU stays running then its next tick is due
  \<open>max 1 s\<close> cycles later, where \<open>s\<close> is the number of cycles the executed iterations stalled, and the
  energy consumed is the active power times this number of cycles.
\<close>

theorem tick_whole_cycles:
  assumes ok: "cpu_clock_ok c" "\<forall>it \<in> set its. stalls_fit c it"
    and tick: "AtomicSimpleCPU_tick now drained its c = Inr (c', es)"
    and run: "\<not> scheduled (cpu_tickEvent c)" "scheduled (cpu_tickEvent c')"
    and small: "(sum_list (map (stall_cycles c) its) + 1) * unat (cpu_domain_period c) \<le> 2 ^ 53"
      "unat now + (sum_list (map (stall_cycles c) its) + 1) * unat (cpu_domain_period c) < 2 ^ 64"
  shows "\<exists>k n. k \<le> length its \<and> n = max 1 (sum_list (map (stall_cycles c) (take k its))) \<and>
     unat (ev_when (cpu_tickEvent c')) = unat now + n * unat (cpu_domain_period c) \<and>
     es = [(AtomicCPU_name, d_mul (power_active c) (d_of_u64 (of_nat n)))]"
proof -
  let ?p = "cpu_domain_period c" and ?S = "sum_list (map (stall_cycles c) its)"
  have p0: "?p \<noteq> 0" "0 < unat ?p" using ok(1) by (simp_all add: cpu_clock_ok_def unat_gt_0)
  obtain r c1 where l: "tick_loop 0 its 0 c = Inr (r, c1)"
    using tick by (auto simp: AtomicSimpleCPU_tick_def bindE_Inr_iff)
  have e1: "cpu_tickEvent c1 = cpu_tickEvent c" using tick_loop_frame [OF l] .
  then obtain lat where lat: "r = Some lat"
    using tick l run by (auto simp: AtomicSimpleCPU_tick_def tryCompleteDrain_def split: option.splits if_splits)
  have nd: "\<not> fst (tryCompleteDrain drained c1)"
    using tick l lat e1 run by (auto simp: AtomicSimpleCPU_tick_def tryCompleteDrain_def split: if_splits)
  have "unat (0 :: tick) + ?S * unat ?p < 2 ^ 64" using small(1) by (simp add: distrib_right)
  from tick_loop_latency [OF ok l [unfolded lat] this] obtain k lo st where
      k: "k \<le> length its" "c1 = c\<lparr>locked := lo, cpu_status := st\<rparr>"
      "unat lat = sum_list (map (stall_cycles c) (take k its)) * unat ?p" by auto
  define n where "n = max 1 (sum_list (map (stall_cycles c) (take k its)))"
  define L where "L = (if lat < ?p then ?p else lat)"
  have "sum_list (map (stall_cycles c) its) =
      sum_list (map (stall_cycles c) (take k its)) + sum_list (map (stall_cycles c) (drop k its))"
    by (metis append_take_drop_id map_append sum_list_append)
  then have n1: "n \<le> ?S + 1" by (simp add: n_def)
  have L: "unat L = n * unat ?p"
    using k(3) p0(2) by (cases "sum_list (map (stall_cycles c) (take k its))")
      (auto simp: L_def n_def word_less_nat_alt)
  have le: "unat L \<le> (?S + 1) * unat ?p" unfolding L using n1 by (rule mult_le_mono1)
  then have "int (unat L) \<le> int (2 ^ 53)" using small(1) by (simp only: of_nat_le_iff)
  then have uL: "uint L \<le> 2 ^ 53" by (simp only: uint_nat of_nat_power of_nat_numeral)
  have "unat ?p \<le> (?S + 1) * unat ?p" by simp
  then have "n * unat ?p + unat ?p \<le> 2 ^ 64" using le small(1) L by simp
  then have cyc: "cpu_ticksToCycles L c1 = Inr (of_nat n)"
    using divCeil_multiple [OF p0(1) L] cpu_ticksToCycles_eq [of c1 L] k(2) ok(1) uL by simp
  have "unat (now + L) = unat now + unat L" using le small(2) by (intro unat_add_lt) linarith
  moreover have "cpu_tickEvent c' = \<lparr>scheduled = True, ev_when = now + L\<rparr> \<and>
      es = [(AtomicCPU_name, d_mul (power_active c) (d_of_u64 (of_nat n)))]"
    using tick l lat nd cyc k(2) run ok(1)
    by (auto simp: AtomicSimpleCPU_tick_def tryCompleteDrain_def cpu_clockPeriod_eq L_def power_active_def
        Let_def bindE_Inr_iff split: if_splits)
  ultimately show ?thesis using k(1) L n_def by auto
qed

definition example_its :: "iteration list" where
  "example_its = [\<lparr>it_pc_suspend = False, it_fault = False, icache_access = True, icache_latency = 1200,
     dcache_access = False, dcache_latency = 0, it_suspend = False, it_locked = False\<rparr>]"

theorem tick_whole_cycles_witness:
  "\<exists>c' es n. AtomicSimpleCPU_tick 4000 False example_its
       (example_cpu\<lparr>cpu_tickEvent := \<lparr>scheduled = False, ev_when = 4000\<rparr>\<rparr>) = Inr (c', es) \<and>
     1 \<le> n \<and> n \<le> 3 \<and> unat (ev_when (cpu_tickEvent c')) = 4000 + n * 500"
proof -
  let ?c = "example_cpu\<lparr>cpu_tickEvent := \<lparr>scheduled = False, ev_when = 4000\<rparr>\<rparr>"
  have ok: "cpu_clock_ok ?c" by (simp add: cpu_clock_ok_def example_cpu_def)
  have s: "\<forall>it \<in> set example_its. stalls_fit ?c it" "map (stall_cycles ?c) example_its = [3]"
    by (simp_all add: example_its_def stalls_fit_def stall_cycles_def stall_ticks_def example_cpu_def)
  obtain c' es where t: "AtomicSimpleCPU_tick 4000 False example_its ?c = Inr (c', es)"
      "scheduled (cpu_tickEvent c')"
    using ok by (auto simp: AtomicSimpleCPU_tick_def example_its_def tick_loop.simps iteration_latency_def
        cpu_clockPeriod_eq cpu_ticksToCycles_eq divCeil_def stall_ticks_def example_cpu_def
        tryCompleteDrain_def ev_schedule_def Let_def)
  have p: "cpu_domain_period ?c = 500" "\<not> scheduled (cpu_tickEvent ?c)" by (simp_all add: example_cpu_def)
  obtain k n where "k \<le> length example_its" "n = max 1 (sum_list (map (stall_cycles ?c) (take k example_its)))"
      "unat (ev_when (cpu_tickEvent c')) = 4000 + n * 500"
    using tick_whole_cycles [OF ok s(1) t(1) p(2) t(2)] by (auto simp: s(2) p(1))
  moreover have "sum_list (map (stall_cycles ?c) (take k example_its)) \<le> 3"
    using s(2) by (cases k) (auto simp: example_its_def)
  ultimately show ?thesis using t(1) by (intro exI [of _ c'] exI [of _ es] exI [of _ n]) auto
qed

end
