(* ===== verification/Nvp_System.thy ===== *)
theory Nvp_System
  imports Energy_Mgmt_Props Virtual_Device_Props Atomic_CPU_Props
begin

text \<open>
  A whole system: the energy manager (object 0), the CPU (object 1) and any number of virtual
  devices (objects 2 and up), connected by their energy ports. The components are those of the
  theories \<open>Energy_Mgmt\<close>, \<open>Atomic_CPU\<close> and \<open>Virtual_Device\<close>; here the calls they hand out are
  carried out on each other. An event is serviced by \<open>sys_exec\<close>; which events the queue may service
  is \<open>sys_legal\<close>.
\<close>

unbundle bit_operations_syntax

section \<open>State and calls\<close>

record nvp_sys = energy_mgmt +
  sys_net :: energy_net
  sys_cpu :: atomic_cpu
  sys_devs :: "vdev list"

text \<open>Energy that an object consumes is signalled to the owner of the master port it is bound to.\<close>

definition mgmt_dispatch :: "tick \<Rightarrow> nvp_sys dispatch" where
  "mgmt_dispatch now ob msg s = (if ob = 0 then EnergyMgmt_handleMsg now msg s else Inl Undefined)"

definition sys_consume :: "tick \<Rightarrow> obj_id \<Rightarrow> consumption \<Rightarrow> nvp_sys \<Rightarrow> nvp_sys res" where
  "sys_consume now ob c s =
     bindE (EnergyObject_consumeEnergy (mgmt_dispatch now) (sys_net s) ob (fst c) (snd c) s) (\<lambda>(_, s). Inr s)"

text \<open>The calls of device \<open>i\<close>.\<close>

fun sys_call :: "tick \<Rightarrow> nat \<Rightarrow> vdev_call \<Rightarrow> nvp_sys \<Rightarrow> nvp_sys res" where
  "sys_call now i (Call_Interrupt t) s = bindE (virtualDeviceInterrupt now t (sys_cpu s)) (\<lambda>c. Inr (s\<lparr>sys_cpu := c\<rparr>))"
| "sys_call now i (Call_Recover t) s = bindE (virtualDeviceRecover now t (sys_cpu s)) (\<lambda>c. Inr (s\<lparr>sys_cpu := c\<rparr>))"
| "sys_call now i (Call_Start v) s = bindE (virtualDeviceStart v (sys_cpu s)) (\<lambda>c. Inr (s\<lparr>sys_cpu := c\<rparr>))"
| "sys_call now i (Call_End v) s = bindE (virtualDeviceEnd v (sys_cpu s)) (\<lambda>c. Inr (s\<lparr>sys_cpu := c\<rparr>))"
| "sys_call now i (Call_Consume sender e) s = sys_consume now (i + 2) (sender, e) s"

definition sys_dev :: "tick \<Rightarrow> nat \<Rightarrow> (vdev \<Rightarrow> (vdev \<times> vdev_call list) res) \<Rightarrow> nvp_sys \<Rightarrow> nvp_sys res" where
  "sys_dev now i f s =
     (if i < length (sys_devs s)
      then bindE (f (sys_devs s ! i)) (\<lambda>(d, cs). foldE (sys_call now i) cs (s\<lparr>sys_devs := (sys_devs s)[i := d]\<rparr>))
      else Inl Undefined)"

section \<open>Messages\<close>

definition sys_cpu_msg :: "tick \<Rightarrow> energy_msg \<Rightarrow> nvp_sys \<Rightarrow> (int \<times> nvp_sys) res" where
  "sys_cpu_msg now msg s =
     bindE (AtomicSimpleCPU_handleMsg now msg (sys_cpu s)) (\<lambda>(r, c, es).
     bindE (foldE (sys_consume now 1) es (s\<lparr>sys_cpu := c\<rparr>)) (\<lambda>s. Inr (r, s)))"

definition sys_dev_msg :: "tick \<Rightarrow> nat \<Rightarrow> energy_msg \<Rightarrow> nvp_sys \<Rightarrow> (int \<times> nvp_sys) res" where
  "sys_dev_msg now i msg s =
     (if i < length (sys_devs s)
      then bindE (VirtualDevice_handleMsg now msg (sys_devs s ! i)) (\<lambda>(r, d, cs).
           bindE (foldE (sys_call now i) cs (s\<lparr>sys_devs := (sys_devs s)[i := d]\<rparr>)) (\<lambda>s. Inr (r, s)))
      else Inl Undefined)"

text \<open>The virtual method \<open>handleMsg\<close> of the objects.\<close>

definition sys_dispatch :: "tick \<Rightarrow> nvp_sys dispatch" where
  "sys_dispatch now ob msg s =
     (if ob = 0 then EnergyMgmt_handleMsg now msg s
      else if ob = 1 then sys_cpu_msg now msg s
      else sys_dev_msg now (ob - 2) msg s)"

section \<open>Events\<close>

text \<open>
  The events of the system. \<open>Sys_Dev\<close> services an event of a device or, during a tick of the CPU,
  accesses it; the access comes before the rest of the tick, with which it shares no state.
\<close>

datatype sys_event =
    Sys_Harvest
  | Sys_Broadcast
  | Sys_CpuTick "iteration list"
  | Sys_Dev nat bool vdev_event

fun sys_exec :: "tick \<Rightarrow> sys_event \<Rightarrow> nvp_sys \<Rightarrow> nvp_sys res" where
  "sys_exec now Sys_Harvest s = energyHarvest now (s\<lparr>event_energy_harvest := ev_fire (event_energy_harvest s)\<rparr>)"
| "sys_exec now Sys_Broadcast s =
     broadcastMsg (\<lambda>msg s. MasterEnergyPort_broadcastMsg (sys_dispatch now) (sys_net s) 0 msg s) now
       (s\<lparr>event_msg := ev_fire (event_msg s)\<rparr>)"
| "sys_exec now (Sys_CpuTick its) s =
     (let c = sys_cpu s in
      bindE (AtomicSimpleCPU_tick now False its (c\<lparr>cpu_tickEvent := ev_fire (cpu_tickEvent c)\<rparr>)) (\<lambda>(c, es).
      foldE (sys_consume now 1) es (s\<lparr>sys_cpu := c\<rparr>)))"
| "sys_exec now (Sys_Dev i lo e) s = sys_dev now i (vdev_exec lo now e) s"

fun sys_exec_all :: "(tick \<times> sys_event) list \<Rightarrow> nvp_sys \<Rightarrow> nvp_sys res" where
  "sys_exec_all [] s = Inr s"
| "sys_exec_all ((now, e) # tr) s = bindE (sys_exec now e s) (sys_exec_all tr)"

section \<open>Start\<close>

text \<open>
  \<open>instantiate\<close> in \<open>python/m5/simulate.py\<close>: the objects are created and their energy ports bound in
  the order of the configuration script, the CPU first; then \<open>init\<close> runs on the manager, on its child
  the state machine, and on the devices, which register with the CPU; \<open>initState\<close> activates the
  thread. Objects are visited parent first and by name, as in the scripts of \<open>configs/example\<close>.
\<close>

definition sys_net_new :: "nat \<Rightarrow> energy_net" where
  "sys_net_new n =
     fold (MasterEnergyPort_bindSlave 0) [1..<n + 2] (\<lambda>i. EnergyObject_setSimObject i EnergyObject_new)"

definition sys_new :: "energy_mgmt \<Rightarrow> atomic_cpu \<Rightarrow> vdev list \<Rightarrow> nvp_sys" where
  "sys_new m c ds = energy_mgmt.extend m (nvp_sys.fields (sys_net_new (length ds)) c ds)"

definition sys_sm_init :: "tick \<Rightarrow> nvp_sys \<Rightarrow> nvp_sys res" where
  "sys_sm_init now s =
     (case state_machine s of
        Some (Simple_SM sm) \<Rightarrow>
          bindE (SimpleEnergySM_init (fout_ok s) sm) (\<lambda>(sm, ms).
          foldE (broadcastMsgAsEvent now) ms (s\<lparr>state_machine := Some (Simple_SM sm)\<rparr>))
      | _ \<Rightarrow> Inl Undefined)"

definition sys_dev_init :: "tick \<Rightarrow> nat \<Rightarrow> nvp_sys \<Rightarrow> nvp_sys res" where
  "sys_dev_init now i s =
     (if i < length (sys_devs s)
      then
        (let d = sys_devs s ! i;
             (id', c) = registerVDev (delay_recover d) (sys_cpu s)
         in
         bindE (VirtualDevice_init now id' d) (\<lambda>d.
         Inr (s\<lparr>sys_cpu := c, sys_devs := (sys_devs s)[i := d]\<rparr>)))
      else Inl Undefined)"

definition sys_boot :: "double list option \<Rightarrow> energy_mgmt \<Rightarrow> atomic_cpu \<Rightarrow> vdev list \<Rightarrow> nvp_sys res" where
  "sys_boot file m c ds =
     bindE (EnergyMgmt_init 0 file (sys_new m c ds)) (\<lambda>s.
     bindE (sys_sm_init 0 s) (\<lambda>s.
     bindE (foldE (sys_dev_init 0) [0..<length ds] s) (\<lambda>s.
     bindE (activateContext 0 (sys_cpu s)) (\<lambda>c.
     Inr (s\<lparr>sys_cpu := c\<rparr>)))))"

section \<open>Which events are serviced\<close>

text \<open>
  The queue services events when they are due, and a message before the tick of the CPU, which has a
  lower priority. The tick of the CPU neither suspends the thread nor runs past the exact range of
  doubles. An access stays inside the device; a program does not write \<open>INIT\<close> to a ready device, and
  a device that keeps a log can write it.
\<close>

definition cpu_due :: "tick \<Rightarrow> nvp_sys \<Rightarrow> bool" where
  "cpu_due now s \<longleftrightarrow> scheduled (cpu_tickEvent (sys_cpu s)) \<and> ev_when (cpu_tickEvent (sys_cpu s)) = now \<and>
     \<not> scheduled (event_msg s)"

definition access_legal :: "bool \<Rightarrow> packet \<Rightarrow> vdev \<Rightarrow> bool" where
  "access_legal lo pkt d \<longleftrightarrow> in_range pkt d \<and>
     (is_command pkt d \<longrightarrow> (in_mode Ready d \<longrightarrow> hd (pkt_data pkt) AND VDEV_INIT = 0) \<and>
        (need_log d \<longrightarrow> lo \<and> access_time d < 2 ^ 31 - 1))"

fun dev_event_legal :: "bool \<Rightarrow> tick \<Rightarrow> vdev_event \<Rightarrow> nvp_sys \<Rightarrow> vdev \<Rightarrow> bool" where
  "dev_event_legal lo now (Ev_Access pkt) s d \<longleftrightarrow> cpu_due now s \<and> access_legal lo pkt d"
| "dev_event_legal lo now (Ev_Msg msg) s d \<longleftrightarrow> False"
| "dev_event_legal lo now e s d \<longleftrightarrow> vdev_legal lo now e d"

fun sys_legal :: "tick \<Rightarrow> sys_event \<Rightarrow> nvp_sys \<Rightarrow> bool" where
  "sys_legal now Sys_Harvest s \<longleftrightarrow>
     scheduled (event_energy_harvest s) \<and> ev_when (event_energy_harvest s) = now \<and> now \<le> now + time_unit s"
| "sys_legal now Sys_Broadcast s \<longleftrightarrow> scheduled (event_msg s) \<and> ev_when (event_msg s) = now"
| "sys_legal now (Sys_CpuTick its) s \<longleftrightarrow> cpu_due now s \<and>
     (case tick_loop 0 its 0 ((sys_cpu s)\<lparr>cpu_tickEvent := ev_fire (cpu_tickEvent (sys_cpu s))\<rparr>) of
        Inr (Some l, c) \<Rightarrow> cpu_status c = Running \<and>
          unat now + max (unat l) (unat (cpu_domain_period (sys_cpu s))) \<le> 2 ^ 53
      | _ \<Rightarrow> False)"
| "sys_legal now (Sys_Dev i lo e) s \<longleftrightarrow> i < length (sys_devs s) \<and> dev_event_legal lo now e s (sys_devs s ! i)"

text \<open>Nothing is overdue, and adding the delays of the components does not leave the exact range.\<close>

definition dev_delays :: "vdev \<Rightarrow> nat" where
  "dev_delays d = unat (delay_set d) + unat (delay_self d) + unat (delay_cpu_interrupt d)"

definition sys_timely :: "tick \<Rightarrow> nvp_sys \<Rightarrow> bool" where
  "sys_timely now s \<longleftrightarrow> (let c = sys_cpu s in
     (scheduled (cpu_tickEvent c) \<longrightarrow> now \<le> ev_when (cpu_tickEvent c)) \<and>
     (\<forall>d \<in> set (sys_devs s). vdev_timely now d) \<and>
     unat now + unat (ev_when (cpu_tickEvent c)) + unat (cycle_restore c) * unat (cpu_domain_period c) +
       unat (cpu_domain_period c) + sum_list (map dev_delays (sys_devs s)) \<le> 2 ^ 53)"

fun sys_use :: "tick \<Rightarrow> (tick \<times> sys_event) list \<Rightarrow> nvp_sys \<Rightarrow> bool" where
  "sys_use t [] s \<longleftrightarrow> True"
| "sys_use t ((now, e) # tr) s \<longleftrightarrow> t \<le> now \<and> sys_timely now s \<and> sys_legal now e s \<and>
     (case sys_exec now e s of Inl _ \<Rightarrow> True | Inr s' \<Rightarrow> sys_use now tr s')"

end
