(* ===== verification/Nvp_System_Props.thy ===== *)
theory Nvp_System_Props
  imports Nvp_System
begin

text \<open>
  The system keeps its invariant: messages alternate and end in the state of the state machine, the
  CPU has a tick pending exactly while it is powered, and devices are down while it is not. From this
  follows that no event the queue services fails.
\<close>

unbundle bit_operations_syntax

section \<open>The manager\<close>

text \<open>The messages in the queue take the listeners from power state \<open>on\<close> to that of the machine.\<close>

fun msgs_ok :: "bool \<Rightarrow> int list \<Rightarrow> bool \<Rightarrow> bool" where
  "msgs_ok on [] final \<longleftrightarrow> on = final"
| "msgs_ok on (t # ts) final \<longleftrightarrow> t = (if on then 1 else 2) \<and> msgs_ok (\<not> on) ts final"

lemma msgs_ok_snoc: "msgs_ok on ts final \<Longrightarrow> msgs_ok on (ts @ [if final then 1 else 2]) (\<not> final)"
  by (induction ts arbitrary: on) auto

definition mgmt_ok :: "bool \<Rightarrow> nvp_sys \<Rightarrow> bool" where
  "mgmt_ok on s \<longleftrightarrow> fout_ok s \<and> (\<exists>sm. state_machine s = Some (Simple_SM sm) \<and>
     msgs_ok on (map msg_type (msg_togo s)) (simple_state sm = Simple_On))"

text \<open>What a consumption changes: energy, state machine, and the queue, whose event it may schedule.\<close>

definition mgmt_step :: "tick \<Rightarrow> nvp_sys \<Rightarrow> nvp_sys \<Rightarrow> bool" where
  "mgmt_step now s s' \<longleftrightarrow> (\<exists>e sm ms. s' = s\<lparr>energy_remained := e, state_machine := sm, msg_togo := msg_togo s @ ms,
     event_msg := (if msg_togo s = [] \<and> ms \<noteq> [] then \<lparr>scheduled = True, ev_when = now\<rparr> else event_msg s)\<rparr>)"

lemma mgmt_step_frame:
  assumes "mgmt_step now s s'"
  shows "sys_net s' = sys_net s" "sys_cpu s' = sys_cpu s" "sys_devs s' = sys_devs s" "fout_ok s' = fout_ok s"
    "event_energy_harvest s' = event_energy_harvest s" "time_unit s' = time_unit s"
    "\<exists>ms. msg_togo s' = msg_togo s @ ms" "msg_togo s \<noteq> [] \<Longrightarrow> event_msg s' = event_msg s"
    "(scheduled (event_msg s) \<longleftrightarrow> msg_togo s \<noteq> []) \<Longrightarrow> (scheduled (event_msg s') \<longleftrightarrow> msg_togo s' \<noteq> [])"
  using assms by (auto simp: mgmt_step_def)

lemma simple_update_cases:
  "\<exists>s' ms. SimpleEnergySM_update True s e = Inr (s', ms) \<and>
     (ms = [] \<and> s' = s \<or> simple_state s = Simple_On \<and> ms = [sm_msg 1] \<and> simple_state s' = Simple_Off \<or>
      simple_state s = Simple_Off \<and> ms = [sm_msg 2] \<and> simple_state s' = Simple_On)"
  by (auto simp: SimpleEnergySM_update_def Let_def)

lemma consumeEnergy_step:
  assumes "mgmt_ok on s" "msg_togo s = [] \<longrightarrow> \<not> scheduled (event_msg s)"
  shows "\<exists>s'. consumeEnergy now sender v s = Inr (1, s') \<and> mgmt_step now s s' \<and> mgmt_ok on s'"
proof -
  obtain sm where sm: "fout_ok s" "state_machine s = Some (Simple_SM sm)"
      "msgs_ok on (map msg_type (msg_togo s)) (simple_state sm = Simple_On)"
    using assms(1) by (auto simp: mgmt_ok_def)
  let ?e = "new_energy (Simple_SM sm) v s"
  obtain sm' ms where u: "SimpleEnergySM_update True sm ?e = Inr (sm', ms)"
      "ms = [] \<and> sm' = sm \<or> simple_state sm = Simple_On \<and> ms = [sm_msg 1] \<and> simple_state sm' = Simple_Off \<or>
       simple_state sm = Simple_Off \<and> ms = [sm_msg 2] \<and> simple_state sm' = Simple_On"
    using simple_update_cases by blast
  let ?s = "s\<lparr>energy_remained := ?e, state_machine := Some (Simple_SM sm'), dirty_patch := dirty_patch s\<rparr>"
  let ?t = "s\<lparr>energy_remained := ?e, state_machine := Some (Simple_SM sm'), msg_togo := msg_togo s @ ms,
     event_msg := (if msg_togo s = [] \<and> ms \<noteq> [] then \<lparr>scheduled = True, ev_when = now\<rparr> else event_msg s)\<rparr>"
  have f: "foldE (broadcastMsgAsEvent now) ms ?s = Inr ?t"
    using u(2) assms(2) by (cases "msg_togo s = []") (auto simp: broadcastMsgAsEvent_def ev_schedule_def Let_def)
  have "consumeEnergy now sender v s = Inr (1, ?t)"
    using f u(1) sm(1) by (simp add: consumeEnergy_alt [OF sm(2)] sm_update_def)
  moreover have "msgs_ok on (map msg_type (msg_togo ?t)) (simple_state sm' = Simple_On)"
    using u(2) sm(3) msgs_ok_snoc [OF sm(3)] by (auto simp: sm_msg_def)
  ultimately show ?thesis using sm(1) by (intro exI [of _ ?t]) (auto simp: mgmt_step_def mgmt_ok_def)
qed

section \<open>The ports\<close>

definition net_ok :: "nat \<Rightarrow> energy_net \<Rightarrow> bool" where
  "net_ok n net \<longleftrightarrow> ports_owned net \<and> slave_list (meport (net 0)) = [1..<n + 2] \<and>
     (\<forall>k. 1 \<le> k \<and> k < n + 2 \<longrightarrow> port_master (seport (net k)) = Some 0)"

lemma bind_all:
  assumes "ports_owned net" "slave_list (meport (net 0)) = xs"
    and "\<forall>k \<in> set xs. port_master (seport (net k)) = Some 0" "0 \<notin> set ys"
  shows "let net' = fold (MasterEnergyPort_bindSlave 0) ys net in
     ports_owned net' \<and> slave_list (meport (net' 0)) = xs @ ys \<and>
     (\<forall>k \<in> set (xs @ ys). port_master (seport (net' k)) = Some 0)"
  using assms
proof (induction ys arbitrary: xs net)
  case (Cons y ys)
  let ?n = "MasterEnergyPort_bindSlave 0 y net"
  have "slave_list (meport (?n 0)) = xs @ [y]" "\<forall>k \<in> set (xs @ [y]). port_master (seport (?n k)) = Some 0"
    using Cons.prems by (auto simp: MasterEnergyPort_bindSlave_def SlaveEnergyPort_setMaster_def)
  from Cons.IH [OF ports_owned_bindSlave [OF Cons.prems(1)] this] Cons.prems(4) show ?case by simp
qed simp

lemma net_ok_new: "net_ok n (sys_net_new n)"
proof -
  let ?net = "\<lambda>i. EnergyObject_setSimObject i EnergyObject_new"
  have "ports_owned ?net" "slave_list (meport (?net 0)) = []"
    by (simp_all add: ports_owned_def EnergyObject_setSimObject_def EnergyObject_new_def MasterEnergyPort_new_def)
  moreover define ys where "ys = [1..<n + 2]"
  then have "0 \<notin> set ys" "k \<in> set ys \<longleftrightarrow> 1 \<le> k \<and> k < n + 2" for k by auto
  ultimately show ?thesis using bind_all [of ?net "[]" ys]
    unfolding net_ok_def sys_net_new_def ys_def [symmetric] Let_def by simp
qed

lemma sys_consume_ok:
  assumes "net_ok n (sys_net s)" "1 \<le> ob" "ob < n + 2" "length sender < 100"
    and "mgmt_ok on s" "msg_togo s = [] \<longrightarrow> \<not> scheduled (event_msg s)"
  shows "\<exists>s'. sys_consume now ob (sender, e) s = Inr s' \<and> mgmt_step now s s' \<and> mgmt_ok on s'"
proof -
  have "ports_owned (sys_net s)" "port_master (seport (sys_net s ob)) = Some 0"
    using assms(1-3) by (auto simp: net_ok_def)
  note r = consumeEnergy_reaches_master [OF this assms(4), of "mgmt_dispatch now" e s]
  obtain s' where "consumeEnergy now sender e s = Inr (1, s')" "mgmt_step now s s'" "mgmt_ok on s'"
    using consumeEnergy_step [OF assms(5,6)] by blast
  then show ?thesis by (auto simp: sys_consume_def r mgmt_dispatch_def EnergyMgmt_handleMsg_def)
qed

section \<open>The invariant\<close>

definition cpu_good :: "atomic_cpu \<Rightarrow> bool" where
  "cpu_good c \<longleftrightarrow> cpu_clock_ok c \<and> cpu_status c = Running \<and> \<not> drain_manager c \<and> recover_time c = Fin 0"

lemma cpu_good_frame [simp]:
  "cpu_good (c\<lparr>cpu_tickEvent := e\<rparr>) = cpu_good c" "cpu_good (c\<lparr>status_vdev := st\<rparr>) = cpu_good c"
  "cpu_good (c\<lparr>tick_recover := t\<rparr>) = cpu_good c" "cpu_good (c\<lparr>locked := l\<rparr>) = cpu_good c"
  by (simp_all add: cpu_good_def cpu_clock_ok_def)

abbreviation powered :: "nvp_sys \<Rightarrow> bool" where
  "powered s \<equiv> scheduled (cpu_tickEvent (sys_cpu s))"

definition dev_good :: "tick \<Rightarrow> nat \<Rightarrow> vdev \<Rightarrow> bool" where
  "dev_good now i d \<longleftrightarrow> vdev_inv now d \<and> unat (vid d) = i \<and> length (dev_name d) < 100"

definition devs_ok :: "tick \<Rightarrow> nvp_sys \<Rightarrow> bool" where
  "devs_ok now s \<longleftrightarrow> (\<forall>i < length (sys_devs s). dev_good now i (sys_devs s ! i) \<and>
     (\<not> powered s \<longrightarrow> in_mode Down (sys_devs s ! i)) \<and> (in_mode Fresh (sys_devs s ! i) \<longrightarrow> msg_togo s \<noteq> []))"

definition sys_inv :: "tick \<Rightarrow> nvp_sys \<Rightarrow> bool" where
  "sys_inv now s \<longleftrightarrow> mgmt_ok (powered s) s \<and> (scheduled (event_msg s) \<longleftrightarrow> msg_togo s \<noteq> []) \<and> cpu_good (sys_cpu s) \<and>
     length (status_vdev (sys_cpu s)) = length (sys_devs s) \<and> net_ok (length (sys_devs s)) (sys_net s) \<and> devs_ok now s"

lemma sys_inv_later: "\<lbrakk> sys_inv t s; t \<le> now \<rbrakk> \<Longrightarrow> sys_inv now s"
  by (auto simp: sys_inv_def devs_ok_def dev_good_def intro: vdev_inv_later)

lemma sys_inv_step:
  assumes "sys_inv now s" "mgmt_step now s s'" "mgmt_ok (powered s) s'"
  shows "sys_inv now s'"
  using assms(1,3) mgmt_step_frame [OF assms(2)] by (auto simp: sys_inv_def devs_ok_def)

section \<open>Calls on the CPU\<close>

text \<open>What device calls leave of a powered CPU: a later tick, another status table.\<close>

definition cpu_moved :: "atomic_cpu \<Rightarrow> tick \<Rightarrow> atomic_cpu \<Rightarrow> bool" where
  "cpu_moved c w c' \<longleftrightarrow> (\<exists>st. length st = length (status_vdev c) \<and>
     c' = c\<lparr>cpu_tickEvent := \<lparr>scheduled = True, ev_when = w\<rparr>, status_vdev := st\<rparr>)"

lemma cpu_moved_simps:
  assumes "cpu_moved c w c'"
  shows "scheduled (cpu_tickEvent c')" "ev_when (cpu_tickEvent c') = w" "length (status_vdev c') = length (status_vdev c)"
    "cpu_good c' = cpu_good c" "cpu_clock_ok c' = cpu_clock_ok c" "recover_time c' = recover_time c"
    "cpu_domain_period c' = cpu_domain_period c" "cpu_moved c' w' c'' \<Longrightarrow> cpu_moved c w' c''"
  using assms by (auto simp: cpu_moved_def cpu_good_def cpu_clock_ok_def)

lemma cpu_moved_refl: "scheduled (cpu_tickEvent c) \<Longrightarrow> cpu_moved c (ev_when (cpu_tickEvent c)) c"
  unfolding cpu_moved_def by (intro exI [of _ "status_vdev c"]) (cases c, cases "cpu_tickEvent c", simp)

lemma call_status:
  assumes "unat v < length (status_vdev (sys_cpu s))" "powered s" "cs \<in> {Call_Start v, Call_End v}"
  shows "\<exists>c. sys_call now i cs s = Inr (s\<lparr>sys_cpu := c\<rparr>) \<and> cpu_moved (sys_cpu s) (ev_when (cpu_tickEvent (sys_cpu s))) c"
proof -
  have "cpu_tickEvent (sys_cpu s) = \<lparr>scheduled = True, ev_when = ev_when (cpu_tickEvent (sys_cpu s))\<rparr>"
    using assms(2) by (cases "cpu_tickEvent (sys_cpu s)") simp
  then have "cpu_moved (sys_cpu s) (ev_when (cpu_tickEvent (sys_cpu s))) ((sys_cpu s)\<lparr>status_vdev := (status_vdev (sys_cpu s))[unat v := b]\<rparr>)" for b
    unfolding cpu_moved_def by (intro exI [of _ "(status_vdev (sys_cpu s))[unat v := b]"]) (cases "sys_cpu s", simp)
  then show ?thesis using assms(1,3)
    by (auto simp: virtualDeviceStart_def virtualDeviceEnd_def set_status_vdev_def)
qed

lemma call_recover:
  assumes "cpu_good (sys_cpu s)" "powered s" "now \<le> ev_when (cpu_tickEvent (sys_cpu s))"
    and "unat (ev_when (cpu_tickEvent (sys_cpu s))) + unat t \<le> 2 ^ 53"
  shows "\<exists>w c. sys_call now i (Call_Recover t) s = Inr (s\<lparr>sys_cpu := c\<rparr>) \<and> cpu_moved (sys_cpu s) w c \<and> now \<le> w \<and>
    unat w = unat (ev_when (cpu_tickEvent (sys_cpu s))) + unat t"
proof -
  let ?c = "sys_cpu s" and ?w = "ev_when (cpu_tickEvent (sys_cpu s)) + t"
  have e: "(cpu_tickEvent ?c)\<lparr>ev_when := ?w\<rparr> = \<lparr>scheduled = True, ev_when = ?w\<rparr>"
    using assms(2) by (cases "cpu_tickEvent ?c") simp
  have "virtualDeviceRecover now t ?c = Inr (?c\<lparr>cpu_tickEvent := (cpu_tickEvent ?c)\<lparr>ev_when := ?w\<rparr>\<rparr>)"
    using assms by (intro virtualDeviceRecover_eq) (simp_all add: cpu_good_def)
  moreover have "cpu_moved ?c ?w (?c\<lparr>cpu_tickEvent := (cpu_tickEvent ?c)\<lparr>ev_when := ?w\<rparr>\<rparr>)"
    unfolding cpu_moved_def e by (intro exI [of _ "status_vdev ?c"]) (cases ?c, simp)
  moreover have "unat ?w = unat (ev_when (cpu_tickEvent ?c)) + unat t" using assms(4) by (intro unat_add_lt) simp
  moreover from this have "now \<le> ?w" using assms(3) by (simp add: word_le_nat_alt)
  ultimately show ?thesis by simp blast
qed

lemma call_interrupt:
  assumes "cpu_good (sys_cpu s)" "powered s" "now \<le> ev_when (cpu_tickEvent (sys_cpu s))"
    and "unat (ev_when (cpu_tickEvent (sys_cpu s))) + unat t + unat (cpu_domain_period (sys_cpu s)) \<le> 2 ^ 53"
  shows "\<exists>w c. sys_call now i (Call_Interrupt t) s = Inr (s\<lparr>sys_cpu := c\<rparr>) \<and> cpu_moved (sys_cpu s) w c \<and> now \<le> w \<and>
    (t = 0 \<longrightarrow> w = ev_when (cpu_tickEvent (sys_cpu s)))"
proof -
  let ?c = "sys_cpu s" let ?p = "cpu_domain_period ?c" and ?v = "ev_when (cpu_tickEvent (sys_cpu s))"
  have "unat ?v + unat t + unat ?p < 2 ^ 64" "cpu_clock_ok ?c" using assms(1,4) by (simp_all add: cpu_good_def)
  then obtain c k where c: "virtualDeviceInterrupt now t ?c = Inr c"
      "c = ?c\<lparr>cpu_tickEvent := \<lparr>scheduled = True, ev_when = ev_when (cpu_tickEvent c)\<rparr>\<rparr>"
      "unat (ev_when (cpu_tickEvent c)) = unat ?v + k * unat ?p" "k * unat ?p < unat t + unat ?p"
    using virtualDeviceInterrupt_eq [OF _ assms(2,3)] by blast
  have "cpu_moved ?c (ev_when (cpu_tickEvent c)) c"
    unfolding cpu_moved_def by (subst c(2), intro exI [of _ "status_vdev ?c"]) (cases ?c, simp)
  moreover have "now \<le> ev_when (cpu_tickEvent c)" using assms(3) c(3) by (simp add: word_le_nat_alt)
  moreover have "t = 0 \<longrightarrow> ev_when (cpu_tickEvent c) = ?v"
    using c(3,4) by (auto simp: unsigned_word_eqI)
  ultimately show ?thesis using c(1) by simp blast
qed

section \<open>Messages to the devices\<close>

declare in_mode.simps [simp del]

lemma vdev_params_good:
  "\<lbrakk> vdev_params d d'; vdev_inv now d'; dev_good t i d \<rbrakk> \<Longrightarrow> dev_good now i d'"
  by (simp add: dev_good_def vdev_params_def)

lemma dev_off:
  assumes "dev_good now i d" "vdev_timely now d"
  shows "\<exists>d'. vdev_power_off now d = Inr (d', []) \<and> dev_good now i d' \<and> in_mode Down d'"
proof -
  have v: "vdev_inv now d" using assms(1) by (simp add: dev_good_def)
  then obtain m where m: "in_mode m d" by (auto simp: vdev_inv_def)
  obtain d' where d': "vdev_power_off now d = Inr (d', [])" "in_mode Down d'" "vdev_params d d'"
    using power_off_mode [OF m] by blast
  moreover have "vdev_inv now d'" using exec_power_off [OF v assms(2)] d'(1) by auto
  ultimately show ?thesis using vdev_params_good assms(1) by blast
qed

lemma dev_on:
  assumes "dev_good now i d" "vdev_timely now d" "in_mode Down d"
  shows "\<exists>d' cs. vdev_power_on now d = Inr (d', cs) \<and> dev_good now i d' \<and> \<not> in_mode Fresh d' \<and>
    (cs = [] \<or> cs = [Call_Recover (delay_set d), Call_Start (vid d)])"
proof -
  have v: "vdev_inv now d" "now \<le> now + delay_set d" using assms(1,2) by (simp_all add: dev_good_def vdev_timely_def)
  obtain d' cs where d': "vdev_power_on now d = Inr (d', cs)" "vdev_params d d'"
      "in_mode (if need_recover d then Initing else Down) d'"
      "need_recover d \<longrightarrow> cs = [Call_Recover (delay_set d), Call_Start (vid d)]" "\<not> need_recover d \<longrightarrow> cs = []"
    using power_on_mode [OF assms(3) _ v(2)] by auto
  have "vdev_inv now d'" using exec_power_on [OF v(1) assms(2)] assms(3) d'(1) by auto
  moreover have "\<not> in_mode Fresh d'" using in_mode_unique [OF d'(3), of Fresh] by (auto split: if_splits)
  ultimately show ?thesis using d' vdev_params_good assms(1) by blast
qed

text \<open>Delivering to the devices \<open>is\<close>, in any order.\<close>

lemma deliver_off:
  assumes "\<forall>i \<in> set is. i < length (sys_devs s) \<and> dev_good now i (sys_devs s ! i) \<and> vdev_timely now (sys_devs s ! i)"
    and "distinct is" "msg_type msg = 1"
  shows "\<exists>rs ds. deliver_all (sys_dispatch now) (map (\<lambda>i. i + 2) is) msg s = Inr (rs, s\<lparr>sys_devs := ds\<rparr>) \<and>
    length ds = length (sys_devs s) \<and> (\<forall>i < length ds. if i \<in> set is then dev_good now i (ds ! i) \<and> in_mode Down (ds ! i)
      else ds ! i = sys_devs s ! i)"
  using assms
proof (induction "is" arbitrary: s)
  case Nil
  have "deliver_all (sys_dispatch now) (map (\<lambda>i. i + 2) []) msg s = Inr ([], s\<lparr>sys_devs := sys_devs s\<rparr>)" by simp
  then show ?case by (intro exI conjI) (assumption, simp_all)
next
  case (Cons i "is")
  have "dev_good now i (sys_devs s ! i)" "vdev_timely now (sys_devs s ! i)" using Cons.prems(1) by simp_all
  from dev_off [OF this] obtain d' where d': "vdev_power_off now (sys_devs s ! i) = Inr (d', [])" "dev_good now i d'"
    "in_mode Down d'" by blast
  let ?s = "s\<lparr>sys_devs := (sys_devs s)[i := d']\<rparr>"
  have h: "sys_dispatch now (i + 2) msg s = Inr (1, ?s)"
    using d'(1) Cons.prems(1,3) by (simp add: sys_dispatch_def sys_dev_msg_def VirtualDevice_handleMsg_def)
  have "\<forall>j \<in> set is. j < length (sys_devs ?s) \<and> dev_good now j (sys_devs ?s ! j) \<and> vdev_timely now (sys_devs ?s ! j)"
    using Cons.prems(1,2) by (auto simp: nth_list_update)
  moreover have "distinct is" using Cons.prems(2) by simp
  ultimately obtain rs ds where r:
    "deliver_all (sys_dispatch now) (map (\<lambda>i. i + 2) is) msg ?s = Inr (rs, ?s\<lparr>sys_devs := ds\<rparr>)"
    "length ds = length (sys_devs ?s)"
    "\<forall>j < length ds. if j \<in> set is then dev_good now j (ds ! j) \<and> in_mode Down (ds ! j) else ds ! j = sys_devs ?s ! j"
    using Cons.IH [of ?s] Cons.prems(3) by blast
  have "\<forall>j < length ds. if j \<in> set (i # is) then dev_good now j (ds ! j) \<and> in_mode Down (ds ! j)
      else ds ! j = sys_devs s ! j"
  proof (intro allI impI)
    fix j assume j: "j < length ds"
    with r(3) have "if j \<in> set is then dev_good now j (ds ! j) \<and> in_mode Down (ds ! j) else ds ! j = sys_devs ?s ! j" by blast
    then show "if j \<in> set (i # is) then dev_good now j (ds ! j) \<and> in_mode Down (ds ! j) else ds ! j = sys_devs s ! j"
      using j r(2) d'(2,3) by (cases "j = i") (auto split: if_splits)
  qed
  then show ?case using h r(1,2) by (intro exI [of _ "1 # rs"] exI [of _ ds]) simp
qed

lemma dev_on_calls:
  assumes "cs = [] \<or> cs = [Call_Recover t, Call_Start v]" "cpu_good (sys_cpu s)" "powered s"
    and "now \<le> ev_when (cpu_tickEvent (sys_cpu s))" "unat (ev_when (cpu_tickEvent (sys_cpu s))) + unat t \<le> 2 ^ 53"
    and "unat v < length (status_vdev (sys_cpu s))"
  shows "\<exists>w c. foldE (sys_call now i) cs s = Inr (s\<lparr>sys_cpu := c\<rparr>) \<and> cpu_moved (sys_cpu s) w c \<and> now \<le> w \<and>
    unat w \<le> unat (ev_when (cpu_tickEvent (sys_cpu s))) + unat t"
proof (cases "cs = []")
  case True
  have "cpu_moved (sys_cpu s) (ev_when (cpu_tickEvent (sys_cpu s))) (sys_cpu s)" using assms(3) by (rule cpu_moved_refl)
  then show ?thesis using True assms(4)
    by (intro exI [of _ "ev_when (cpu_tickEvent (sys_cpu s))"] exI [of _ "sys_cpu s"]) (cases s, simp)
next
  case False
  obtain w c where 1: "sys_call now i (Call_Recover t) s = Inr (s\<lparr>sys_cpu := c\<rparr>)" "cpu_moved (sys_cpu s) w c" "now \<le> w"
      "unat w = unat (ev_when (cpu_tickEvent (sys_cpu s))) + unat t" using call_recover [OF assms(2-5)] by blast
  obtain c' where 2: "sys_call now i (Call_Start v) (s\<lparr>sys_cpu := c\<rparr>) = Inr (s\<lparr>sys_cpu := c'\<rparr>)" "cpu_moved c w c'"
    using call_status [of v "s\<lparr>sys_cpu := c\<rparr>" "Call_Start v" now i] assms(6) cpu_moved_simps(1-3) [OF 1(2)] by auto
  have "foldE (sys_call now i) cs s = Inr (s\<lparr>sys_cpu := c'\<rparr>)"
    using False assms(1) 1(1) 2(1) by (auto simp del: sys_call.simps)
  then show ?thesis using 1(3,4) cpu_moved_simps(8) [OF 1(2) 2(2)]
    by (intro exI [of _ w] exI [of _ c']) simp
qed

lemma deliver_on:
  assumes "\<forall>i \<in> set is. i < length (sys_devs s) \<and> dev_good now i (sys_devs s ! i) \<and> vdev_timely now (sys_devs s ! i) \<and>
      in_mode Down (sys_devs s ! i)"
    and "distinct is" "msg_type msg = 2" "cpu_good (sys_cpu s)" "powered s" "now \<le> ev_when (cpu_tickEvent (sys_cpu s))"
    and "unat (ev_when (cpu_tickEvent (sys_cpu s))) + (\<Sum>i\<leftarrow>is. unat (delay_set (sys_devs s ! i))) \<le> 2 ^ 53"
    and "length (status_vdev (sys_cpu s)) = length (sys_devs s)"
  shows "\<exists>rs ds w c. deliver_all (sys_dispatch now) (map (\<lambda>i. i + 2) is) msg s = Inr (rs, s\<lparr>sys_devs := ds, sys_cpu := c\<rparr>) \<and>
    cpu_moved (sys_cpu s) w c \<and> length ds = length (sys_devs s) \<and>
    (\<forall>i < length ds. if i \<in> set is then dev_good now i (ds ! i) \<and> \<not> in_mode Fresh (ds ! i) else ds ! i = sys_devs s ! i)"
  using assms
proof (induction "is" arbitrary: s)
  case Nil
  let ?c = "sys_cpu s"
  have "deliver_all (sys_dispatch now) (map (\<lambda>i. i + 2) []) msg s = Inr ([], s\<lparr>sys_devs := sys_devs s, sys_cpu := ?c\<rparr>)"
    by simp
  moreover have "cpu_moved ?c (ev_when (cpu_tickEvent ?c)) ?c" using Nil.prems(5) by (rule cpu_moved_refl)
  ultimately show ?case by (intro exI conjI) (assumption, assumption, simp_all)
next
  case (Cons i "is")
  let ?d = "sys_devs s ! i" and ?v = "unat (ev_when (cpu_tickEvent (sys_cpu s)))"
  have "dev_good now i ?d" "vdev_timely now ?d" "in_mode Down ?d" using Cons.prems(1) by simp_all
  from dev_on [OF this] obtain d' cs where d': "vdev_power_on now ?d = Inr (d', cs)" "dev_good now i d'" "\<not> in_mode Fresh d'"
      "cs = [] \<or> cs = [Call_Recover (delay_set ?d), Call_Start (vid ?d)]" by blast
  let ?s = "s\<lparr>sys_devs := (sys_devs s)[i := d']\<rparr>"
  obtain w c where c: "foldE (sys_call now i) cs ?s = Inr (?s\<lparr>sys_cpu := c\<rparr>)" "cpu_moved (sys_cpu s) w c" "now \<le> w"
      "unat w \<le> ?v + unat (delay_set ?d)"
    using dev_on_calls [OF d'(4), of ?s now i] Cons.prems by (auto simp: dev_good_def)
  let ?t = "?s\<lparr>sys_cpu := c\<rparr>"
  have h: "sys_dispatch now (i + 2) msg s = Inr (1, ?t)"
    using d'(1) c(1) Cons.prems(1,3) by (simp add: sys_dispatch_def sys_dev_msg_def VirtualDevice_handleMsg_def)
  have p: "\<forall>j \<in> set is. j < length (sys_devs ?t) \<and> dev_good now j (sys_devs ?t ! j) \<and> vdev_timely now (sys_devs ?t ! j) \<and>
      in_mode Down (sys_devs ?t ! j)" using Cons.prems(1,2) by (auto simp: nth_list_update)
  have eq: "(\<Sum>j\<leftarrow>is. unat (delay_set (sys_devs ?t ! j))) = (\<Sum>j\<leftarrow>is. unat (delay_set (sys_devs s ! j)))"
    using Cons.prems(2) by (intro arg_cong [of _ _ sum_list] map_cong refl) (simp, metis nth_list_update_neq)
  have "unat w + (\<Sum>j\<leftarrow>is. unat (delay_set (sys_devs ?t ! j))) \<le> 2 ^ 53"
    unfolding eq using Cons.prems(7) c(4) by simp
  then have q: "unat (ev_when (cpu_tickEvent (sys_cpu ?t))) + (\<Sum>j\<leftarrow>is. unat (delay_set (sys_devs ?t ! j))) \<le> 2 ^ 53"
    "cpu_good (sys_cpu ?t)" "powered ?t" "now \<le> ev_when (cpu_tickEvent (sys_cpu ?t))"
    "length (status_vdev (sys_cpu ?t)) = length (sys_devs ?t)" "distinct is"
    using Cons.prems cpu_moved_simps [OF c(2)] c(3) by simp_all
  from Cons.IH [OF p q(6) Cons.prems(3) q(2-4,1,5)] obtain rs ds w' c' where
    r: "deliver_all (sys_dispatch now) (map (\<lambda>i. i + 2) is) msg ?t = Inr (rs, ?t\<lparr>sys_devs := ds, sys_cpu := c'\<rparr>)"
    "cpu_moved (sys_cpu ?t) w' c'" "length ds = length (sys_devs ?t)"
    "\<forall>j < length ds. if j \<in> set is then dev_good now j (ds ! j) \<and> \<not> in_mode Fresh (ds ! j) else ds ! j = sys_devs ?t ! j"
    by blast
  have "\<forall>j < length ds. if j \<in> set (i # is) then dev_good now j (ds ! j) \<and> \<not> in_mode Fresh (ds ! j)
      else ds ! j = sys_devs s ! j"
  proof (intro allI impI)
    fix j assume j: "j < length ds"
    with r(4) have "if j \<in> set is then dev_good now j (ds ! j) \<and> \<not> in_mode Fresh (ds ! j) else ds ! j = sys_devs ?t ! j" by blast
    then show "if j \<in> set (i # is) then dev_good now j (ds ! j) \<and> \<not> in_mode Fresh (ds ! j) else ds ! j = sys_devs s ! j"
      using j r(3) d'(2,3) by (cases "j = i") (auto split: if_splits)
  qed
  moreover have "cpu_moved (sys_cpu s) w' c'" using cpu_moved_simps(8) [OF c(2)] r(2) by simp
  ultimately show ?case using h r(1,3) by (intro exI [of _ "1 # rs"] exI [of _ ds] exI [of _ w'] exI [of _ c']) simp
qed

section \<open>A broadcast\<close>

lemma listeners: "[1..<n + 2] = 1 # map (\<lambda>i. i + 2) [0..<n]"
  using map_add_upt [of 2 n] by (simp add: upt_conv_Cons numeral_2_eq_2 del: upt_Suc)

lemma broadcast_eq:
  assumes "net_ok n (sys_net s)" "msg_togo s = msg # rest"
    and "deliver_all (sys_dispatch now) (1 # map (\<lambda>i. i + 2) [0..<n]) msg (s\<lparr>event_msg := ev_fire (event_msg s)\<rparr>) = Inr (rs, s2)"
    and "msg_togo s2 = msg # ts" "\<not> scheduled (event_msg s2)"
  shows "sys_exec now Sys_Broadcast s = Inr (s2\<lparr>msg_togo := ts,
    event_msg := (if ts = [] then event_msg s2 else \<lparr>scheduled = True, ev_when = now\<rparr>)\<rparr>)"
proof -
  have p: "ports_owned (sys_net s)" "slave_list (meport (sys_net s 0)) = 1 # map (\<lambda>i. i + 2) [0..<n]"
    using assms(1) unfolding net_ok_def listeners by simp_all
  have "\<exists>r. MasterEnergyPort_broadcastMsg (sys_dispatch now) (sys_net s) 0 msg (s\<lparr>event_msg := ev_fire (event_msg s)\<rparr>) = Inr (r, s2)"
    using assms(3) unfolding MasterEnergyPort_broadcastMsg_def p(2) broadcast_loop_deliver [OF p(1)] Let_def by (simp del: deliver_all.simps)
  then show ?thesis using assms(2,4,5) by (cases s2) (auto simp: broadcastMsg_def Let_def ev_schedule_def)
qed

lemma mgmt_ok_delivered:
  assumes "mgmt_ok on s" "msg_togo s = msg # ts"
  shows "mgmt_ok (\<not> on) (s\<lparr>msg_togo := ts, event_msg := e\<rparr>) \<and> msg_type msg = (if on then 1 else 2)"
  using assms by (auto simp: mgmt_ok_def)

lemma mgmt_ok_frame [simp]:
  "mgmt_ok on (s\<lparr>sys_cpu := c\<rparr>) = mgmt_ok on s" "mgmt_ok on (s\<lparr>sys_devs := ds\<rparr>) = mgmt_ok on s"
  "mgmt_ok on (s\<lparr>event_msg := e\<rparr>) = mgmt_ok on s" "mgmt_ok on (s\<lparr>event_energy_harvest := e\<rparr>) = mgmt_ok on s"
  "mgmt_ok on (s\<lparr>energy_harvest_data := xs\<rparr>) = mgmt_ok on s"
  by (simp_all add: mgmt_ok_def)

text \<open>The CPU hears a message first; it reacts and consumes energy.\<close>

lemma cpu_msg:
  assumes "AtomicSimpleCPU_handleMsg now msg (sys_cpu s) = Inr (r, c, [(AtomicCPU_name, e)])"
    and "net_ok n (sys_net s)" "mgmt_ok on s" "msg_togo s \<noteq> []"
  shows "\<exists>s'. sys_dispatch now 1 msg s = Inr (r, s') \<and> mgmt_step now (s\<lparr>sys_cpu := c\<rparr>) s' \<and> mgmt_ok on s'"
proof -
  obtain s' where "sys_consume now 1 (AtomicCPU_name, e) (s\<lparr>sys_cpu := c\<rparr>) = Inr s'" "mgmt_step now (s\<lparr>sys_cpu := c\<rparr>) s'"
      "mgmt_ok on s'"
    using sys_consume_ok [of n "s\<lparr>sys_cpu := c\<rparr>" 1 AtomicCPU_name on now e] assms(2-4) by (auto simp: AtomicCPU_name_def)
  then show ?thesis using assms(1) by (auto simp: sys_dispatch_def sys_cpu_msg_def)
qed

lemma cpu_msg_off:
  assumes "cpu_good c" "scheduled (cpu_tickEvent c)" "msg_type msg = 1"
  shows "\<exists>c' e. AtomicSimpleCPU_handleMsg now msg c = Inr (1, c', [(AtomicCPU_name, e)]) \<and> cpu_good c' \<and>
    \<not> scheduled (cpu_tickEvent c') \<and> status_vdev c' = status_vdev c"
proof -
  let ?c = "c\<lparr>tick_recover := 0\<rparr>"
  have "cpu_clock_ok ?c" "scheduled (cpu_tickEvent ?c)" using assms(1,2) by (simp_all add: cpu_good_def cpu_clock_ok_def)
  from cpu_power_off_ok [OF this, of now] obtain r e where
    "cpu_power_off now ?c = Inr (?c\<lparr>tick_recover := r, recover_time := Fin 0,
       cpu_tickEvent := (cpu_tickEvent c)\<lparr>scheduled := False\<rparr>\<rparr>, [(AtomicCPU_name, e)])" by auto
  then show ?thesis using assms(1,3) by (simp add: AtomicSimpleCPU_handleMsg_def cpu_good_def cpu_clock_ok_def)
qed

lemma cpu_msg_on:
  assumes "cpu_good c" "\<not> scheduled (cpu_tickEvent c)" "msg_type msg = 2"
    and "unat now + unat (cycle_restore c) * unat (cpu_domain_period c) \<le> 2 ^ 53"
  shows "\<exists>c' e. AtomicSimpleCPU_handleMsg now msg c = Inr (1, c', [(AtomicCPU_name, e)]) \<and> cpu_good c' \<and>
    scheduled (cpu_tickEvent c') \<and> status_vdev c' = status_vdev c \<and> now \<le> ev_when (cpu_tickEvent c') \<and>
    unat (ev_when (cpu_tickEvent c')) = unat now + unat (cycle_restore c) * unat (cpu_domain_period c)"
proof -
  let ?c = "c\<lparr>tick_recover := 0\<rparr>" and ?t = "cycle_restore c * cpu_domain_period c"
  have m: "unat ?t = unat (cycle_restore c) * unat (cpu_domain_period c)" using assms(4) by (intro unat_mult_lt) simp
  then have w: "unat (now + ?t) = unat now + unat ?t" using assms(4) by (intro unat_add_lt) simp
  then have le: "now \<le> now + ?t" by (simp add: word_le_nat_alt)
  have "cpu_clock_ok ?c" "\<not> scheduled (cpu_tickEvent ?c)" using assms(1,2) by (simp_all add: cpu_good_def cpu_clock_ok_def)
  from cpu_power_on_ok [OF this, of now] le have
    "cpu_power_on now ?c = Inr (?c\<lparr>tick_recover := ?t, cpu_tickEvent := \<lparr>scheduled = True, ev_when = now + ?t\<rparr>\<rparr>,
       [(AtomicCPU_name, d_mul (power_active ?c) (d_of_u64 (cycle_restore c)))])" by simp
  then show ?thesis using assms(1,3) le w m by (simp add: AtomicSimpleCPU_handleMsg_def cpu_good_def cpu_clock_ok_def)
qed

lemma timely_devs:
  assumes "sys_timely now s" "sys_inv now s"
  shows "\<forall>i \<in> set [0..<length (sys_devs s)]. i < length (sys_devs s) \<and> dev_good now i (sys_devs s ! i) \<and>
      vdev_timely now (sys_devs s ! i)"
    and "(\<Sum>i\<leftarrow>[0..<length (sys_devs s)]. unat (delay_set (sys_devs s ! i))) \<le> sum_list (map dev_delays (sys_devs s))"
proof -
  show "\<forall>i \<in> set [0..<length (sys_devs s)]. i < length (sys_devs s) \<and> dev_good now i (sys_devs s ! i) \<and>
      vdev_timely now (sys_devs s ! i)"
    using assms by (auto simp: sys_timely_def sys_inv_def devs_ok_def Let_def)
  have "map (\<lambda>i. unat (delay_set (sys_devs s ! i))) [0..<length (sys_devs s)] = map (\<lambda>d. unat (delay_set d)) (sys_devs s)"
    by (rule nth_equalityI) simp_all
  then show "(\<Sum>i\<leftarrow>[0..<length (sys_devs s)]. unat (delay_set (sys_devs s ! i))) \<le> sum_list (map dev_delays (sys_devs s))"
    by (simp only:) (rule sum_list_mono, simp add: dev_delays_def)
qed

lemma exec_broadcast_off:
  assumes "sys_inv now s" "sys_timely now s" "scheduled (event_msg s)" "powered s"
  shows "\<exists>s'. sys_exec now Sys_Broadcast s = Inr s' \<and> sys_inv now s'"
proof -
  let ?n = "length (sys_devs s)" and ?s = "s\<lparr>event_msg := ev_fire (event_msg s)\<rparr>"
  have i: "mgmt_ok True s" "msg_togo s \<noteq> []" "cpu_good (sys_cpu s)" "length (status_vdev (sys_cpu s)) = ?n"
      "net_ok ?n (sys_net s)" using assms(1,3,4) by (auto simp: sys_inv_def)
  obtain msg rest where m: "msg_togo s = msg # rest" using i(2) by (cases "msg_togo s") auto
  have t: "msg_type msg = 1" using mgmt_ok_delivered [OF i(1) m] by simp
  obtain c e where c: "AtomicSimpleCPU_handleMsg now msg (sys_cpu s) = Inr (1, c, [(AtomicCPU_name, e)])" "cpu_good c"
      "\<not> scheduled (cpu_tickEvent c)" "status_vdev c = status_vdev (sys_cpu s)"
    using cpu_msg_off [OF i(3) assms(4) t] by blast
  obtain s1 where s1: "sys_dispatch now 1 msg ?s = Inr (1, s1)" "mgmt_step now (?s\<lparr>sys_cpu := c\<rparr>) s1" "mgmt_ok True s1"
    using cpu_msg [of now msg ?s 1 c e ?n True] c(1) i(1,2,5) by auto
  note f = mgmt_step_frame [OF s1(2)]
  have d: "\<forall>i \<in> set [0..<?n]. i < length (sys_devs s1) \<and> dev_good now i (sys_devs s1 ! i) \<and> vdev_timely now (sys_devs s1 ! i)"
    using timely_devs(1) [OF assms(2,1)] f(3) by simp
  obtain rs ds where ds: "deliver_all (sys_dispatch now) (map (\<lambda>i. i + 2) [0..<?n]) msg s1 = Inr (rs, s1\<lparr>sys_devs := ds\<rparr>)"
      "length ds = ?n" "\<forall>i < ?n. dev_good now i (ds ! i) \<and> in_mode Down (ds ! i)"
    using deliver_off [OF d distinct_upt t] f(3) by auto
  obtain ts where ts: "msg_togo s1 = msg # ts" using f(7) m by auto
  let ?s3 = "s1\<lparr>sys_devs := ds, msg_togo := ts, event_msg := (if ts = [] then event_msg s1 else \<lparr>scheduled = True, ev_when = now\<rparr>)\<rparr>"
  have e: "event_msg s1 = ev_fire (event_msg s)" using f(8) m by simp
  have "sys_exec now Sys_Broadcast s = Inr ?s3"
    using broadcast_eq [OF i(5) m, where rs = "1 # rs" and ?s2.0 = "s1\<lparr>sys_devs := ds\<rparr>"] s1(1) ds(1) ts e by simp
  moreover have "mgmt_ok False ?s3" using mgmt_ok_delivered [of True "s1\<lparr>sys_devs := ds\<rparr>" msg ts] s1(3) ts by simp
  moreover have "\<not> in_mode Fresh (ds ! i)" if "i < ?n" for i using ds(3) that in_mode_unique [of Down _ Fresh] by blast
  ultimately show ?thesis using ds(2,3) c(2-4) i(4,5) f(1,2) e by (auto simp: sys_inv_def devs_ok_def)
qed

lemma exec_broadcast_on:
  assumes "sys_inv now s" "sys_timely now s" "scheduled (event_msg s)" "\<not> powered s"
  shows "\<exists>s'. sys_exec now Sys_Broadcast s = Inr s' \<and> sys_inv now s'"
proof -
  let ?n = "length (sys_devs s)" and ?s = "s\<lparr>event_msg := ev_fire (event_msg s)\<rparr>"
  have i: "mgmt_ok False s" "msg_togo s \<noteq> []" "cpu_good (sys_cpu s)" "length (status_vdev (sys_cpu s)) = ?n"
      "net_ok ?n (sys_net s)" using assms(1,3,4) by (auto simp: sys_inv_def)
  obtain msg rest where m: "msg_togo s = msg # rest" using i(2) by (cases "msg_togo s") auto
  have t: "msg_type msg = 2" using mgmt_ok_delivered [OF i(1) m] by simp
  have room: "unat now + unat (cycle_restore (sys_cpu s)) * unat (cpu_domain_period (sys_cpu s)) +
      sum_list (map dev_delays (sys_devs s)) \<le> 2 ^ 53" using assms(2) by (simp add: sys_timely_def Let_def)
  then have "unat now + unat (cycle_restore (sys_cpu s)) * unat (cpu_domain_period (sys_cpu s)) \<le> 2 ^ 53" by simp
  from cpu_msg_on [OF i(3) assms(4) t this] obtain c e where
    c: "AtomicSimpleCPU_handleMsg now msg (sys_cpu s) = Inr (1, c, [(AtomicCPU_name, e)])" "cpu_good c"
      "scheduled (cpu_tickEvent c)" "status_vdev c = status_vdev (sys_cpu s)" "now \<le> ev_when (cpu_tickEvent c)"
      "unat (ev_when (cpu_tickEvent c)) = unat now + unat (cycle_restore (sys_cpu s)) * unat (cpu_domain_period (sys_cpu s))"
    by blast
  obtain s1 where s1: "sys_dispatch now 1 msg ?s = Inr (1, s1)" "mgmt_step now (?s\<lparr>sys_cpu := c\<rparr>) s1" "mgmt_ok False s1"
    using cpu_msg [of now msg ?s 1 c e ?n False] c(1) i(1,2,5) by auto
  note f = mgmt_step_frame [OF s1(2)]
  have d: "\<forall>i \<in> set [0..<?n]. i < length (sys_devs s1) \<and> dev_good now i (sys_devs s1 ! i) \<and> vdev_timely now (sys_devs s1 ! i) \<and>
      in_mode Down (sys_devs s1 ! i)"
    using timely_devs(1) [OF assms(2,1)] f(3) assms(1,4) by (simp add: sys_inv_def devs_ok_def)
  have r: "unat (ev_when (cpu_tickEvent (sys_cpu s1))) + (\<Sum>i\<leftarrow>[0..<?n]. unat (delay_set (sys_devs s1 ! i))) \<le> 2 ^ 53"
    using timely_devs(2) [OF assms(2,1)] room c(6) f(2,3) by simp
  obtain rs ds w c' where ds: "deliver_all (sys_dispatch now) (map (\<lambda>i. i + 2) [0..<?n]) msg s1 =
      Inr (rs, s1\<lparr>sys_devs := ds, sys_cpu := c'\<rparr>)" "cpu_moved c w c'" "length ds = ?n"
      "\<forall>i < ?n. dev_good now i (ds ! i) \<and> \<not> in_mode Fresh (ds ! i)"
    using deliver_on [OF d distinct_upt t _ _ _ r] f(2,3) c(2-5) i(4) by auto
  obtain ts where ts: "msg_togo s1 = msg # ts" using f(7) m by auto
  let ?s2 = "s1\<lparr>sys_devs := ds, sys_cpu := c'\<rparr>"
  let ?s3 = "?s2\<lparr>msg_togo := ts, event_msg := (if ts = [] then event_msg s1 else \<lparr>scheduled = True, ev_when = now\<rparr>)\<rparr>"
  have e: "event_msg s1 = ev_fire (event_msg s)" using f(8) m by simp
  have "sys_exec now Sys_Broadcast s = Inr ?s3"
    using broadcast_eq [OF i(5) m, where rs = "1 # rs" and ?s2.0 = ?s2] s1(1) ds(1) ts e by simp
  moreover have "mgmt_ok True ?s3" using mgmt_ok_delivered [of False ?s2 msg ts] s1(3) ts by simp
  ultimately show ?thesis using ds(3,4) cpu_moved_simps [OF ds(2)] c(2,4) i(4,5) f(1) e
    by (auto simp: sys_inv_def devs_ok_def)
qed

section \<open>The other events\<close>

lemma exec_harvest:
  assumes "sys_inv now s" "now \<le> now + time_unit s"
  shows "\<exists>s'. sys_exec now Sys_Harvest s = Inr s' \<and> sys_inv now s'"
proof -
  let ?s = "s\<lparr>event_energy_harvest := ev_fire (event_energy_harvest s)\<rparr>"
  have i: "sys_inv now ?s" using assms(1) by (simp add: sys_inv_def devs_ok_def)
  show ?thesis
  proof (cases "energy_harvest_data s = []")
    case True
    then show ?thesis using i by (simp add: energyHarvest_def)
  next
    case False
    have "mgmt_ok (powered ?s) ?s" "msg_togo ?s = [] \<longrightarrow> \<not> scheduled (event_msg ?s)" using i by (auto simp: sys_inv_def)
    from consumeEnergy_step [OF this, of now "''harvester''" "d_neg (last (energy_harvest_data s))"] obtain s' where
      s': "consumeEnergy now ''harvester'' (d_neg (last (energy_harvest_data s))) ?s = Inr (1, s')" "mgmt_step now ?s s'"
        "mgmt_ok (powered ?s) s'" by blast
    let ?t = "\<lambda>xs e. s'\<lparr>energy_harvest_data := xs, event_energy_harvest := e\<rparr>"
    have "sys_inv now (?t xs e)" for xs e
      using sys_inv_step [OF i s'(2,3)] by (simp add: sys_inv_def devs_ok_def)
    moreover have "\<exists>xs e. sys_exec now Sys_Harvest s = Inr (?t xs e)"
      using False s'(1) mgmt_step_frame(5,6) [OF s'(2)] assms(2) by (auto simp: energyHarvest_def Let_def ev_schedule_def)
    ultimately show ?thesis by blast
  qed
qed

lemma tick_loop_only:
  "tick_loop i its lat c = Inr (r, c') \<Longrightarrow> \<exists>lo st. c' = c\<lparr>locked := lo, cpu_status := st\<rparr>"
proof (induction its arbitrary: i lat c)
  case Nil
  then show ?case by (cases c) (auto simp: tick_loop.simps [of i "[]"] split: if_splits)
next
  case (Cons it its)
  then show ?case
    by (cases c) (fastforce simp: tick_loop.simps [of i "it # its"] Let_def bindE_Inr_iff split: if_splits)
qed

lemma exec_cpu_tick:
  assumes "sys_inv now s" "sys_timely now s" "sys_legal now (Sys_CpuTick its) s"
  shows "\<exists>s'. sys_exec now (Sys_CpuTick its) s = Inr s' \<and> sys_inv now s'"
proof -
  let ?c = "(sys_cpu s)\<lparr>cpu_tickEvent := ev_fire (cpu_tickEvent (sys_cpu s))\<rparr>" and ?p = "cpu_domain_period (sys_cpu s)"
  obtain l c1 where l: "tick_loop 0 its 0 ?c = Inr (Some l, c1)" "cpu_status c1 = Running"
      "unat now + max (unat l) (unat ?p) \<le> 2 ^ 53" "powered s"
    using assms(3) by (auto simp: cpu_due_def split: sum.splits option.splits)
  obtain lo where c1: "c1 = ?c\<lparr>locked := lo, cpu_status := Running\<rparr>" using tick_loop_only [OF l(1)] l(2) by auto
  have g: "cpu_good (sys_cpu s)" using assms(1) by (simp add: sys_inv_def)
  then have k: "cpu_clock_ok c1" "\<not> drain_manager c1" "\<not> scheduled (cpu_tickEvent c1)" "cpu_domain_period c1 = ?p"
    by (simp_all add: c1 cpu_good_def cpu_clock_ok_def)
  define lat where "lat = (if l < ?p then ?p else l)"
  have b: "unat now + unat lat \<le> 2 ^ 53" using l(3) by (auto simp: lat_def max_def split: if_splits)
  then have le: "now \<le> now + lat" by (simp add: word_le_nat_alt unat_add_lt)
  have "int (unat lat) \<le> int (2 ^ 53)" using b by (simp only: of_nat_le_iff)
  then have u: "uint lat \<le> 2 ^ 53" by (simp only: uint_nat of_nat_power of_nat_numeral)
  obtain n where n: "cpu_ticksToCycles lat c1 = Inr n"
    using cpu_ticksToCycles_eq [OF k(1) u] k(1) by (auto simp: divCeil_def cpu_clock_ok_def)
  let ?c2 = "c1\<lparr>cpu_tickEvent := (cpu_tickEvent c1)\<lparr>ev_when := now + lat, scheduled := True\<rparr>\<rparr>"
  let ?e = "d_mul (power_active c1) (d_of_u64 n)"
  have t: "AtomicSimpleCPU_tick now False its ?c = Inr (?c2, [(AtomicCPU_name, ?e)])"
    using l(1,2) k n le by (simp add: AtomicSimpleCPU_tick_def tryCompleteDrain_def cpu_clockPeriod_eq Let_def lat_def
        [symmetric] ev_schedule_def)
  let ?s = "s\<lparr>sys_cpu := ?c2\<rparr>"
  have i: "sys_inv now ?s" using assms(1) l(4) g by (auto simp: sys_inv_def devs_ok_def c1 cpu_good_def cpu_clock_ok_def)
  then obtain s' where "sys_consume now 1 (AtomicCPU_name, ?e) ?s = Inr s'" "mgmt_step now ?s s'" "mgmt_ok (powered ?s) s'"
    using sys_consume_ok [of "length (sys_devs s)" ?s 1 AtomicCPU_name "powered ?s" now ?e]
    by (auto simp: sys_inv_def AtomicCPU_name_def)
  then show ?thesis using t sys_inv_step [OF i] by (auto simp: Let_def)
qed

lemma sys_inv_moved:
  assumes "sys_inv now s" "powered s" "i < length (sys_devs s)" "dev_good now i d" "\<not> in_mode Fresh d"
    and "cpu_moved (sys_cpu s) w c"
  shows "sys_inv now (s\<lparr>sys_devs := (sys_devs s)[i := d], sys_cpu := c\<rparr>)"
  using assms(1-5) cpu_moved_simps [OF assms(6)] by (auto simp: sys_inv_def devs_ok_def nth_list_update)

lemma busy_powered:
  assumes "sys_inv now s" "i < length (sys_devs s)" "scheduled (event_init (sys_devs s ! i)) \<or> scheduled (event_interrupt (sys_devs s ! i))"
  shows "powered s"
  using assms by (auto simp: sys_inv_def devs_ok_def in_mode.simps)

lemma exec_dev_tick:
  assumes "sys_inv now s" "sys_timely now s" "i < length (sys_devs s)"
  shows "\<exists>s'. sys_exec now (Sys_Dev i lo Ev_Tick) s = Inr s' \<and> sys_inv now s'"
proof -
  let ?d = "sys_devs s ! i"
  have g: "dev_good now i ?d" "vdev_timely now ?d" using timely_devs(1) [OF assms(2,1)] assms(3) by auto
  obtain e v where x: "vdev_exec lo now Ev_Tick ?d = Inr (?d\<lparr>tickEvent := e\<rparr>, [Call_Consume (dev_name ?d) v])"
    using g(2) by (auto simp: VirtualDevice_tick_def ticksToCycles_def divCeil_def ev_schedule_def vdev_timely_def Let_def)
  have m: "in_mode m (?d\<lparr>tickEvent := e\<rparr>) = in_mode m ?d" for m by (rule in_mode_frame) simp_all
  then have g': "dev_good now i (?d\<lparr>tickEvent := e\<rparr>)" using g(1) by (simp add: dev_good_def vdev_inv_def)
  let ?s = "s\<lparr>sys_devs := (sys_devs s)[i := ?d\<lparr>tickEvent := e\<rparr>]\<rparr>"
  have inv: "sys_inv now ?s" using assms(1,3) g' m by (auto simp: sys_inv_def devs_ok_def nth_list_update)
  then obtain s' where "sys_consume now (i + 2) (dev_name ?d, v) ?s = Inr s'" "mgmt_step now ?s s'" "mgmt_ok (powered ?s) s'"
    using sys_consume_ok [of "length (sys_devs s)" ?s "i + 2" "dev_name ?d" "powered ?s" now v] g(1) assms(3)
    by (auto simp: sys_inv_def dev_good_def)
  then show ?thesis using x assms(3) sys_inv_step [OF inv] by (auto simp: sys_dev_def)
qed

lemma end_calls:
  assumes "cpu_good (sys_cpu s)" "powered s" "now \<le> ev_when (cpu_tickEvent (sys_cpu s))"
    and "unat (ev_when (cpu_tickEvent (sys_cpu s))) + unat t + unat (cpu_domain_period (sys_cpu s)) \<le> 2 ^ 53"
    and "unat v < length (status_vdev (sys_cpu s))"
  shows "\<exists>w c. foldE (sys_call now i) [Call_Interrupt t, Call_End v] s = Inr (s\<lparr>sys_cpu := c\<rparr>) \<and>
    cpu_moved (sys_cpu s) w c \<and> now \<le> w \<and> (t = 0 \<longrightarrow> w = ev_when (cpu_tickEvent (sys_cpu s)))"
proof -
  obtain w c where 1: "sys_call now i (Call_Interrupt t) s = Inr (s\<lparr>sys_cpu := c\<rparr>)" "cpu_moved (sys_cpu s) w c" "now \<le> w"
      "t = 0 \<longrightarrow> w = ev_when (cpu_tickEvent (sys_cpu s))" using call_interrupt [OF assms(1-4)] by blast
  obtain c' where 2: "sys_call now i (Call_End v) (s\<lparr>sys_cpu := c\<rparr>) = Inr (s\<lparr>sys_cpu := c'\<rparr>)" "cpu_moved c w c'"
    using call_status [of v "s\<lparr>sys_cpu := c\<rparr>" "Call_End v" now i] assms(5) cpu_moved_simps(1-3) [OF 1(2)] by auto
  have "foldE (sys_call now i) [Call_Interrupt t, Call_End v] s = Inr (s\<lparr>sys_cpu := c'\<rparr>)"
    using 1(1) 2(1) by (simp del: sys_call.simps)
  then show ?thesis using 1(3,4) cpu_moved_simps(8) [OF 1(2) 2(2)] by (intro exI [of _ w] exI [of _ c']) simp
qed

lemma dev_room:
  assumes "sys_timely now s" "i < length (sys_devs s)" "powered s"
  shows "unat (ev_when (cpu_tickEvent (sys_cpu s))) + dev_delays (sys_devs s ! i) + unat (cpu_domain_period (sys_cpu s)) \<le> 2 ^ 53"
    and "now \<le> ev_when (cpu_tickEvent (sys_cpu s))"
proof -
  have "dev_delays (sys_devs s ! i) \<le> sum_list (map dev_delays (sys_devs s))"
    using assms(2) by (intro member_le_sum_list) auto
  then show "unat (ev_when (cpu_tickEvent (sys_cpu s))) + dev_delays (sys_devs s ! i) + unat (cpu_domain_period (sys_cpu s)) \<le> 2 ^ 53"
    using assms(1) by (simp add: sys_timely_def Let_def)
  show "now \<le> ev_when (cpu_tickEvent (sys_cpu s))" using assms(1,3) by (simp add: sys_timely_def Let_def)
qed

lemma exec_dev_init:
  assumes "sys_inv now s" "sys_timely now s" "i < length (sys_devs s)" "vdev_legal lo now Ev_Init (sys_devs s ! i)"
  shows "\<exists>s'. sys_exec now (Sys_Dev i lo Ev_Init) s = Inr s' \<and> sys_inv now s'"
proof -
  let ?d = "sys_devs s ! i" and ?c = "sys_cpu s"
  have g: "dev_good now i ?d" "vdev_timely now ?d" "vdev_inv now ?d"
    using timely_devs(1) [OF assms(2,1)] assms(3) by (auto simp: dev_good_def)
  have p: "powered s" using busy_powered [OF assms(1,3)] assms(4) by simp
  note room = dev_room [OF assms(2,3) p]
  have m: "in_mode Initing ?d" using g(3) assms(4) in_mode_scheduled(1) by (auto simp: vdev_inv_def)
  have r: "delay_remained ?d \<le> delay_self ?d" "unat now + unat (delay_self ?d) < 2 ^ 64"
    using g(2,3) by (auto simp: vdev_inv_def vdev_timely_def)
  then have "unat now + unat (delay_remained ?d) < 2 ^ 64" by (simp add: word_le_nat_alt)
  then have "now \<le> now + delay_remained ?d" using word_le_add by blast
  from init_done_mode [OF m this] obtain d' cs where d': "vdev_exec lo now Ev_Init ?d = Inr (d', [Call_Interrupt 0, Call_End (vid ?d)] @ cs)"
      "vdev_params ?d d'" "in_mode (if delay_remained ?d > 0 then Working else Ready) d'"
      "cs = [] \<or> cs = [Call_Recover (delay_remained ?d), Call_Start (vid ?d)]" by auto
  have "vdev_inv now d'" using exec_init [OF g(3,2) assms(4)] d'(1) by auto
  then have gd: "dev_good now i d'" "\<not> in_mode Fresh d'"
    using vdev_params_good [OF d'(2) _ g(1)] in_mode_unique [OF d'(3), of Fresh] by (auto split: if_splits)
  let ?s = "s\<lparr>sys_devs := (sys_devs s)[i := d']\<rparr>"
  have c: "cpu_good ?c" "unat (vid ?d) < length (status_vdev ?c)" using assms(1,3) g(1) by (auto simp: sys_inv_def dev_good_def)
  obtain c1 where c1: "foldE (sys_call now i) [Call_Interrupt 0, Call_End (vid ?d)] ?s = Inr (?s\<lparr>sys_cpu := c1\<rparr>)"
      "cpu_moved ?c (ev_when (cpu_tickEvent ?c)) c1"
    using end_calls [of ?s now 0 "vid ?d" i] c p room by auto
  have "unat (delay_remained ?d) \<le> dev_delays ?d" using r(1) by (simp add: dev_delays_def word_le_nat_alt)
  then obtain w c2 where c2: "foldE (sys_call now i) cs (?s\<lparr>sys_cpu := c1\<rparr>) = Inr (?s\<lparr>sys_cpu := c2\<rparr>)" "cpu_moved c1 w c2"
    using dev_on_calls [OF d'(4), of "?s\<lparr>sys_cpu := c1\<rparr>" now i] cpu_moved_simps [OF c1(2)] c room by auto
  have "sys_exec now (Sys_Dev i lo Ev_Init) s = Inr (?s\<lparr>sys_cpu := c2\<rparr>)"
    using d'(1) assms(3) c1(1) c2(1) by (simp add: sys_dev_def foldE_append del: vdev_exec.simps foldE.simps append_Cons)
  then show ?thesis
    using sys_inv_moved [OF assms(1) p assms(3) gd cpu_moved_simps(8) [OF c1(2) c2(2)]] by auto
qed

lemma exec_dev_interrupt:
  assumes "sys_inv now s" "sys_timely now s" "i < length (sys_devs s)" "vdev_legal lo now Ev_Interrupt (sys_devs s ! i)"
  shows "\<exists>s'. sys_exec now (Sys_Dev i lo Ev_Interrupt) s = Inr s' \<and> sys_inv now s'"
proof -
  let ?d = "sys_devs s ! i" and ?c = "sys_cpu s"
  have g: "dev_good now i ?d" "vdev_inv now ?d" using timely_devs(1) [OF assms(2,1)] assms(3) by (auto simp: dev_good_def)
  have p: "powered s" using busy_powered [OF assms(1,3)] assms(4) by simp
  note room = dev_room [OF assms(2,3) p]
  have "in_mode Working ?d" using g(2) assms(4) in_mode_scheduled(2) by (auto simp: vdev_inv_def)
  from task_done_mode [OF this] obtain d' where
    d': "vdev_exec lo now Ev_Interrupt ?d = Inr (d', [Call_Interrupt (delay_cpu_interrupt ?d), Call_End (vid ?d)])"
      "vdev_params ?d d'" "in_mode Ready d'" by auto
  have "vdev_inv now d'" using exec_interrupt [OF g(2) assms(4)] d'(1) by auto
  then have gd: "dev_good now i d'" "\<not> in_mode Fresh d'"
    using vdev_params_good [OF d'(2) _ g(1)] in_mode_unique [OF d'(3), of Fresh] by auto
  let ?s = "s\<lparr>sys_devs := (sys_devs s)[i := d']\<rparr>"
  have c: "cpu_good ?c" "unat (vid ?d) < length (status_vdev ?c)" using assms(1,3) g(1) by (auto simp: sys_inv_def dev_good_def)
  have "unat (delay_cpu_interrupt ?d) \<le> dev_delays ?d" by (simp add: dev_delays_def)
  then obtain w c1 where c1: "foldE (sys_call now i) [Call_Interrupt (delay_cpu_interrupt ?d), Call_End (vid ?d)] ?s =
      Inr (?s\<lparr>sys_cpu := c1\<rparr>)" "cpu_moved ?c w c1"
    using end_calls [of ?s now "delay_cpu_interrupt ?d" "vid ?d" i] c p room by auto
  have "sys_exec now (Sys_Dev i lo Ev_Interrupt) s = Inr (?s\<lparr>sys_cpu := c1\<rparr>)"
    using d'(1) assms(3) c1(1) by (simp add: sys_dev_def del: vdev_exec.simps foldE.simps)
  then show ?thesis using sys_inv_moved [OF assms(1) p assms(3) gd c1(2)] by auto
qed

text \<open>An access changes neither name nor number of a device nor the flags \<open>CHAOS\<close> and \<open>READY\<close>.\<close>

lemma access_calls:
  assumes "vdev_exec lo now (Ev_Access pkt) d = Inr (d', cs)" "in_range pkt d"
  shows "vid d' = vid d \<and> dev_name d' = dev_name d \<and> bit (reg d') 3 = bit (reg d) 3 \<and> bit (reg d') 2 = bit (reg d) 2 \<and>
    (cs = [] \<or> cs = [Call_Start (vid d)])"
proof (cases "is_command pkt d")
  case True
  then show ?thesis using assms
    by (auto simp: VirtualDevice_access_def Let_def is_command_def bindE_Inr_iff access_init_def access_activate_def
        vdev_defs split: list.splits if_splits)
next
  case False
  have l: "unat (pkt_addr pkt - range_start d) + length (pkt_data pkt) \<le> length (pmem d)" using assms(2) by (simp add: in_range_def)
  have o: "pkt_cmd pkt = WriteReq \<Longrightarrow> pkt_addr pkt - range_start d \<noteq> 0" using False by (auto simp: is_command_def)
  show ?thesis
  proof (cases "pkt_cmd pkt = WriteReq")
    case True
    from pmem_write_ok [OF l o [OF True]] obtain t where "pmem_write d (pkt_addr pkt - range_start d) (pkt_data pkt) = Inr (d\<lparr>pmem_tail := t\<rparr>)"
      by metis
    then show ?thesis using True o [OF True] assms(1) by (auto simp: VirtualDevice_access_def Let_def)
  qed (use assms(1) in \<open>auto simp: VirtualDevice_access_def bindE_Inr_iff Let_def split: mem_cmd.splits\<close>)
qed

lemma exec_dev_access:
  assumes "sys_inv now s" "sys_timely now s" "i < length (sys_devs s)" "cpu_due now s" "access_legal lo pkt (sys_devs s ! i)"
  shows "\<exists>s'. sys_exec now (Sys_Dev i lo (Ev_Access pkt)) s = Inr s' \<and> sys_inv now s'"
proof -
  let ?d = "sys_devs s ! i" and ?c = "sys_cpu s"
  have g: "dev_good now i ?d" "vdev_timely now ?d" "vdev_inv now ?d"
    using timely_devs(1) [OF assms(2,1)] assms(3) by (auto simp: dev_good_def)
  have p: "powered s" using assms(4) by (simp add: cpu_due_def)
  have nf: "\<not> in_mode Fresh ?d" using assms(1,3,4) by (auto simp: sys_inv_def devs_ok_def cpu_due_def)
  then have "vdev_legal lo now (Ev_Access pkt) ?d" using assms(5) by (auto simp: access_legal_def)
  from exec_access [OF g(3,2) this] obtain d' cs where d': "vdev_exec lo now (Ev_Access pkt) ?d = Inr (d', cs)" "vdev_inv now d'"
    by blast
  have "in_range pkt ?d" using assms(5) by (simp add: access_legal_def)
  note a = access_calls [OF d'(1) this]
  have "bit (reg ?d) 3 \<or> bit (reg ?d) 2"
  proof -
    obtain m where "in_mode m ?d" using g(3) by (auto simp: vdev_inv_def)
    then show ?thesis using nf by (cases m) (auto simp: in_mode.simps)
  qed
  then have gd: "dev_good now i d'" "\<not> in_mode Fresh d'" using a d'(2) g(1) by (auto simp: dev_good_def in_mode.simps)
  let ?s = "s\<lparr>sys_devs := (sys_devs s)[i := d']\<rparr>" and ?w = "ev_when (cpu_tickEvent ?c)"
  have "unat (vid ?d) < length (status_vdev ?c)" using assms(1,3) g(1) by (auto simp: sys_inv_def dev_good_def)
  then obtain c where c: "sys_call now i (Call_Start (vid ?d)) ?s = Inr (?s\<lparr>sys_cpu := c\<rparr>)" "cpu_moved ?c ?w c"
    using call_status [of "vid ?d" ?s "Call_Start (vid ?d)" now i] p by auto
  have "sys_exec now (Sys_Dev i lo (Ev_Access pkt)) s = (if cs = [] then Inr (?s\<lparr>sys_cpu := ?c\<rparr>) else Inr (?s\<lparr>sys_cpu := c\<rparr>))"
    using d'(1) assms(3) c(1) a by (auto simp: sys_dev_def simp del: vdev_exec.simps sys_call.simps)
  then show ?thesis using sys_inv_moved [OF assms(1) p assms(3) gd c(2)] sys_inv_moved [OF assms(1) p assms(3) gd cpu_moved_refl [OF p]]
    by (auto split: if_splits)
qed

section \<open>Runs\<close>

lemma sys_step_safe:
  assumes "sys_inv t s" "t \<le> now" "sys_timely now s" "sys_legal now e s"
  shows "\<exists>s'. sys_exec now e s = Inr s' \<and> sys_inv now s'"
proof -
  have i: "sys_inv now s" using assms(1,2) by (rule sys_inv_later)
  show ?thesis
  proof (cases e)
    case Sys_Harvest
    then show ?thesis using exec_harvest [OF i] assms(4) by simp
  next
    case Sys_Broadcast
    then show ?thesis using exec_broadcast_off [OF i assms(3)] exec_broadcast_on [OF i assms(3)] assms(4)
      by (cases "powered s") auto
  next
    case (Sys_CpuTick its)
    then show ?thesis using exec_cpu_tick [OF i assms(3)] assms(4) by blast
  next
    case (Sys_Dev j lo ev)
    then have "j < length (sys_devs s)" "dev_event_legal lo now ev s (sys_devs s ! j)" using assms(4) by simp_all
    then show ?thesis unfolding Sys_Dev
      using exec_dev_access [OF i assms(3)] exec_dev_init [OF i assms(3)] exec_dev_interrupt [OF i assms(3)]
        exec_dev_tick [OF i assms(3)]
      by (cases ev) (simp_all del: sys_exec.simps vdev_legal.simps)
  qed
qed

lemma sys_run_safe:
  "\<lbrakk> sys_use t tr s; sys_inv t s \<rbrakk> \<Longrightarrow> \<exists>s' t'. sys_exec_all tr s = Inr s' \<and> sys_inv t' s'"
proof (induction tr arbitrary: t s)
  case (Cons x tr)
  obtain now e where x: "x = (now, e)" by (cases x)
  with Cons.prems have h: "t \<le> now" "sys_timely now s" "sys_legal now e s" by auto
  from sys_step_safe [OF Cons.prems(2) h] obtain s1 where s1: "sys_exec now e s = Inr s1" "sys_inv now s1" by blast
  then have "sys_use now tr s1" using Cons.prems(1) x by simp
  from Cons.IH [OF this s1(2)] s1(1) x show ?case by auto
qed auto

section \<open>Start\<close>

lemma harvest_effect:
  assumes "energyHarvest now s = Inr s'" "mgmt_ok on s" "scheduled (event_msg s) \<longleftrightarrow> msg_togo s \<noteq> []"
  shows "mgmt_ok on s' \<and> (scheduled (event_msg s') \<longleftrightarrow> msg_togo s' \<noteq> []) \<and> sys_net s' = sys_net s \<and> sys_cpu s' = sys_cpu s \<and>
    sys_devs s' = sys_devs s"
proof (cases "energy_harvest_data s = []")
  case True
  then show ?thesis using assms by (simp add: energyHarvest_def)
next
  case False
  obtain s1 where s1: "consumeEnergy now ''harvester'' (d_neg (last (energy_harvest_data s))) s = Inr (1, s1)" "mgmt_step now s s1"
      "mgmt_ok on s1" using consumeEnergy_step [OF assms(2)] assms(3) by blast
  then obtain xs e where "s' = s1\<lparr>energy_harvest_data := xs, event_energy_harvest := e\<rparr>"
    using False assms(1) by (auto simp: energyHarvest_def Let_def bindE_Inr_iff)
  then show ?thesis using mgmt_step_frame [OF s1(2)] s1(3) assms(3) by simp
qed

text \<open>Devices register in order and get their position as number.\<close>

definition dev_started :: "nat \<Rightarrow> vdev \<Rightarrow> bool" where
  "dev_started i d \<longleftrightarrow> dev_good 0 i d \<and> in_mode Fresh d"

lemma init_devs:
  assumes "foldE (sys_dev_init 0) [k..<n] s = Inr s'" "k \<le> n" "n = length (sys_devs s)" "n < 2 ^ 32"
    and "length (lat_vdev (sys_cpu s)) = k" "length (status_vdev (sys_cpu s)) = k"
    and "\<forall>i < n. (i < k \<longrightarrow> dev_started i (sys_devs s ! i)) \<and> in_mode Fresh (sys_devs s ! i) \<and> length (dev_name (sys_devs s ! i)) < 100"
  shows "\<exists>lv st ds. s' = s\<lparr>sys_cpu := (sys_cpu s)\<lparr>lat_vdev := lv, status_vdev := st\<rparr>, sys_devs := ds\<rparr> \<and> length st = n \<and>
    length ds = n \<and> (\<forall>i < n. dev_started i (ds ! i))"
  using assms
proof (induction "n - k" arbitrary: k s)
  case 0
  then have "s' = s" "k = n" by simp_all
  then show ?case using 0
    by (intro exI [of _ "lat_vdev (sys_cpu s)"] exI [of _ "status_vdev (sys_cpu s)"] exI [of _ "sys_devs s"]) simp
next
  case (Suc x)
  let ?d = "sys_devs s ! k"
  have k: "k < n" using Suc.hyps(2) by simp
  then have "[k..<n] = k # [Suc k..<n]" by (simp add: upt_conv_Cons)
  with Suc.prems(1) obtain s1 where s1: "sys_dev_init 0 k s = Inr s1" "foldE (sys_dev_init 0) [Suc k..<n] s1 = Inr s'"
    by (auto simp: bindE_Inr_iff)
  then obtain d where d: "VirtualDevice_init 0 (of_nat k) ?d = Inr d"
      "s1 = s\<lparr>sys_cpu := (sys_cpu s)\<lparr>lat_vdev := lat_vdev (sys_cpu s) @ [delay_recover ?d],
         status_vdev := status_vdev (sys_cpu s) @ [False]\<rparr>, sys_devs := (sys_devs s)[k := d]\<rparr>"
    using k Suc.prems(3,5) by (auto simp: sys_dev_init_def registerVDev_def Let_def bindE_Inr_iff)
  have f: "in_mode Fresh ?d" "length (dev_name ?d) < 100" using Suc.prems(7) k by auto
  have v: "vid d = of_nat k \<and> dev_name d = dev_name ?d \<and> in_mode Fresh d \<and> delay_self d = delay_self ?d"
    using d(1) f(1) by (auto simp: VirtualDevice_init_def Let_def bindE_Inr_iff in_mode.simps split: if_splits)
  have "unat (of_nat k :: u32) = k" using k Suc.prems(4) by (simp add: unat_of_nat)
  moreover have "vdev_inv 0 d" using v by (intro vdev_invI [of Fresh]) (auto simp: in_mode.simps)
  ultimately have g: "dev_started k d" using v f(2) by (simp add: dev_started_def dev_good_def)
  have "\<forall>i < n. (i < Suc k \<longrightarrow> dev_started i (sys_devs s1 ! i)) \<and> in_mode Fresh (sys_devs s1 ! i) \<and> length (dev_name (sys_devs s1 ! i)) < 100"
    using Suc.prems(3,7) k g v f(2) by (auto simp: d(2) nth_list_update less_Suc_eq)
  moreover have "x = n - Suc k" using Suc.hyps(2) by simp
  moreover have "Suc k \<le> n" "n = length (sys_devs s1)" "length (lat_vdev (sys_cpu s1)) = Suc k"
    "length (status_vdev (sys_cpu s1)) = Suc k" using k Suc.prems(3,5,6) by (simp_all add: d(2))
  ultimately obtain lv st ds where
    "s' = s1\<lparr>sys_cpu := (sys_cpu s1)\<lparr>lat_vdev := lv, status_vdev := st\<rparr>, sys_devs := ds\<rparr>" "length st = n"
    "length ds = n" "\<forall>i < n. dev_started i (ds ! i)"
    using Suc.hyps(1) [OF _ s1(2) _ _ Suc.prems(4)] by metis
  then show ?case by (intro exI [of _ lv] exI [of _ st] exI [of _ ds]) (simp add: d(2))
qed

lemma sys_new_fields [simp]:
  "sys_net (sys_new m c ds) = sys_net_new (length ds)" "sys_cpu (sys_new m c ds) = c" "sys_devs (sys_new m c ds) = ds"
  "state_machine (sys_new m c ds) = state_machine m" "msg_togo (sys_new m c ds) = msg_togo m"
  "event_msg (sys_new m c ds) = event_msg m" "fout_ok (sys_new m c ds) = fout_ok m"
  by (simp_all add: sys_new_def energy_mgmt.extend_def nvp_sys.fields_def)

lemma sm_init_effect:
  assumes "sys_sm_init now s = Inr s'" "msg_togo s = [] \<longrightarrow> \<not> scheduled (event_msg s)" "fout_ok s"
  shows "\<exists>sm e. s' = s\<lparr>state_machine := Some (Simple_SM sm), msg_togo := msg_togo s @ [sm_msg 1], event_msg := e\<rparr> \<and>
    simple_state sm = Simple_Off \<and> (msg_togo s = [] \<longrightarrow> scheduled e)"
proof -
  obtain sm where sm: "state_machine s = Some (Simple_SM sm)"
    using assms(1) by (auto simp: sys_sm_init_def split: option.splits energy_sm.splits)
  obtain sm' where "SimpleEnergySM_init True sm = Inr (sm', [sm_msg 1])" "simple_state sm' = Simple_Off"
    by (simp add: SimpleEnergySM_init_def Let_def)
  then obtain e where "s' = s\<lparr>state_machine := Some (Simple_SM sm'), msg_togo := msg_togo s @ [sm_msg 1], event_msg := e\<rparr>"
      "msg_togo s = [] \<longrightarrow> scheduled e"
    using assms sm by (cases "msg_togo s = []") (auto simp: sys_sm_init_def broadcastMsgAsEvent_def Let_def bindE_Inr_iff
        intro!: that [of "if msg_togo s = [] then (event_msg s)\<lparr>ev_when := now, scheduled := True\<rparr> else event_msg s"])
  then show ?thesis using \<open>simple_state sm' = Simple_Off\<close> by blast
qed

lemma cpu_activate:
  assumes "activateContext 0 c = Inr c'" "cpu_clock_ok c" "\<not> drain_manager c" "recover_time c = Fin 0"
  shows "cpu_good c' \<and> scheduled (cpu_tickEvent c') \<and> status_vdev c' = status_vdev c"
  using assms by (auto simp: activateContext_def bindE_Inr_iff cpu_good_def cpu_clock_ok_def)

lemma sys_boot_inv:
  assumes boot: "sys_boot file (EnergyMgmt_new leak mult unit (Some (Simple_SM (SimpleEnergySM_new off on lg))) h cap)
      (AtomicSimpleCPU_new par) (map (\<lambda>(p, sz). VirtualDevice_new p sz) ps) = Inr s"
    and "cpu_domain_period par \<noteq> 0" "uint (cpu_domain_period par) \<le> 2 ^ 53" "length ps < 2 ^ 32"
    and "\<forall>p \<in> set ps. length (dev_name (fst p)) < 100" "map msg_type (msg_togo s) = [1]"
  shows "sys_inv 0 s"
proof -
  let ?m = "EnergyMgmt_new leak mult unit (Some (Simple_SM (SimpleEnergySM_new off on lg))) h cap"
  let ?c = "AtomicSimpleCPU_new par" and ?ds = "map (\<lambda>(p, sz). VirtualDevice_new p sz) ps" and ?n = "length ps"
  obtain s1 s2 s3 c where b: "EnergyMgmt_init 0 file (sys_new ?m ?c ?ds) = Inr s1" "sys_sm_init 0 s1 = Inr s2"
      "foldE (sys_dev_init 0) [0..<?n] s2 = Inr s3" "activateContext 0 (sys_cpu s3) = Inr c" "s = s3\<lparr>sys_cpu := c\<rparr>"
    using boot by (auto simp: sys_boot_def bindE_Inr_iff)
  let ?s = "(sys_new ?m ?c ?ds)\<lparr>energy_harvest_data := readEnergyProfile file, energy_remained := Fin 0\<rparr>"
  have "mgmt_ok False ?s" "scheduled (event_msg ?s) \<longleftrightarrow> msg_togo ?s \<noteq> []"
    by (simp_all add: mgmt_ok_def EnergyMgmt_new_def SimpleEnergySM_new_def)
  from harvest_effect [OF b(1) [unfolded EnergyMgmt_init_def] this] have
    1: "fout_ok s1" "scheduled (event_msg s1) \<longleftrightarrow> msg_togo s1 \<noteq> []" "sys_net s1 = sys_net_new ?n" "sys_cpu s1 = ?c" "sys_devs s1 = ?ds"
    by (simp_all add: mgmt_ok_def)
  obtain sm e where 2: "s2 = s1\<lparr>state_machine := Some (Simple_SM sm), msg_togo := msg_togo s1 @ [sm_msg 1], event_msg := e\<rparr>"
      "simple_state sm = Simple_Off" "msg_togo s1 = [] \<longrightarrow> scheduled e"
    using sm_init_effect [OF b(2) _ 1(1)] 1(2) by blast
  have f2: "sys_net s2 = sys_net_new ?n" "sys_cpu s2 = ?c" "sys_devs s2 = ?ds" "msg_togo s2 = msg_togo s1 @ [sm_msg 1]"
      "state_machine s2 = Some (Simple_SM sm)" "fout_ok s2" "event_msg s2 = e"
    using 1 by (simp_all add: 2(1))
  have "dev_name (VirtualDevice_new p sz) = dev_name p" for p sz by (simp add: VirtualDevice_new_def)
  then have "\<forall>i < ?n. (i < 0 \<longrightarrow> dev_started i (sys_devs s2 ! i)) \<and> in_mode Fresh (sys_devs s2 ! i) \<and> length (dev_name (sys_devs s2 ! i)) < 100"
    using assms(5) by (simp add: f2(3) split_def in_mode_new)
  moreover have "?n = length (sys_devs s2)" "length (lat_vdev (sys_cpu s2)) = 0" "length (status_vdev (sys_cpu s2)) = 0"
    by (simp_all add: f2(2,3) AtomicSimpleCPU_new_def)
  ultimately obtain lv st ds where
    3: "s3 = s2\<lparr>sys_cpu := ?c\<lparr>lat_vdev := lv, status_vdev := st\<rparr>, sys_devs := ds\<rparr>" "length st = ?n" "length ds = ?n"
      "\<forall>i < ?n. dev_started i (ds ! i)" using init_devs [OF b(3) le0 _ assms(4)] unfolding f2(2) by blast
  have "cpu_good c \<and> scheduled (cpu_tickEvent c) \<and> status_vdev c = st"
    using cpu_activate [OF b(4)] assms(2,3) by (simp add: 3(1) AtomicSimpleCPU_new_def cpu_clock_ok_def)
  moreover have "msg_togo s1 = []" using assms(6) by (simp add: b(5) 3(1) f2(4) sm_msg_def)
  ultimately show ?thesis using 2(2,3) 3 f2 net_ok_new [of ?n]
    by (auto simp: sys_inv_def devs_ok_def b(5) mgmt_ok_def sm_msg_def dev_started_def)
qed

end
