(* ===== verification/Event_Queue.thy ===== *)
theory Event_Queue
  imports Event_Handle "HOL-Library.Product_Lexorder"
begin

text \<open>
  The event queue \<open>sim/eventq.{hh,cc}\<close> and \<open>sim/eventq_impl.hh\<close> at the level of its pointers: a
  linked list of bins, one per pair of tick and priority, each bin a stack. Events live in a heap
  indexed by their address; \<open>nextBin\<close> is only meaningful in the top event of a bin and goes stale
  below it, as in the source. Loops over the links are \<^theory_text>\<open>partial_function\<close>s, so that a loop on
  a cyclic structure has no value. One queue is modelled; \<open>eq_parallel\<close> and \<open>eq_current\<close> stand for
  \<open>inParallelMode\<close> and \<open>this == curEventQueue()\<close>. Tracing and the mutexes are left out.
\<close>

section \<open>Events\<close>

type_synonym event_ptr = nat

record event =
  nextBin :: "event_ptr option"
  nextInBin :: "event_ptr option"
  e_when :: tick
  e_priority :: int
  e_squashed :: bool
  e_scheduled :: bool
  e_autodelete :: bool
  e_exit :: bool
  e_mainqueue :: bool
  e_initialized :: bool
  e_queue_this :: bool

type_synonym event_heap = "event_ptr \<Rightarrow> event"

text \<open>The constructor, with the public flags that may be given.\<close>

definition Event_new :: "int \<Rightarrow> bool \<Rightarrow> bool \<Rightarrow> event" where
  "Event_new p autodelete exitev = \<lparr>nextBin = None, nextInBin = None, e_when = 0, e_priority = p,
     e_squashed = False, e_scheduled = False, e_autodelete = autodelete, e_exit = exitev,
     e_mainqueue = False, e_initialized = True, e_queue_this = False\<rparr>"

text \<open>The destructor clears all flags.\<close>

definition Event_delete :: "event \<Rightarrow> event res" where
  "Event_delete e = bindE (assertE (\<not> e_scheduled e)) (\<lambda>_.
     Inr (e\<lparr>e_squashed := False, e_autodelete := False, e_exit := False, e_mainqueue := False,
            e_initialized := False\<rparr>))"

definition event_lt :: "event \<Rightarrow> event \<Rightarrow> bool" where
  "event_lt l r \<longleftrightarrow> e_when l < e_when r \<or> (e_when l = e_when r \<and> e_priority l < e_priority r)"

definition event_le :: "event \<Rightarrow> event \<Rightarrow> bool" where
  "event_le l r \<longleftrightarrow> e_when l < e_when r \<or> (e_when l = e_when r \<and> e_priority l \<le> e_priority r)"

definition event_eq :: "event \<Rightarrow> event \<Rightarrow> bool" where
  "event_eq l r \<longleftrightarrow> e_when l = e_when r \<and> e_priority l = e_priority r"

definition setWhen :: "tick \<Rightarrow> event \<Rightarrow> event" where
  "setWhen t e = e\<lparr>e_when := t, e_queue_this := True\<rparr>"

definition squash :: "event \<Rightarrow> event" where
  "squash e = e\<lparr>e_squashed := True\<rparr>"

section \<open>The linked structure\<close>

record eventq =
  eq_head :: "event_ptr option"
  eq_curTick :: tick
  eq_async :: "event_ptr list"
  eq_heap :: event_heap
  eq_parallel :: bool
  eq_current :: bool

definition EventQueue_new :: "event_heap \<Rightarrow> eventq" where
  "EventQueue_new h = \<lparr>eq_head = None, eq_curTick = 0, eq_async = [], eq_heap = h,
     eq_parallel = False, eq_current = True\<rparr>"

definition insertBefore ::
  "event_ptr \<Rightarrow> event_ptr option \<Rightarrow> event_heap \<Rightarrow> event_ptr \<times> event_heap" where
  "insertBefore ev cur h =
     (case cur of
        None \<Rightarrow> (ev, h(ev := (h ev)\<lparr>nextBin := None, nextInBin := None\<rparr>))
      | Some c \<Rightarrow>
          if event_lt (h ev) (h c)
          then (ev, h(ev := (h ev)\<lparr>nextBin := Some c, nextInBin := None\<rparr>))
          else (ev, h(ev := (h ev)\<lparr>nextBin := nextBin (h c), nextInBin := Some c\<rparr>)))"

text \<open>\<open>while (cur && *cur < *event) { prev = cur; cur = cur->nextBin; }\<close>\<close>

partial_function (option) find_bin ::
  "event_heap \<Rightarrow> event_ptr \<Rightarrow> event_ptr \<times> event_ptr option \<Rightarrow> (event_ptr \<times> event_ptr option) option" where
  "find_bin h ev s =
     (case snd s of
        None \<Rightarrow> Some (fst s, None)
      | Some c \<Rightarrow>
          if event_lt (h c) (h ev) then find_bin h ev (c, nextBin (h c)) else Some (fst s, Some c))"

definition EventQueue_insert :: "event_ptr \<Rightarrow> eventq \<Rightarrow> eventq res" where
  "EventQueue_insert ev q =
     (let h = eq_heap q in
      case eq_head q of
        None \<Rightarrow> (let (e, h) = insertBefore ev None h in Inr (q\<lparr>eq_head := Some e, eq_heap := h\<rparr>))
      | Some hp \<Rightarrow>
          if event_le (h ev) (h hp)
          then (let (e, h) = insertBefore ev (Some hp) h in Inr (q\<lparr>eq_head := Some e, eq_heap := h\<rparr>))
          else
            bindE (returns (find_bin h ev (hp, nextBin (h hp)))) (\<lambda>(prev, cur).
            (let (e, h) = insertBefore ev cur h in
             Inr (q\<lparr>eq_heap := h(prev := (h prev)\<lparr>nextBin := Some e\<rparr>)\<rparr>))))"

text \<open>\<open>while (event != next) { if (!next) panic(); cur = next; next = next->nextInBin; }\<close>\<close>

partial_function (option) find_in_bin ::
  "event_heap \<Rightarrow> event_ptr \<Rightarrow> event_ptr \<times> event_ptr option \<Rightarrow> (event_ptr res) option" where
  "find_in_bin h ev s =
     (if snd s = Some ev then Some (Inr (fst s))
      else
        case snd s of
          None \<Rightarrow> Some (Inl Panic)
        | Some n \<Rightarrow> find_in_bin h ev (n, nextInBin (h n)))"

definition removeItem ::
  "event_ptr \<Rightarrow> event_ptr \<Rightarrow> event_heap \<Rightarrow> (event_ptr option \<times> event_heap) res" where
  "removeItem ev tp h =
     (let next = nextInBin (h tp) in
      if ev = tp then
        (case next of
           None \<Rightarrow> Inr (nextBin (h tp), h)
         | Some n \<Rightarrow> Inr (Some n, h(n := (h n)\<lparr>nextBin := nextBin (h tp)\<rparr>)))
      else
        bindE (returns (find_in_bin h ev (tp, next))) (\<lambda>r.
        bindE r (\<lambda>cur.
        Inr (Some tp, h(cur := (h cur)\<lparr>nextInBin := nextInBin (h ev)\<rparr>)))))"

definition EventQueue_remove :: "event_ptr \<Rightarrow> eventq \<Rightarrow> eventq res" where
  "EventQueue_remove ev q =
     (let h = eq_heap q in
      case eq_head q of
        None \<Rightarrow> Inl Panic
      | Some hp \<Rightarrow>
          bindE (assertE (e_queue_this (h ev))) (\<lambda>_.
          if event_eq (h hp) (h ev)
          then bindE (removeItem ev hp h) (\<lambda>(tp, h). Inr (q\<lparr>eq_head := tp, eq_heap := h\<rparr>))
          else
            bindE (returns (find_bin h ev (hp, nextBin (h hp)))) (\<lambda>(prev, cur).
            case cur of
              None \<Rightarrow> Inl Panic
            | Some c \<Rightarrow>
                if \<not> event_eq (h c) (h ev) then Inl Panic
                else
                  bindE (removeItem ev c h) (\<lambda>(tp, h).
                  Inr (q\<lparr>eq_heap := h(prev := (h prev)\<lparr>nextBin := tp\<rparr>)\<rparr>)))))"

section \<open>Scheduling\<close>

definition asyncInsert :: "event_ptr \<Rightarrow> eventq \<Rightarrow> eventq" where
  "asyncInsert ev q = q\<lparr>eq_async := eq_async q @ [ev]\<rparr>"

definition upd_event :: "event_ptr \<Rightarrow> (event \<Rightarrow> event) \<Rightarrow> eventq \<Rightarrow> eventq" where
  "upd_event ev f q = q\<lparr>eq_heap := (eq_heap q)(ev := f (eq_heap q ev))\<rparr>"

definition EventQueue_schedule :: "event_ptr \<Rightarrow> tick \<Rightarrow> bool \<Rightarrow> eventq \<Rightarrow> eventq res" where
  "EventQueue_schedule ev t global q =
     bindE (assertE (t \<ge> eq_curTick q)) (\<lambda>_.
     bindE (assertE (\<not> e_scheduled (eq_heap q ev))) (\<lambda>_.
     bindE (assertE (e_initialized (eq_heap q ev))) (\<lambda>_.
     (let q = upd_event ev (setWhen t) q in
      bindE (if eq_parallel q \<and> (\<not> eq_current q \<or> global)
             then Inr (asyncInsert ev q) else EventQueue_insert ev q) (\<lambda>q.
      Inr (upd_event ev (e_scheduled_update (\<lambda>_. True)) q))))))"

definition maybe_delete :: "event_ptr \<Rightarrow> eventq \<Rightarrow> eventq res" where
  "maybe_delete ev q =
     (if e_autodelete (eq_heap q ev)
      then bindE (Event_delete (eq_heap q ev)) (\<lambda>e. Inr (upd_event ev (\<lambda>_. e) q))
      else Inr q)"

definition EventQueue_deschedule :: "event_ptr \<Rightarrow> eventq \<Rightarrow> eventq res" where
  "EventQueue_deschedule ev q =
     bindE (assertE (e_scheduled (eq_heap q ev))) (\<lambda>_.
     bindE (assertE (e_initialized (eq_heap q ev))) (\<lambda>_.
     bindE (assertE (\<not> eq_parallel q \<or> eq_current q)) (\<lambda>_.
     bindE (EventQueue_remove ev q) (\<lambda>q.
     maybe_delete ev (upd_event ev (\<lambda>e. e\<lparr>e_squashed := False, e_scheduled := False\<rparr>) q)))))"

definition EventQueue_reschedule :: "event_ptr \<Rightarrow> tick \<Rightarrow> bool \<Rightarrow> eventq \<Rightarrow> eventq res" where
  "EventQueue_reschedule ev t always q =
     bindE (assertE (t \<ge> eq_curTick q)) (\<lambda>_.
     bindE (assertE (always \<or> e_scheduled (eq_heap q ev))) (\<lambda>_.
     bindE (assertE (e_initialized (eq_heap q ev))) (\<lambda>_.
     bindE (assertE (\<not> eq_parallel q \<or> eq_current q)) (\<lambda>_.
     bindE (if e_scheduled (eq_heap q ev) then EventQueue_remove ev q else Inr q) (\<lambda>q.
     bindE (EventQueue_insert ev (upd_event ev (setWhen t) q)) (\<lambda>q.
     Inr (upd_event ev (\<lambda>e. e\<lparr>e_squashed := False, e_scheduled := True\<rparr>) q)))))))"

fun async_loop :: "event_ptr list \<Rightarrow> eventq \<Rightarrow> eventq res" where
  "async_loop [] q = Inr q"
| "async_loop (ev # evs) q =
     bindE (EventQueue_insert ev q) (\<lambda>q. async_loop evs (q\<lparr>eq_async := evs\<rparr>))"

definition handleAsyncInsertions :: "eventq \<Rightarrow> eventq res" where
  "handleAsyncInsertions q =
     bindE (assertE (eq_current q)) (\<lambda>_. async_loop (eq_async q) q)"

section \<open>Servicing\<close>

text \<open>
  \<open>serviceOne\<close> up to the call of the handler: the head leaves the queue. Servicing an empty queue
  dereferences a null pointer.
\<close>

definition pop_head :: "eventq \<Rightarrow> (event_ptr \<times> eventq) res" where
  "pop_head q =
     (case eq_head q of
        None \<Rightarrow> Inl Undefined
      | Some ev \<Rightarrow>
          (let h = eq_heap q;
               next = nextInBin (h ev);
               h = h(ev := (h ev)\<lparr>e_scheduled := False\<rparr>)
           in
           case next of
             Some n \<Rightarrow> Inr (ev, q\<lparr>eq_heap := h(n := (h n)\<lparr>nextBin := nextBin (h ev)\<rparr>), eq_head := Some n\<rparr>)
           | None \<Rightarrow> Inr (ev, q\<lparr>eq_heap := h, eq_head := nextBin (h ev)\<rparr>)))"

text \<open>The handler \<open>process\<close> of an event is a parameter; the result is the exit event, if it was one.\<close>

definition serviceOne ::
  "(event_ptr \<Rightarrow> eventq \<Rightarrow> eventq res) \<Rightarrow> eventq \<Rightarrow> (event_ptr option \<times> eventq) res" where
  "serviceOne process q =
     bindE (pop_head q) (\<lambda>(ev, q).
     bindE
       (if \<not> e_squashed (eq_heap q ev)
        then bindE (process ev (q\<lparr>eq_curTick := e_when (eq_heap q ev)\<rparr>)) (\<lambda>q.
             if e_exit (eq_heap q ev)
             then bindE (assertE (\<not> e_autodelete (eq_heap q ev) \<or> \<not> e_mainqueue (eq_heap q ev))) (\<lambda>_.
                  Inr (True, q))
             else Inr (False, q))
        else Inr (False, upd_event ev (\<lambda>e. e\<lparr>e_squashed := False\<rparr>) q)) (\<lambda>(exits, q).
     if exits then Inr (Some ev, q)
     else if \<not> e_scheduled (eq_heap q ev)
     then bindE (maybe_delete ev q) (\<lambda>q. Inr (None, q))
     else Inr (None, q)))"

text \<open>\<open>serviceEvents(when)\<close>: service until the head lies after \<open>when\<close>.\<close>

partial_function (option) service_loop ::
  "(event_ptr \<Rightarrow> eventq \<Rightarrow> eventq res) \<Rightarrow> tick \<Rightarrow> eventq \<Rightarrow> (eventq res) option" where
  "service_loop process t q =
     (case eq_head q of
        None \<Rightarrow> Some (Inr q)
      | Some hp \<Rightarrow>
          if e_when (eq_heap q hp) > t then Some (Inr q)
          else
            case serviceOne process q of
              Inl e \<Rightarrow> Some (Inl e)
            | Inr (_, q) \<Rightarrow> service_loop process t q)"

definition serviceEvents ::
  "(event_ptr \<Rightarrow> eventq \<Rightarrow> eventq res) \<Rightarrow> tick \<Rightarrow> eventq \<Rightarrow> eventq res" where
  "serviceEvents process t q =
     bindE (returns (service_loop process t q)) (\<lambda>r.
     bindE r (\<lambda>q. Inr (q\<lparr>eq_curTick := t\<rparr>)))"

section \<open>Checking\<close>

text \<open>
  The inner and the outer loop of \<open>debugVerify\<close>. The state is the last tick and priority and the
  events seen; \<open>None\<close> in the result is a violation.
\<close>

partial_function (option) verify_bin ::
  "event_heap \<Rightarrow> event_ptr option \<Rightarrow> tick \<times> int \<times> event_ptr list \<Rightarrow> (tick \<times> int \<times> event_ptr list) option option" where
  "verify_bin h p s =
     (case p of
        None \<Rightarrow> Some (Some s)
      | Some e \<Rightarrow>
          (case s of (time, priority, seen) \<Rightarrow>
             if e_when (h e) < time then Some None
             else if e_when (h e) = time \<and> e_priority (h e) < priority then Some None
             else if e \<in> set seen then Some None
             else verify_bin h (nextInBin (h e)) (e_when (h e), e_priority (h e), e # seen)))"

partial_function (option) verify_bins ::
  "event_heap \<Rightarrow> event_ptr option \<Rightarrow> tick \<times> int \<times> event_ptr list \<Rightarrow> bool option" where
  "verify_bins h p s =
     (case p of
        None \<Rightarrow> Some True
      | Some e \<Rightarrow>
          (case verify_bin h (Some e) s of
             None \<Rightarrow> None
           | Some None \<Rightarrow> Some False
           | Some (Some s) \<Rightarrow> verify_bins h (nextBin (h e)) s))"

definition debugVerify :: "eventq \<Rightarrow> bool res" where
  "debugVerify q = returns (verify_bins (eq_heap q) (eq_head q) (0, 0, []))"

end
