(* ===== verification/Event_Queue_Props.thy ===== *)
theory Event_Queue_Props
  imports Event_Queue "HOL-Library.Multiset"
begin

text \<open>
  The event queue implements a sorted list of stacks. \<open>bin_list\<close> reads the bins off the pointers;
  \<open>bins_insert\<close> and \<open>bins_remove\<close> say what insertion and removal do to them. The refinement lemmas
  show that the pointer operations end and do exactly this.
\<close>

section \<open>Reading the structure\<close>

definition event_key :: "event_heap \<Rightarrow> event_ptr \<Rightarrow> tick \<times> int" where
  "event_key h e = (e_when (h e), e_priority (h e))"

lemma event_order_key:
  "event_lt (h a) (h b) \<longleftrightarrow> event_key h a < event_key h b"
  "event_le (h a) (h b) \<longleftrightarrow> event_key h a \<le> event_key h b"
  "event_eq (h a) (h b) \<longleftrightarrow> event_key h a = event_key h b"
  by (auto simp: event_lt_def event_le_def event_eq_def event_key_def)

fun in_bin :: "event_heap \<Rightarrow> event_ptr option \<Rightarrow> event_ptr list \<Rightarrow> bool" where
  "in_bin h p [] \<longleftrightarrow> p = None"
| "in_bin h p (e # es) \<longleftrightarrow> p = Some e \<and> in_bin h (nextInBin (h e)) es"

fun bin_list :: "event_heap \<Rightarrow> event_ptr option \<Rightarrow> event_ptr list list \<Rightarrow> bool" where
  "bin_list h p [] \<longleftrightarrow> p = None"
| "bin_list h p (b # bs) \<longleftrightarrow> b \<noteq> [] \<and> in_bin h p b \<and> bin_list h (nextBin (h (hd b))) bs"

definition bins_sorted :: "event_heap \<Rightarrow> event_ptr list list \<Rightarrow> bool" where
  "bins_sorted h bs \<longleftrightarrow> (\<forall>b \<in> set bs. \<forall>e \<in> set b. event_key h e = event_key h (hd b)) \<and>
     sorted_wrt (\<lambda>b c. event_key h (hd b) < event_key h (hd c)) bs"

text \<open>What the operations do to the bins.\<close>

fun bins_insert :: "event_heap \<Rightarrow> event_ptr \<Rightarrow> event_ptr list list \<Rightarrow> event_ptr list list" where
  "bins_insert h e [] = [[e]]"
| "bins_insert h e (b # bs) =
     (if event_key h e < event_key h (hd b) then [e] # b # bs
      else if event_key h e = event_key h (hd b) then (e # b) # bs
      else b # bins_insert h e bs)"

definition bin_remove :: "event_ptr \<Rightarrow> event_ptr list \<Rightarrow> event_ptr list list" where
  "bin_remove e b = (if remove1 e b = [] then [] else [remove1 e b])"

fun bins_remove :: "event_ptr \<Rightarrow> event_ptr list list \<Rightarrow> event_ptr list list" where
  "bins_remove e [] = []"
| "bins_remove e (b # bs) = (if e \<in> set b then bin_remove e b @ bs else b # bins_remove e bs)"

subsection \<open>Frame lemmas\<close>

lemma in_bin_cong:
  "\<forall>e \<in> set es. nextInBin (h' e) = nextInBin (h e) \<Longrightarrow> in_bin h' p es = in_bin h p es"
  by (induction es arbitrary: p) simp_all

lemma bin_list_cong:
  "\<forall>b \<in> set bs. \<forall>e \<in> set b. nextInBin (h' e) = nextInBin (h e) \<Longrightarrow>
   \<forall>b \<in> set bs. b \<noteq> [] \<longrightarrow> nextBin (h' (hd b)) = nextBin (h (hd b)) \<Longrightarrow>
   bin_list h' p bs = bin_list h p bs"
  by (induction bs arbitrary: p) (simp_all add: in_bin_cong [of _ h' h] cong: conj_cong)

lemma bin_list_nonempty: "bin_list h p bs \<Longrightarrow> b \<in> set bs \<Longrightarrow> b \<noteq> []"
  by (induction bs arbitrary: p) auto

lemma in_bin_hd: "in_bin h p b \<Longrightarrow> b \<noteq> [] \<Longrightarrow> p = Some (hd b)"
  by (cases b) auto

lemma in_bin_fun_upd_other: "e \<notin> set es \<Longrightarrow> in_bin (h(e := x)) p es = in_bin h p es"
  by (rule in_bin_cong) auto

lemma bin_list_fun_upd_other: "e \<notin> set (concat bs) \<Longrightarrow> bin_list (h(e := x)) p bs = bin_list h p bs"
  by (rule bin_list_cong) (auto dest: hd_in_set)

lemma set_bins_insert: "set (concat (bins_insert h e bs)) = insert e (set (concat bs))"
  by (induction bs) auto

section \<open>Insertion\<close>

lemmas find_bin_simps [simp] = find_bin.simps [of h ev "(prev, None)" for h ev prev]
  find_bin.simps [of h ev "(prev, Some c)" for h ev prev c]

text \<open>
  Inserting behind the bin \<open>p # es\<close>: the loop ends at some bin top \<open>q\<close>, and linking the event there
  yields the bins of \<open>bins_insert\<close>.
\<close>

definition link_after :: "event_ptr \<Rightarrow> event_ptr \<Rightarrow> event_ptr option \<Rightarrow> event_heap \<Rightarrow> event_heap" where
  "link_after ev prev c h =
     (let (e, h) = insertBefore ev c h in h(prev := (h prev)\<lparr>nextBin := Some e\<rparr>))"

lemma link_after_other:
  "x \<noteq> ev \<Longrightarrow> x \<noteq> prev \<Longrightarrow> link_after ev prev c h x = h x"
  "x \<noteq> ev \<Longrightarrow> nextInBin (link_after ev prev c h x) = nextInBin (h x)"
  by (auto simp: link_after_def insertBefore_def Let_def split: option.splits)

lemma insert_behind:
  assumes "bin_list h (Some p) ((p # es) # bs)" "event_key h p < event_key h ev"
    and "ev \<notin> set (concat ((p # es) # bs))" "distinct (concat ((p # es) # bs))"
  shows "\<exists>q c. find_bin h ev (p, nextBin (h p)) = Some (q, c) \<and> q \<in> hd ` set ((p # es) # bs) \<and>
     bin_list (link_after ev q c h) (Some p) ((p # es) # bins_insert h ev bs)"
  using assms
proof (induction bs arbitrary: p es)
  case Nil
  then have n: "nextBin (h p) = None" "in_bin h (nextInBin (h p)) es" "ev \<noteq> p" "ev \<notin> set es" "p \<notin> set es"
    by auto
  have "in_bin (link_after ev p None h) (nextInBin (h p)) es"
    using n by (subst in_bin_cong [where h = h]) (auto intro!: link_after_other(2))
  then show ?case using n
    by (auto simp: link_after_other) (auto simp: link_after_def insertBefore_def)
next
  case (Cons b bs)
  obtain c cs where b: "b = c # cs" using Cons.prems(1) by (cases b) auto
  have n: "nextBin (h p) = Some c" "in_bin h (nextInBin (h p)) es" "bin_list h (Some c) (b # bs)"
    using Cons.prems(1) b by auto
  have d: "p \<noteq> ev" "p \<notin> set (concat (b # bs))" "ev \<notin> set es" "p \<notin> set es" "ev \<notin> set (concat (b # bs))"
    using Cons.prems(3,4) by auto
  have es: "in_bin (link_after ev q cc h) (nextInBin (h p)) es" for q cc
    using n(2) d by (subst in_bin_cong [where h = h]) (auto intro!: link_after_other(2))
  show ?case
  proof (cases "event_key h c < event_key h ev")
    case True
    obtain q cc where q: "find_bin h ev (c, nextBin (h c)) = Some (q, cc)" "q \<in> hd ` set ((c # cs) # bs)"
        "bin_list (link_after ev q cc h) (Some c) ((c # cs) # bins_insert h ev bs)"
      using Cons.IH [of c cs] True n(3) b Cons.prems(3,4) by auto
    have "hd x \<in> set (concat (b # bs))" if "x \<in> set (b # bs)" for x
      using that bin_list_nonempty [OF n(3) that] unfolding set_concat by (metis UN_I hd_in_set)
    then have "q \<noteq> p" using q(2) d(2) b by fastforce
    then have "nextBin (link_after ev q cc h p) = Some c" using link_after_other(1) d(1) n(1) by metis
    then show ?thesis using q True n es d(1) b
      by (intro exI [of _ q] exI [of _ cc]) (auto simp: event_order_key link_after_other(2))
  next
    case False
    have f: "find_bin h ev (p, nextBin (h p)) = Some (p, Some c)"
      using False n(1) by (simp add: event_order_key)
    let ?h = "link_after ev p (Some c) h"
    have bs: "bin_list ?h r (b # bs) = bin_list h r (b # bs)" "bin_list ?h r bs = bin_list h r bs"
        "in_bin ?h r b = in_bin h r b" for r
      using d unfolding link_after_def insertBefore_def
      by (simp_all add: bin_list_fun_upd_other in_bin_fun_upd_other del: bin_list.simps)
    have nb: "nextBin (?h p) = Some ev" using d(1)
      by (auto simp: link_after_def insertBefore_def)
    have "bin_list ?h (Some ev) (bins_insert h ev (b # bs))"
    proof (cases "event_key h ev < event_key h c")
      case True
      then have "nextBin (?h ev) = Some c" "nextInBin (?h ev) = None"
        using d(1) by (auto simp: link_after_def insertBefore_def event_order_key)
      then have "bin_list ?h (Some ev) ([ev] # b # bs)"
        using bs(1) n(3) by (subst bin_list.simps(2)) (simp del: bin_list.simps)
      then show ?thesis using True b by simp
    next
      case F: False
      then have "nextBin (?h ev) = nextBin (h c)" "nextInBin (?h ev) = Some c"
        using d(1) by (auto simp: link_after_def insertBefore_def event_order_key)
      moreover have "in_bin h (Some c) b" "bin_list h (nextBin (h c)) bs" using n(3) b by auto
      ultimately have "bin_list ?h (Some ev) ((ev # b) # bs)"
        using bs by (subst bin_list.simps(2)) (simp del: bin_list.simps)
      then show ?thesis using False F b by simp
    qed
    then show ?thesis using f nb es d(1)
      by (intro exI [of _ p] exI [of _ "Some c"]) (auto simp: link_after_other(2))
  qed
qed

text \<open>The part of an event that the links do not concern.\<close>

definition event_data :: "event \<Rightarrow> event" where
  "event_data e = e\<lparr>nextBin := None, nextInBin := None\<rparr>"

lemma event_data_eqD:
  assumes "event_data a = event_data b"
  shows "e_when a = e_when b" "e_priority a = e_priority b" "e_squashed a = e_squashed b"
    "e_scheduled a = e_scheduled b" "e_autodelete a = e_autodelete b" "e_exit a = e_exit b"
    "e_mainqueue a = e_mainqueue b" "e_initialized a = e_initialized b" "e_queue_this a = e_queue_this b"
  using assms by (cases a; cases b; simp add: event_data_def)+

lemma event_data_links [simp]:
  "event_data (e\<lparr>nextBin := x\<rparr>) = event_data e" "event_data (e\<lparr>nextInBin := y\<rparr>) = event_data e"
  by (simp_all add: event_data_def)

definition relinked :: "eventq \<Rightarrow> eventq \<Rightarrow> bool" where
  "relinked q q' \<longleftrightarrow> (\<forall>e. event_data (eq_heap q' e) = event_data (eq_heap q e)) \<and>
     eq_curTick q' = eq_curTick q \<and> eq_async q' = eq_async q \<and> eq_parallel q' = eq_parallel q \<and>
     eq_current q' = eq_current q"

lemma relinked_fields:
  assumes "relinked q q'"
  shows "eq_curTick q' = eq_curTick q" "eq_async q' = eq_async q" "eq_parallel q' = eq_parallel q"
    "eq_current q' = eq_current q"
  using assms by (simp_all add: relinked_def)

lemma relinked_key: "relinked q q' \<Longrightarrow> event_key (eq_heap q') e = event_key (eq_heap q) e"
  unfolding relinked_def event_key_def by (metis event_data_eqD(1,2))

definition eq_bins :: "eventq \<Rightarrow> event_ptr list list \<Rightarrow> bool" where
  "eq_bins q bs \<longleftrightarrow> bin_list (eq_heap q) (eq_head q) bs \<and> distinct (concat bs) \<and> bins_sorted (eq_heap q) bs"

lemma bins_sorted_Cons:
  "bins_sorted h (b # bs) \<longleftrightarrow> (\<forall>e \<in> set b. event_key h e = event_key h (hd b)) \<and>
     (\<forall>c \<in> set bs. event_key h (hd b) < event_key h (hd c)) \<and> bins_sorted h bs"
  by (auto simp: bins_sorted_def)

lemma bins_sorted_cong:
  "\<forall>b \<in> set bs. \<forall>e \<in> set b. event_key h' e = event_key h e \<Longrightarrow> \<forall>b \<in> set bs. b \<noteq> [] \<Longrightarrow>
   bins_sorted h' bs = bins_sorted h bs"
proof (induction bs)
  case (Cons b bs)
  have "event_key h' (hd c) = event_key h (hd c)" if "c \<in> set (b # bs)" for c
    using Cons.prems that by auto
  then show ?case using Cons by (simp add: bins_sorted_Cons)
qed (simp add: bins_sorted_def)

lemma hd_bins_insert:
  "c \<in> set (bins_insert h e bs) \<Longrightarrow> event_key h (hd c) = event_key h e \<or> (\<exists>b \<in> set bs. hd c = hd b)"
  by (induction bs) (auto split: if_splits)

lemma bins_sorted_insert:
  "bins_sorted h bs \<Longrightarrow> bins_sorted h (bins_insert h e bs)"
proof (induction bs)
  case (Cons b bs)
  show ?case
  proof (cases "event_key h e < event_key h (hd b)")
    case True
    then show ?thesis using Cons.prems by (auto simp: bins_sorted_Cons)
  next
    case F: False
    show ?thesis
    proof (cases "event_key h e = event_key h (hd b)")
      case True
      then show ?thesis using Cons.prems by (auto simp: bins_sorted_Cons)
    next
      case False
      then have "event_key h (hd b) < event_key h e" using F by simp
      then have "event_key h (hd b) < event_key h (hd c)" if "c \<in> set (bins_insert h e bs)" for c
        using hd_bins_insert [OF that] Cons.prems by (auto simp: bins_sorted_Cons)
      then show ?thesis using Cons F False by (auto simp: bins_sorted_Cons)
    qed
  qed
qed (simp add: bins_sorted_def)

lemma distinct_bins_insert:
  "distinct (concat (bins_insert h e bs)) \<longleftrightarrow> e \<notin> set (concat bs) \<and> distinct (concat bs)"
proof -
  have "mset (concat (bins_insert h e bs)) = add_mset e (mset (concat bs))"
    by (induction bs) auto
  then show ?thesis by (metis distinct.simps(2) mset.simps(2) mset_eq_imp_distinct_iff)
qed

lemma insert_head:
  assumes "bin_list h p bs" "ev \<notin> set (concat bs)"
    and "bs \<noteq> [] \<Longrightarrow> event_key h ev \<le> event_key h (hd (hd bs))"
  shows "bin_list (snd (insertBefore ev p h)) (Some ev) (bins_insert h ev bs)"
proof (cases bs)
  case Nil
  then show ?thesis using assms by (simp add: insertBefore_def)
next
  case (Cons b cs)
  then obtain c es where b: "b = c # es" "p = Some c" using assms(1) by (cases b) auto
  have "c \<noteq> ev" "bin_list (h(ev := x)) r cs = bin_list h r cs" "in_bin (h(ev := x)) r es = in_bin h r es" for x r
    using assms(2) Cons b(1) by (simp_all add: bin_list_fun_upd_other in_bin_fun_upd_other)
  then show ?thesis using assms(1,3) Cons b
    by (auto simp: insertBefore_def event_order_key)
qed

lemma insertBefore_fst [simp]: "fst (insertBefore ev c h) = ev"
  by (auto simp: insertBefore_def split: option.splits)

lemma insertBefore_data [simp]: "event_data (snd (insertBefore ev c h) x) = event_data (h x)"
  by (auto simp: insertBefore_def split: option.splits)

lemma eq_bins_relinked:
  assumes "eq_bins q bs" "relinked q q'" "bin_list (eq_heap q') (eq_head q') cs"
    "distinct (concat cs)" "bins_sorted (eq_heap q) cs"
  shows "eq_bins q' cs"
proof -
  have "bins_sorted (eq_heap q') cs = bins_sorted (eq_heap q) cs"
    by (rule bins_sorted_cong) (use relinked_key [OF assms(2)] bin_list_nonempty [OF assms(3)] in auto)
  then show ?thesis using assms unfolding eq_bins_def by simp
qed

text \<open>Insertion returns, and refines \<open>bins_insert\<close>.\<close>

lemma EventQueue_insert_refines:
  assumes "eq_bins q bs" "ev \<notin> set (concat bs)"
  obtains (out) q' where "EventQueue_insert ev q = Inr q'" "relinked q q'"
    "eq_bins q' (bins_insert (eq_heap q) ev bs)"
proof -
  let ?h = "eq_heap q"
  have b: "bin_list ?h (eq_head q) bs" "distinct (concat bs)" "bins_sorted ?h bs"
    using assms(1) by (auto simp: eq_bins_def)
  have ok: thesis if i: "EventQueue_insert ev q = Inr q'" "relinked q q'"
    "bin_list (eq_heap q') (eq_head q') (bins_insert ?h ev bs)" for q'
    by (rule out [OF i(1,2)], rule eq_bins_relinked [OF assms(1) i(2,3)])
      (use assms(2) b in \<open>simp_all add: distinct_bins_insert bins_sorted_insert\<close>)
  show thesis
  proof (cases "bs \<noteq> [] \<longrightarrow> event_key ?h ev \<le> event_key ?h (hd (hd bs))")
    case True
    let ?q = "q\<lparr>eq_head := Some ev, eq_heap := snd (insertBefore ev (eq_head q) ?h)\<rparr>"
    have "EventQueue_insert ev q = Inr ?q"
      using True b(1) in_bin_hd [of ?h "eq_head q" "hd bs"]
      by (cases bs) (auto simp: EventQueue_insert_def Let_def split_beta event_order_key)
    then show thesis by (rule ok)
      (use insert_head [OF b(1) assms(2)] True in \<open>auto simp: relinked_def\<close>)
  next
    case False
    then obtain p es cs where bs: "bs = (p # es) # cs" "eq_head q = Some p"
      using b(1) by (cases bs; cases "hd bs") auto
    then have lt: "event_key ?h p < event_key ?h ev" using False by auto
    obtain r c where r: "find_bin ?h ev (p, nextBin (?h p)) = Some (r, c)"
      "bin_list (link_after ev r c ?h) (Some p) ((p # es) # bins_insert ?h ev cs)"
      using insert_behind [of ?h p es cs ev] b assms(2) bs lt by auto
    let ?q = "q\<lparr>eq_heap := link_after ev r c ?h\<rparr>"
    have "EventQueue_insert ev q = Inr ?q"
      using bs r lt by (auto simp: EventQueue_insert_def Let_def split_beta event_order_key link_after_def)
    then show thesis by (rule ok)
      (use r bs lt in \<open>auto simp: relinked_def link_after_def split_beta Let_def\<close>)
  qed
qed

section \<open>Removal\<close>

lemma find_in_bin_simps [simp]:
  "find_in_bin h ev (c, None) = Some (Inl Panic)" "find_in_bin h ev (c, Some ev) = Some (Inr c)"
  "n \<noteq> ev \<Longrightarrow> find_in_bin h ev (c, Some n) = find_in_bin h ev (n, nextInBin (h n))"
  by (subst find_in_bin.simps, simp)+

lemma find_in_bin_ok:
  assumes "in_bin h (nextInBin (h t)) es" "ev \<in> set es"
  obtains xs c ys where "t # es = xs @ c # ev # ys" "find_in_bin h ev (t, nextInBin (h t)) = Some (Inr c)"
  using assms
proof (induction es arbitrary: t thesis)
  case (Cons e es)
  have n: "nextInBin (h t) = Some e" "in_bin h (nextInBin (h e)) es" using Cons.prems(2) by auto
  show ?case
  proof (cases "e = ev")
    case True
    then show ?thesis using n by (intro Cons.prems(1) [of "[]" t es]) simp_all
  next
    case False
    then obtain xs c ys where "e # es = xs @ c # ev # ys" "find_in_bin h ev (e, nextInBin (h e)) = Some (Inr c)"
      using Cons.IH [of e] n Cons.prems(3) by auto
    then show ?thesis using n False
      by (intro Cons.prems(1) [of "t # xs" c ys]) simp_all
  qed
qed simp

lemma in_bin_unlink:
  assumes "in_bin h p (xs @ c # ev # ys)" "distinct (xs @ c # ev # ys)"
  shows "in_bin (h(c := (h c)\<lparr>nextInBin := nextInBin (h ev)\<rparr>)) p (xs @ c # ys)"
  using assms by (induction xs arbitrary: p) (auto simp: in_bin_fun_upd_other)

text \<open>
  Removing from the bin \<open>b\<close> with top \<open>t\<close>: the new top and links represent the rest of the bin, and
  the link to the following bins is carried over.
\<close>

lemma removeItem_ok:
  assumes "in_bin h (Some t) b" "distinct b" "ev \<in> set b"
  obtains tp h' where "removeItem ev t h = Inr (tp, h')"
    "\<forall>x. event_data (h' x) = event_data (h x)" "\<forall>x. x \<notin> set b \<longrightarrow> h' x = h x"
    "\<forall>bs. bin_list h (nextBin (h t)) bs \<longrightarrow> set b \<inter> set (concat bs) = {} \<longrightarrow> bin_list h' tp (bin_remove ev b @ bs)"
proof -
  obtain es where b: "b = t # es" "in_bin h (nextInBin (h t)) es" using assms(1,3) by (cases b) auto
  have frame: "bin_list h' p bs" if "bin_list h p bs" "set b \<inter> set (concat bs) = {}" "\<forall>x. x \<notin> set b \<longrightarrow> h' x = h x"
    for h' p bs
  proof -
    have eq: "h' x = h x" if "c \<in> set bs" "x \<in> set c" for c x
      using \<open>set b \<inter> set (concat bs) = {}\<close> \<open>\<forall>x. x \<notin> set b \<longrightarrow> h' x = h x\<close> that by auto
    have "bin_list h' p bs = bin_list h p bs" by (rule bin_list_cong) (simp_all add: eq)
    then show ?thesis using that(1) by simp
  qed
  show thesis
  proof (cases "ev = t")
    case True
    show ?thesis
    proof (cases es)
      case Nil
      show ?thesis by (rule that [of "nextBin (h t)" h])
        (use Nil b True in \<open>auto simp: removeItem_def bin_remove_def\<close>)
    next
      case (Cons n ns)
      let ?h = "h(n := (h n)\<lparr>nextBin := nextBin (h t)\<rparr>)"
      have "in_bin ?h (nextInBin (h n)) ns" using b Cons assms(2) by (simp add: in_bin_fun_upd_other)
      then have "\<forall>bs. bin_list h (nextBin (h t)) bs \<longrightarrow> set b \<inter> set (concat bs) = {} \<longrightarrow>
          bin_list ?h (Some n) (bin_remove ev b @ bs)"
        using Cons b True by (auto simp: bin_remove_def intro!: frame) blast
      then show ?thesis by (intro that [of "Some n" ?h])
        (use Cons b True in \<open>auto simp: removeItem_def\<close>)
    qed
  next
    case False
    then have "ev \<in> set es" using assms(3) b(1) by simp
    obtain xs c ys where c: "t # es = xs @ c # ev # ys" "find_in_bin h ev (t, nextInBin (h t)) = Some (Inr c)"
      by (rule find_in_bin_ok [OF b(2) \<open>ev \<in> set es\<close>])
    let ?h = "h(c := (h c)\<lparr>nextInBin := nextInBin (h ev)\<rparr>)"
    have d: "distinct (xs @ c # ev # ys)" using assms(2) b(1) c(1) by simp
    have u: "in_bin ?h (Some t) (xs @ c # ys)" using in_bin_unlink [of h "Some t"] assms(1) b(1) c(1) d by simp
    have r: "remove1 ev b = xs @ c # ys" using c(1) b(1) d by (simp add: remove1_append)
    have hd: "hd (xs @ c # ys) = t" using c(1) by (cases xs) auto
    have mem: "c \<in> set b" using c(1) b(1) by simp
    show ?thesis
    proof (rule that [of "Some t" ?h])
      show "\<forall>bs. bin_list h (nextBin (h t)) bs \<longrightarrow> set b \<inter> set (concat bs) = {} \<longrightarrow>
          bin_list ?h (Some t) (bin_remove ev b @ bs)"
        using u r hd mem by (auto simp: bin_remove_def intro!: frame)
    qed (use False c mem in \<open>auto simp: removeItem_def\<close>)
  qed
qed

lemma remove_behind:
  assumes "bin_list h (Some p) ((p # es) # bs)" "bins_sorted h ((p # es) # bs)"
    and "ev \<in> set (concat bs)" "distinct (concat ((p # es) # bs))"
  shows "\<exists>r c tp h'. find_bin h ev (p, nextBin (h p)) = Some (r, Some c) \<and> event_eq (h c) (h ev) \<and>
     removeItem ev c h = Inr (tp, h') \<and> (\<forall>x. event_data (h' x) = event_data (h x)) \<and>
     r \<in> hd ` set ((p # es) # bs) \<and> (\<forall>x. x \<notin> set (concat bs) \<longrightarrow> h' x = h x) \<and>
     bin_list (h'(r := (h' r)\<lparr>nextBin := tp\<rparr>)) (Some p) ((p # es) # bins_remove ev bs)"
  using assms
proof (induction bs arbitrary: p es)
  case (Cons b bs)
  obtain c cs where b: "b = c # cs" using Cons.prems(1) by (cases b) auto
  have n: "nextBin (h p) = Some c" "in_bin h (nextInBin (h p)) es" "bin_list h (Some c) (b # bs)"
    using Cons.prems(1) b by auto
  have d: "p \<notin> set b" "p \<notin> set (concat bs)" "p \<notin> set es" "set es \<inter> set b = {}" "set es \<inter> set (concat bs) = {}"
    "set b \<inter> set (concat bs) = {}" "distinct b" "distinct (concat (b # bs))"
    using Cons.prems(4) by auto
  have hds: "hd x \<in> set (concat (b # bs))" if "x \<in> set (b # bs)" for x
    using that bin_list_nonempty [OF n(3) that] unfolding set_concat by (metis UN_I hd_in_set)
  show ?case
  proof (cases "ev \<in> set b")
    case True
    then have k: "event_key h c = event_key h ev" using Cons.prems(2) b by (auto simp: bins_sorted_Cons)
    obtain tp h' where r: "removeItem ev c h = Inr (tp, h')" "\<forall>x. event_data (h' x) = event_data (h x)"
      "\<forall>x. x \<notin> set b \<longrightarrow> h' x = h x" "bin_list h' tp (bin_remove ev b @ bs)"
    proof (rule removeItem_ok [of h c b ev])
      show "in_bin h (Some c) b" using n(3) by simp
      show "distinct b" "ev \<in> set b" by (fact d True)+
    qed (use n(3) d(6) b in \<open>simp del: set_concat bin_list.simps(1)\<close>)
    let ?h = "h'(p := (h' p)\<lparr>nextBin := tp\<rparr>)"
    have "set (concat (bin_remove ev b @ bs)) \<subseteq> set (concat (b # bs))"
      using set_remove1_subset [of ev b] by (auto simp: bin_remove_def)
    then have "p \<notin> set (concat (bin_remove ev b @ bs))" using d by auto
    then have tl: "bin_list ?h tp (bin_remove ev b @ bs)" using r(4) by (simp add: bin_list_fun_upd_other)
    have "in_bin ?h (nextInBin (h p)) es = in_bin h (nextInBin (h p)) es"
      by (rule in_bin_cong) (use r(3) d in auto)
    then have "bin_list ?h (Some p) ((p # es) # bin_remove ev b @ bs)"
      using tl n(2) r(3) d(1) by simp
    moreover have "find_bin h ev (p, nextBin (h p)) = Some (p, Some c)" "event_eq (h c) (h ev)"
      using n(1) k by (simp_all add: event_order_key)
    moreover have "\<forall>x. x \<notin> set (concat (b # bs)) \<longrightarrow> h' x = h x" "bins_remove ev (b # bs) = bin_remove ev b @ bs"
      using r(3) True by simp_all
    ultimately show ?thesis using r(1,2) by (metis image_eqI list.sel(1) list.set_intros(1))
  next
    case False
    then have ev: "ev \<in> set (concat bs)" using Cons.prems(3) by simp
    then obtain e where "e \<in> set bs" "ev \<in> set e" by auto
    then have lt: "event_key h c < event_key h ev" using Cons.prems(2) b by (auto simp: bins_sorted_def)
    have srt: "bins_sorted h (b # bs)" using Cons.prems(2) bins_sorted_Cons by blast
    obtain r cc tp h' where r: "find_bin h ev (c, nextBin (h c)) = Some (r, Some cc)" "event_eq (h cc) (h ev)"
      "removeItem ev cc h = Inr (tp, h')" "\<forall>x. event_data (h' x) = event_data (h x)"
      "r \<in> hd ` set (b # bs)" "\<forall>x. x \<notin> set (concat bs) \<longrightarrow> h' x = h x"
      "bin_list (h'(r := (h' r)\<lparr>nextBin := tp\<rparr>)) (Some c) (b # bins_remove ev bs)"
      using Cons.IH [of c cs, folded b, OF n(3) srt ev d(8)] by blast
    let ?h = "h'(r := (h' r)\<lparr>nextBin := tp\<rparr>)"
    have h'_es: "h' x = h x" if "x \<in> set es" for x using r(6) d(5) that by (meson disjoint_iff)
    have "r \<in> set (concat (b # bs))" using r(5) hds by auto
    with d have rp: "r \<noteq> p" by auto
    have "in_bin ?h (nextInBin (h p)) es = in_bin h (nextInBin (h p)) es"
      by (rule in_bin_cong) (use h'_es in simp)
    then have "bin_list ?h (Some p) ((p # es) # b # bins_remove ev bs)"
      using r(6,7) n d(2) rp by simp
    moreover have "find_bin h ev (p, nextBin (h p)) = Some (r, Some cc)"
      using r(1) n(1) lt by (simp add: event_order_key)
    moreover have "\<forall>x. x \<notin> set (concat (b # bs)) \<longrightarrow> h' x = h x" "bins_remove ev (b # bs) = b # bins_remove ev bs"
      "r \<in> hd ` set ((p # es) # b # bs)"
      using r(5,6) False by auto
    ultimately show ?thesis using r(2,3,4) by metis
  qed
qed simp

lemma concat_bins_remove: "concat (bins_remove e bs) = remove1 e (concat bs)"
  by (induction bs) (auto simp: bin_remove_def remove1_append)

lemma hd_bins_remove:
  assumes "bins_sorted h bs" "c \<in> set (bins_remove e bs)"
  shows "\<exists>b \<in> set bs. (\<forall>x \<in> set c. event_key h x = event_key h (hd b)) \<and> event_key h (hd c) = event_key h (hd b)"
  using assms
proof (induction bs)
  case (Cons b bs)
  have "hd (remove1 e b) \<in> set b" if "remove1 e b \<noteq> []"
    using that hd_in_set [OF that] set_remove1_subset [of e b] by blast
  then show ?case using Cons set_remove1_subset [of e b]
    by (cases "e \<in> set b"; cases "c \<in> set bs") (auto simp: bins_sorted_Cons bin_remove_def bins_sorted_def split: if_splits)
qed simp

lemma bins_sorted_remove: "bins_sorted h bs \<Longrightarrow> bins_sorted h (bins_remove e bs)"
proof (induction bs)
  case (Cons b bs)
  have c: "event_key h (hd b) < event_key h (hd c)" if "c \<in> set bs \<or> c \<in> set (bins_remove e bs)" for c
    using that hd_bins_remove [of h bs c e] Cons.prems by (auto simp: bins_sorted_Cons)
  have "hd (remove1 e b) \<in> set b" if "remove1 e b \<noteq> []"
    using that hd_in_set [OF that] set_remove1_subset [of e b] by blast
  then show ?case using Cons set_remove1_subset [of e b] c
    by (auto simp: bins_sorted_Cons bin_remove_def)
qed simp

text \<open>Removal returns, and refines \<open>bins_remove\<close>.\<close>

lemma EventQueue_remove_refines:
  assumes "eq_bins q bs" "ev \<in> set (concat bs)" "e_queue_this (eq_heap q ev)"
  obtains (out) q' where "EventQueue_remove ev q = Inr q'" "relinked q q'"
    "eq_bins q' (bins_remove ev bs)"
proof -
  let ?h = "eq_heap q"
  have b: "bin_list ?h (eq_head q) bs" "distinct (concat bs)" "bins_sorted ?h bs"
    using assms(1) by (auto simp: eq_bins_def)
  have ok: thesis if i: "EventQueue_remove ev q = Inr q'" "relinked q q'"
    "bin_list (eq_heap q') (eq_head q') (bins_remove ev bs)" for q'
    by (rule out [OF i(1,2)], rule eq_bins_relinked [OF assms(1) i(2,3)])
      (use b in \<open>simp_all add: concat_bins_remove distinct_remove1 bins_sorted_remove\<close>)
  obtain p es cs where bs: "bs = (p # es) # cs" "eq_head q = Some p"
    using b(1) assms(2) by (cases bs; cases "hd bs") auto
  show thesis
  proof (cases "ev \<in> set (p # es)")
    case True
    then have k: "event_key ?h p = event_key ?h ev" using b(3) bs by (auto simp: bins_sorted_Cons)
    have i: "in_bin ?h (Some p) (p # es)" "distinct (p # es)" using b bs by auto
    obtain tp h' where r: "removeItem ev p ?h = Inr (tp, h')" "\<forall>x. event_data (h' x) = event_data (?h x)"
      "\<forall>x. x \<notin> set (p # es) \<longrightarrow> h' x = ?h x" "\<forall>bs. bin_list ?h (nextBin (?h p)) bs \<longrightarrow> set (p # es) \<inter> set (concat bs) = {} \<longrightarrow>
         bin_list h' tp (bin_remove ev (p # es) @ bs)"
      by (rule removeItem_ok [OF i True])
    let ?q = "q\<lparr>eq_head := tp, eq_heap := h'\<rparr>"
    have "EventQueue_remove ev q = Inr ?q"
      using bs r(1) k assms(3) by (simp add: EventQueue_remove_def Let_def event_order_key)
    then show thesis by (rule ok) (use r b(1,2) bs True in \<open>auto simp: relinked_def\<close>)
  next
    case False
    then have ev: "ev \<in> set (concat cs)" using assms(2) bs by simp
    then obtain e where "e \<in> set cs" "ev \<in> set e" by auto
    then have lt: "event_key ?h p < event_key ?h ev" using b(3) bs by (auto simp: bins_sorted_def)
    obtain r c tp h' where r: "find_bin ?h ev (p, nextBin (?h p)) = Some (r, Some c)" "event_eq (?h c) (?h ev)"
      "removeItem ev c ?h = Inr (tp, h')" "\<forall>x. event_data (h' x) = event_data (?h x)"
      "bin_list (h'(r := (h' r)\<lparr>nextBin := tp\<rparr>)) (Some p) ((p # es) # bins_remove ev cs)"
      using remove_behind [OF b(1,3) [unfolded bs] ev b(2) [unfolded bs(1)]] by blast
    let ?q = "q\<lparr>eq_heap := h'(r := (h' r)\<lparr>nextBin := tp\<rparr>)\<rparr>"
    have "EventQueue_remove ev q = Inr ?q"
      using bs r(1-3) lt assms(3) by (auto simp: EventQueue_remove_def Let_def event_order_key)
    then show thesis by (rule ok) (use r(4,5) bs False in \<open>auto simp: relinked_def\<close>)
  qed
qed

section \<open>The sequence of pending events\<close>

text \<open>
  Read in order, the bins are the pending events in the order in which they will be serviced. A new
  event goes in front of the first one that is not strictly before it.
\<close>

definition pending_insert :: "('e \<Rightarrow> 'k::linorder) \<Rightarrow> 'e \<Rightarrow> 'e list \<Rightarrow> 'e list" where
  "pending_insert key e xs = takeWhile (\<lambda>x. key x < key e) xs @ e # dropWhile (\<lambda>x. key x < key e) xs"

lemma set_pending_insert [simp]: "set (pending_insert key e xs) = insert e (set xs)"
  unfolding pending_insert_def by (metis Un_insert_right list.simps(15) set_append takeWhile_dropWhile_id)

lemma concat_bins_insert:
  assumes "bins_sorted h bs" "\<forall>b \<in> set bs. b \<noteq> []"
  shows "concat (bins_insert h e bs) = pending_insert (event_key h) e (concat bs)"
  using assms
proof (induction bs)
  case (Cons b bs)
  obtain c cs where b: "b = c # cs" using Cons.prems(2) by (cases b) auto
  show ?case
  proof (cases "event_key h c < event_key h e")
    case True
    then have lt: "event_key h x < event_key h e" if "x \<in> set b" for x
      using Cons.prems(1) b that by (metis bins_sorted_Cons list.sel(1))
    have "takeWhile (\<lambda>x. event_key h x < event_key h e) (b @ ys) = b @ takeWhile (\<lambda>x. event_key h x < event_key h e) ys"
      "dropWhile (\<lambda>x. event_key h x < event_key h e) (b @ ys) = dropWhile (\<lambda>x. event_key h x < event_key h e) ys" for ys
      using lt by (simp_all add: takeWhile_append2 dropWhile_append2)
    moreover have "concat (bins_insert h e bs) = pending_insert (event_key h) e (concat bs)"
      using Cons by (simp add: bins_sorted_Cons)
    moreover have "bins_insert h e (b # bs) = b # bins_insert h e bs" using True b by auto
    ultimately show ?thesis by (simp add: pending_insert_def)
  next
    case False
    then show ?thesis using b by (auto simp: pending_insert_def)
  qed
qed (simp add: pending_insert_def)

lemma sorted_concat_bins: "bins_sorted h bs \<Longrightarrow> sorted (map (event_key h) (concat bs))"
proof (induction bs)
  case (Cons b bs)
  have eq: "event_key h x = event_key h (hd b)" if "x \<in> set b" for x
    using Cons.prems that by (meson bins_sorted_Cons)
  have "map (event_key h) b = replicate (length b) (event_key h (hd b))"
    by (rule nth_equalityI) (simp_all add: eq)
  then have "sorted (map (event_key h) b)" by (metis sorted_replicate)
  moreover have "event_key h x \<le> event_key h y" if xy: "x \<in> set b" "y \<in> set (concat bs)" for x y
  proof -
    obtain c where c: "c \<in> set bs" "y \<in> set c" using xy(2) by auto
    then have "event_key h y = event_key h (hd c)" "event_key h (hd b) < event_key h (hd c)"
      using Cons.prems by (meson bins_sorted_Cons bins_sorted_def)+
    then show ?thesis using eq [OF xy(1)] by simp
  qed
  ultimately show ?case using Cons.IH Cons.prems
    by (simp add: sorted_append bins_sorted_Cons del: set_concat)
qed simp

definition eq_repr :: "eventq \<Rightarrow> event_ptr list \<Rightarrow> bool" where
  "eq_repr q xs \<longleftrightarrow> (\<exists>bs. eq_bins q bs \<and> xs = concat bs)"

lemma eq_bins_nonempty: "eq_bins q bs \<Longrightarrow> \<forall>b \<in> set bs. b \<noteq> []"
  using bin_list_nonempty unfolding eq_bins_def by blast

lemma eq_repr_sorted:
  "eq_repr q xs \<Longrightarrow> distinct xs \<and> sorted (map (event_key (eq_heap q)) xs)"
  using sorted_concat_bins unfolding eq_repr_def eq_bins_def by auto

lemma eq_repr_head: "eq_repr q xs \<Longrightarrow> eq_head q = (case xs of [] \<Rightarrow> None | x # _ \<Rightarrow> Some x)"
  unfolding eq_repr_def eq_bins_def
  by (elim exE conjE) (rename_tac bs, case_tac bs; case_tac "hd bs"; auto)

lemma EventQueue_insert_ok:
  assumes "eq_repr q xs" "ev \<notin> set xs"
  obtains q' where "EventQueue_insert ev q = Inr q'" "relinked q q'"
    "eq_repr q' (pending_insert (event_key (eq_heap q)) ev xs)"
proof -
  obtain bs where bs: "eq_bins q bs" "xs = concat bs" using assms(1) by (auto simp: eq_repr_def)
  obtain q' where "EventQueue_insert ev q = Inr q'" "relinked q q'"
    "eq_bins q' (bins_insert (eq_heap q) ev bs)"
    using EventQueue_insert_refines [OF bs(1)] assms(2) bs(2) by blast
  then show thesis using that [of q'] bs eq_bins_nonempty [OF bs(1)]
    by (metis concat_bins_insert eq_bins_def eq_repr_def)
qed

lemma EventQueue_remove_ok:
  assumes "eq_repr q xs" "ev \<in> set xs" "e_queue_this (eq_heap q ev)"
  obtains q' where "EventQueue_remove ev q = Inr q'" "relinked q q'" "eq_repr q' (remove1 ev xs)"
proof -
  obtain bs where bs: "eq_bins q bs" "xs = concat bs" using assms(1) by (auto simp: eq_repr_def)
  obtain q' where "EventQueue_remove ev q = Inr q'" "relinked q q'" "eq_bins q' (bins_remove ev bs)"
    using EventQueue_remove_refines [OF bs(1)] assms(2,3) bs(2) by blast
  then show thesis using that [of q'] bs by (metis concat_bins_remove eq_repr_def)
qed

end
