(* ===== verification/Event_Queue_Sched.thy ===== *)
theory Event_Queue_Sched
  imports Event_Queue_Props
begin

text \<open>
  Scheduling on top of the linked structure: the invariant of the queue, what \<open>schedule\<close>,
  \<open>deschedule\<close>, \<open>reschedule\<close> and \<open>serviceOne\<close> do to the sequence of pending events and to the view
  of \<open>Event_Handle\<close>, and the main loop.
\<close>

section \<open>Changing one event\<close>

lemma eq_bins_heap:
  assumes "\<forall>e \<in> set (concat bs). nextBin (h' e) = nextBin (eq_heap q e) \<and>
     nextInBin (h' e) = nextInBin (eq_heap q e) \<and> event_key h' e = event_key (eq_heap q) e"
  shows "eq_bins (q\<lparr>eq_heap := h'\<rparr>) bs = eq_bins q bs"
proof -
  have same: "nextBin (h' e) = nextBin (eq_heap q e)" "nextInBin (h' e) = nextInBin (eq_heap q e)"
    "event_key h' e = event_key (eq_heap q) e" if "b \<in> set bs" "e \<in> set b" for b e
    using assms that by auto
  have "bin_list h' (eq_head q) bs = bin_list (eq_heap q) (eq_head q) bs"
    by (rule bin_list_cong) (use same hd_in_set in blast)+
  moreover have "bins_sorted h' bs = bins_sorted (eq_heap q) bs" if "\<forall>b \<in> set bs. b \<noteq> []"
    by (rule bins_sorted_cong) (use same that in blast)+
  ultimately show ?thesis unfolding eq_bins_def using bin_list_nonempty by fastforce
qed

lemma eq_repr_upd:
  assumes "ev \<notin> set xs \<or> (let e = eq_heap q ev in nextBin (f e) = nextBin e \<and> nextInBin (f e) = nextInBin e \<and>
     e_when (f e) = e_when e \<and> e_priority (f e) = e_priority e)"
  shows "eq_repr (upd_event ev f q) xs = eq_repr q xs"
proof -
  have "eq_bins (upd_event ev f q) bs = eq_bins q bs" if "xs = concat bs" for bs
    unfolding upd_event_def by (rule eq_bins_heap) (use assms that in \<open>auto simp: event_key_def Let_def\<close>)
  then show ?thesis unfolding eq_repr_def by blast
qed

lemma upd_event_simps [simp]:
  "eq_heap (upd_event ev f q) = (eq_heap q)(ev := f (eq_heap q ev))" "eq_head (upd_event ev f q) = eq_head q"
  "eq_curTick (upd_event ev f q) = eq_curTick q" "eq_async (upd_event ev f q) = eq_async q"
  "eq_parallel (upd_event ev f q) = eq_parallel q" "eq_current (upd_event ev f q) = eq_current q"
  by (simp_all add: upd_event_def)

lemma eq_repr_cong:
  "eq_head q' = eq_head q \<Longrightarrow> eq_heap q' = eq_heap q \<Longrightarrow> eq_repr q' xs = eq_repr q xs"
  by (simp add: eq_repr_def eq_bins_def)

text \<open>Taking the head off is removing it from its bin.\<close>

lemma pop_head_ok:
  assumes "eq_repr q (ev # xs)"
  obtains q1 where "pop_head q = Inr (ev, upd_event ev (e_scheduled_update (\<lambda>_. False)) q1)"
    "relinked q q1" "eq_repr q1 xs"
proof -
  let ?h = "eq_heap q"
  obtain bs where bs: "eq_bins q bs" "ev # xs = concat bs" using assms(1) by (auto simp: eq_repr_def)
  then obtain es cs where c: "bs = (ev # es) # cs" "eq_head q = Some ev"
    by (cases bs; cases "hd bs") (auto simp: eq_bins_def)
  have b: "in_bin ?h (Some ev) (ev # es)" "bin_list ?h (nextBin (?h ev)) cs" "distinct (concat bs)"
    "bins_sorted ?h bs" using bs(1) c by (auto simp: eq_bins_def)
  have d: "distinct (ev # es)" "set (ev # es) \<inter> set (concat cs) = {}" using b(3) c by auto
  obtain tp h' where r: "removeItem ev ev ?h = Inr (tp, h')" "\<forall>x. event_data (h' x) = event_data (?h x)"
      "\<forall>x. x \<notin> set (ev # es) \<longrightarrow> h' x = ?h x"
      "\<forall>bs. bin_list ?h (nextBin (?h ev)) bs \<longrightarrow> set (ev # es) \<inter> set (concat bs) = {} \<longrightarrow>
         bin_list h' tp (bin_remove ev (ev # es) @ bs)"
    by (rule removeItem_ok [OF b(1) d(1) list.set_intros(1)])
  let ?q = "q\<lparr>eq_head := tp, eq_heap := h'\<rparr>"
  have n: "nextInBin (?h ev) \<noteq> Some ev" using b(1) d(1) by (cases es) auto
  have "pop_head q = Inr (ev, upd_event ev (e_scheduled_update (\<lambda>_. False)) ?q)"
    using r(1) c(2) n
    by (auto simp: pop_head_def removeItem_def Let_def upd_event_def fun_upd_twist split: option.splits)
  moreover have rl: "relinked q ?q" using r(2) by (simp add: relinked_def)
  moreover have "eq_repr ?q xs"
  proof -
    have "bin_list h' tp (bins_remove ev bs)" using r(4) b(2) d(2) c by simp
    then have "eq_bins ?q (bins_remove ev bs)"
      by (intro eq_bins_relinked [OF bs(1) rl])
        (use b in \<open>simp_all add: concat_bins_remove distinct_remove1 bins_sorted_remove\<close>)
    moreover have "xs = concat (bins_remove ev bs)" by (simp add: concat_bins_remove bs(2) [symmetric])
    ultimately show ?thesis unfolding eq_repr_def by blast
  qed
  ultimately show thesis by (rule that)
qed

section \<open>The invariant\<close>

definition queue_data :: "eventq \<Rightarrow> event_ptr list \<Rightarrow> bool" where
  "queue_data q xs \<longleftrightarrow> distinct (xs @ eq_async q) \<and>
     (\<forall>e. e_scheduled (eq_heap q e) \<longleftrightarrow> e \<in> set (xs @ eq_async q)) \<and>
     (\<forall>e. e_scheduled (eq_heap q e) \<longrightarrow> e_initialized (eq_heap q e) \<and> e_queue_this (eq_heap q e)) \<and>
     (\<forall>e \<in> set xs. eq_curTick q \<le> e_when (eq_heap q e)) \<and> (\<forall>e. \<not> e_mainqueue (eq_heap q e))"

definition queue_of :: "eventq \<Rightarrow> event_ptr list \<Rightarrow> bool" where
  "queue_of q xs \<longleftrightarrow> eq_repr q xs \<and> queue_data q xs"

lemma queue_of_new:
  assumes "\<forall>e. \<not> e_scheduled (h e) \<and> \<not> e_mainqueue (h e)"
  shows "queue_of (EventQueue_new h) []"
  using assms by (auto simp: queue_of_def queue_data_def EventQueue_new_def eq_repr_def eq_bins_def
      bins_sorted_def intro!: exI [of _ "[]"])

lemma relinked_flags:
  assumes "relinked q q'"
  shows "e_when (eq_heap q' e) = e_when (eq_heap q e)" "e_priority (eq_heap q' e) = e_priority (eq_heap q e)"
    "e_squashed (eq_heap q' e) = e_squashed (eq_heap q e)" "e_scheduled (eq_heap q' e) = e_scheduled (eq_heap q e)"
    "e_autodelete (eq_heap q' e) = e_autodelete (eq_heap q e)" "e_exit (eq_heap q' e) = e_exit (eq_heap q e)"
    "e_mainqueue (eq_heap q' e) = e_mainqueue (eq_heap q e)"
    "e_initialized (eq_heap q' e) = e_initialized (eq_heap q e)"
    "e_queue_this (eq_heap q' e) = e_queue_this (eq_heap q e)"
  using assms event_data_eqD [of "eq_heap q' e" "eq_heap q e"] by (simp_all add: relinked_def)

lemma relinked_refl [simp]: "relinked q q"
  by (simp add: relinked_def)

lemma relinked_trans [trans]: "relinked q q' \<Longrightarrow> relinked q' q'' \<Longrightarrow> relinked q q''"
  by (simp add: relinked_def)

text \<open>Updates that neither read nor write the links.\<close>

definition data_update :: "(event \<Rightarrow> event) \<Rightarrow> bool" where
  "data_update f \<longleftrightarrow> (\<forall>a b. event_data a = event_data b \<longrightarrow> event_data (f a) = event_data (f b))"

lemma data_updateI: "(\<And>e. event_data (f e) = f (event_data e)) \<Longrightarrow> data_update f"
  by (simp add: data_update_def)

lemma data_update_simps [simp]:
  "data_update (setWhen t)" "data_update (e_scheduled_update (\<lambda>_. s))"
  "data_update (\<lambda>e. e\<lparr>e_squashed := x, e_scheduled := s\<rparr>)" "data_update (e_squashed_update (\<lambda>_. s))"
  by (rule data_updateI, rename_tac e, case_tac e, simp add: event_data_def setWhen_def)+

lemma relinked_upd:
  assumes "relinked q q'" "data_update f"
  shows "relinked (upd_event ev f q) (upd_event ev f q')"
proof -
  have "event_data (f (eq_heap q' ev)) = event_data (f (eq_heap q ev))"
    using assms unfolding relinked_def data_update_def by blast
  then show ?thesis using assms(1) by (simp add: relinked_def)
qed

lemma queue_data_relinked: "relinked q q' \<Longrightarrow> queue_data q' xs = queue_data q xs"
  by (simp add: queue_data_def relinked_flags relinked_fields)

lemma mset_pending_insert: "mset (pending_insert key e xs) = add_mset e (mset xs)"
  unfolding pending_insert_def
  by (metis add_mset_add_single mset.simps(2) mset_append takeWhile_dropWhile_id union_mset_add_mset_right)

lemma distinct_pending_insert [simp]:
  "distinct (pending_insert key e xs) \<longleftrightarrow> e \<notin> set xs \<and> distinct xs"
  by (metis distinct.simps(2) mset.simps(2) mset_eq_imp_distinct_iff mset_pending_insert)

section \<open>Scheduling\<close>

lemma EventQueue_schedule_ok:
  assumes "queue_of q xs" "eq_curTick q \<le> t" "\<not> e_scheduled (eq_heap q ev)" "e_initialized (eq_heap q ev)"
    and "\<not> (eq_parallel q \<and> (\<not> eq_current q \<or> global))"
  obtains q' where "EventQueue_schedule ev t global q = Inr q'"
    "queue_of q' (pending_insert (event_key (eq_heap q')) ev xs)"
    "relinked (upd_event ev (e_scheduled_update (\<lambda>_. True)) (upd_event ev (setWhen t) q)) q'"
proof -
  let ?s = "e_scheduled_update (\<lambda>_. True)" and ?q1 = "upd_event ev (setWhen t) q"
  have q: "eq_repr q xs" "queue_data q xs" and ev: "ev \<notin> set xs" "ev \<notin> set (eq_async q)"
    using assms(1,3) by (auto simp: queue_of_def queue_data_def)
  have "eq_repr ?q1 xs" using q(1) ev by (simp add: eq_repr_upd)
  then obtain q2 where i: "EventQueue_insert ev ?q1 = Inr q2" "relinked ?q1 q2"
      "eq_repr q2 (pending_insert (event_key (eq_heap ?q1)) ev xs)"
    using EventQueue_insert_ok ev(1) by blast
  let ?q3 = "upd_event ev ?s q2"
  have rl: "relinked (upd_event ev ?s ?q1) ?q3" using i(2) by (simp add: relinked_upd)
  have "event_key (eq_heap ?q3) = event_key (eq_heap ?q1)"
    using relinked_key [OF i(2)] by (auto simp: event_key_def fun_eq_iff)
  then have "eq_repr ?q3 (pending_insert (event_key (eq_heap ?q3)) ev xs)"
    using i(3) by (simp add: eq_repr_upd)
  moreover have "queue_data (upd_event ev ?s ?q1) (pending_insert (event_key (eq_heap ?q3)) ev xs)"
    using q(2) ev assms(2,4) by (auto simp: queue_data_def setWhen_def)
  ultimately have "queue_of ?q3 (pending_insert (event_key (eq_heap ?q3)) ev xs)"
    using queue_data_relinked [OF rl] by (simp add: queue_of_def)
  moreover have "EventQueue_schedule ev t global q = Inr ?q3"
    using assms i(1) by (auto simp: EventQueue_schedule_def Let_def)
  ultimately show thesis using that rl by blast
qed

definition unschedule :: "event \<Rightarrow> event" where
  "unschedule e = e\<lparr>e_squashed := False, e_scheduled := False\<rparr>"

definition destroyed :: "event \<Rightarrow> event" where
  "destroyed e = e\<lparr>e_squashed := False, e_autodelete := False, e_exit := False, e_mainqueue := False,
     e_initialized := False\<rparr>"

definition descheduled :: "event \<Rightarrow> event" where
  "descheduled e = (if e_autodelete e then destroyed (unschedule e) else unschedule e)"

lemma data_update_flags [simp]:
  "data_update unschedule" "data_update destroyed" "data_update descheduled"
proof -
  show "data_update unschedule" "data_update destroyed"
    by (rule data_updateI, rename_tac e, case_tac e, simp add: event_data_def unschedule_def destroyed_def)+
  show "data_update descheduled"
    by (rule data_updateI, rename_tac e, case_tac e,
        simp add: event_data_def unschedule_def destroyed_def descheduled_def)
qed

lemma flags_simps [simp]:
  "e_when (unschedule e) = e_when e" "e_priority (unschedule e) = e_priority e"
  "nextBin (unschedule e) = nextBin e" "nextInBin (unschedule e) = nextInBin e"
  "e_scheduled (unschedule e) = False" "e_mainqueue (unschedule e) = e_mainqueue e"
  "e_when (destroyed e) = e_when e" "e_priority (destroyed e) = e_priority e"
  "nextBin (destroyed e) = nextBin e" "nextInBin (destroyed e) = nextInBin e"
  "e_scheduled (destroyed e) = e_scheduled e" "e_mainqueue (destroyed e) = False"
  "e_autodelete (unschedule e) = e_autodelete e"
  by (simp_all add: unschedule_def destroyed_def)

lemma descheduled_simps [simp]:
  "e_when (descheduled e) = e_when e" "e_priority (descheduled e) = e_priority e"
  "nextBin (descheduled e) = nextBin e" "nextInBin (descheduled e) = nextInBin e"
  "e_scheduled (descheduled e) = False" "\<not> e_mainqueue e \<Longrightarrow> \<not> e_mainqueue (descheduled e)"
  by (simp_all add: descheduled_def)

lemma maybe_delete_ok:
  "\<not> e_scheduled (eq_heap q ev) \<Longrightarrow>
   maybe_delete ev q = Inr (upd_event ev (\<lambda>e. if e_autodelete e then destroyed e else e) q)"
  by (auto simp: maybe_delete_def Event_delete_def destroyed_def upd_event_def)

lemma queue_data_remove:
  assumes "queue_data q xs" "ev \<in> set xs" "\<And>e. e_scheduled (f e) = False" "\<And>e. \<not> e_mainqueue e \<Longrightarrow> \<not> e_mainqueue (f e)"
  shows "queue_data (upd_event ev f q) (remove1 ev xs)"
  using assms by (auto simp: queue_data_def distinct_remove1 dest: in_set_remove1 notin_set_remove1)

lemma EventQueue_deschedule_ok:
  assumes "queue_of q xs" "ev \<in> set xs" "\<not> eq_parallel q \<or> eq_current q"
  obtains q' where "EventQueue_deschedule ev q = Inr q'" "queue_of q' (remove1 ev xs)"
    "relinked (upd_event ev descheduled q) q'"
proof -
  have q: "eq_repr q xs" "queue_data q xs" and ev: "e_scheduled (eq_heap q ev)" "e_initialized (eq_heap q ev)"
      "e_queue_this (eq_heap q ev)"
    using assms(1,2) by (auto simp: queue_of_def queue_data_def)
  obtain q2 where i: "EventQueue_remove ev q = Inr q2" "relinked q q2" "eq_repr q2 (remove1 ev xs)"
    using EventQueue_remove_ok q(1) assms(2) ev(3) by blast
  let ?q3 = "upd_event ev descheduled q2"
  have rl: "relinked (upd_event ev descheduled q) ?q3" using i(2) by (simp add: relinked_upd)
  have "eq_repr ?q3 (remove1 ev xs)" using i(3) by (simp add: eq_repr_upd)
  moreover have "queue_data (upd_event ev descheduled q) (remove1 ev xs)"
    by (rule queue_data_remove) (use q(2) assms(2) in auto)
  ultimately have "queue_of ?q3 (remove1 ev xs)"
    using queue_data_relinked [OF rl] by (simp add: queue_of_def)
  moreover have "EventQueue_deschedule ev q = Inr ?q3"
    using assms(3) i(1) ev
    by (auto simp: EventQueue_deschedule_def maybe_delete_ok unschedule_def [symmetric] upd_event_def descheduled_def)
  ultimately show thesis using that rl by blast
qed

lemma EventQueue_reschedule_ok:
  assumes "queue_of q xs" "eq_curTick q \<le> t" "always \<or> e_scheduled (eq_heap q ev)" "e_initialized (eq_heap q ev)"
    and "\<not> eq_parallel q \<or> eq_current q" "ev \<notin> set (eq_async q)"
  obtains q' where "EventQueue_reschedule ev t always q = Inr q'"
    "queue_of q' (pending_insert (event_key (eq_heap q')) ev (remove1 ev xs))"
    "relinked (upd_event ev (\<lambda>e. e\<lparr>e_squashed := False, e_scheduled := True\<rparr>) (upd_event ev (setWhen t) q)) q'"
proof -
  let ?s = "\<lambda>e. e\<lparr>e_squashed := False, e_scheduled := True\<rparr>" and ?xs = "remove1 ev xs"
  have q: "eq_repr q xs" "queue_data q xs" "distinct xs" and ev: "e_scheduled (eq_heap q ev) \<longleftrightarrow> ev \<in> set xs"
      "e_scheduled (eq_heap q ev) \<longrightarrow> e_queue_this (eq_heap q ev)"
    using assms(1,6) by (auto simp: queue_of_def queue_data_def)
  obtain q0 where r: "(if e_scheduled (eq_heap q ev) then EventQueue_remove ev q else Inr q) = Inr q0"
      "relinked q q0" "eq_repr q0 ?xs"
  proof (cases "ev \<in> set xs")
    case True
    then show thesis using EventQueue_remove_ok [OF q(1) True] ev that by auto
  next
    case False
    then show thesis using ev q(1) by (intro that [of q]) (auto simp: remove1_idem)
  qed
  let ?q1 = "upd_event ev (setWhen t) q0"
  have nin: "ev \<notin> set ?xs" using q(3) by simp
  then have "eq_repr ?q1 ?xs" using r(3) by (simp add: eq_repr_upd)
  then obtain q2 where i: "EventQueue_insert ev ?q1 = Inr q2" "relinked ?q1 q2"
      "eq_repr q2 (pending_insert (event_key (eq_heap ?q1)) ev ?xs)"
    using EventQueue_insert_ok nin by blast
  let ?q3 = "upd_event ev ?s q2"
  have rl: "relinked (upd_event ev ?s (upd_event ev (setWhen t) q)) ?q3"
    using r(2) i(2) by (metis data_update_simps(1,3) relinked_trans relinked_upd)
  have "event_key (eq_heap ?q3) = event_key (eq_heap ?q1)"
    using relinked_key [OF i(2)] by (auto simp: event_key_def fun_eq_iff)
  then have "eq_repr ?q3 (pending_insert (event_key (eq_heap ?q3)) ev ?xs)"
    using i(3) by (simp add: eq_repr_upd)
  moreover have "queue_data (upd_event ev ?s (upd_event ev (setWhen t) q)) (pending_insert (event_key (eq_heap ?q3)) ev ?xs)"
    using q(2,3) nin assms(2,4,6) by (auto simp: queue_data_def setWhen_def dest: in_set_remove1)
  ultimately have "queue_of ?q3 (pending_insert (event_key (eq_heap ?q3)) ev ?xs)"
    using queue_data_relinked [OF rl] by (simp add: queue_of_def)
  moreover have "EventQueue_reschedule ev t always q = Inr ?q3"
    using assms(2-5) i(1) r(1) by (auto simp: EventQueue_reschedule_def)
  ultimately show thesis using that rl by blast
qed

end
