(* ===== verification/Event_Queue_Loop.thy ===== *)
theory Event_Queue_Loop
  imports Event_Queue_Sched
begin

text \<open>
  Servicing events: the order, and the loops \<open>serviceEvents\<close> and \<open>doSimLoop\<close>. Both end when every
  handler schedules strictly later than it runs; the measure is the multiset of the distances of the
  pending events to the limit.
\<close>

section \<open>The main loop\<close>

text \<open>\<open>doSimLoop\<close> without the asynchronous requests of signal handlers.\<close>

partial_function (option) sim_loop ::
  "(event_ptr \<Rightarrow> eventq \<Rightarrow> eventq res) \<Rightarrow> eventq \<Rightarrow> ((event_ptr \<times> eventq) res) option" where
  "sim_loop process q =
     (case eq_head q of
        None \<Rightarrow> Some (Inl Assert_Failed)
      | Some hp \<Rightarrow>
          if \<not> eq_curTick q \<le> e_when (eq_heap q hp) then Some (Inl Assert_Failed)
          else
            case serviceOne process q of
              Inl e \<Rightarrow> Some (Inl e)
            | Inr (r, q) \<Rightarrow>
                (case r of
                   Some ev \<Rightarrow> Some (Inr (ev, q))
                 | None \<Rightarrow> sim_loop process q))"

definition doSimLoop ::
  "(event_ptr \<Rightarrow> eventq \<Rightarrow> eventq res) \<Rightarrow> eventq \<Rightarrow> (event_ptr \<times> eventq) res" where
  "doSimLoop process q =
     bindE (handleAsyncInsertions (q\<lparr>eq_current := True\<rparr>)) (\<lambda>q.
     bindE (returns (sim_loop process q)) (\<lambda>r. r))"

section \<open>One event\<close>

text \<open>One queue, no threads: nothing goes through the asynchronous list.\<close>

definition single_mode :: "eventq \<Rightarrow> bool" where
  "single_mode q \<longleftrightarrow> eq_async q = [] \<and> \<not> eq_parallel q"

lemma single_mode_upd [simp]: "single_mode (upd_event ev f q) = single_mode q"
  "single_mode (q\<lparr>eq_curTick := t\<rparr>) = single_mode q"
  by (simp_all add: single_mode_def)

lemma single_mode_relinked: "relinked q q' \<Longrightarrow> single_mode q' = single_mode q"
  by (simp add: single_mode_def relinked_fields)

text \<open>
  What the loops rely on of a handler: it returns, it keeps the queue well formed, everything it
  schedules lies strictly in the future, and it leaves pending exit events alone.
\<close>

definition handler_ok :: "(event_ptr \<Rightarrow> eventq \<Rightarrow> eventq res) \<Rightarrow> bool" where
  "handler_ok process \<longleftrightarrow> (\<forall>ev q xs. queue_of q xs \<longrightarrow> single_mode q \<longrightarrow> ev \<notin> set xs \<longrightarrow>
     (\<exists>q' xs'. process ev q = Inr q' \<and> queue_of q' xs' \<and> single_mode q' \<and> eq_curTick q' = eq_curTick q \<and>
        (\<forall>e \<in> set xs'. eq_curTick q < e_when (eq_heap q' e) \<or>
           e \<in> set xs \<and> e_when (eq_heap q' e) = e_when (eq_heap q e)) \<and>
        (\<forall>e. e_exit (eq_heap q' e) = e_exit (eq_heap q e)) \<and>
        (\<forall>e \<in> set xs. e_exit (eq_heap q e) \<longrightarrow> e \<in> set xs' \<and>
           e_when (eq_heap q' e) = e_when (eq_heap q e) \<and> e_squashed (eq_heap q' e) = e_squashed (eq_heap q e))))"

lemma handler_okE:
  assumes "handler_ok process" "queue_of q xs" "single_mode q" "ev \<notin> set xs"
  obtains q' xs' where "process ev q = Inr q'" "queue_of q' xs'" "single_mode q'" "eq_curTick q' = eq_curTick q"
    "\<forall>e \<in> set xs'. eq_curTick q < e_when (eq_heap q' e) \<or>
       e \<in> set xs \<and> e_when (eq_heap q' e) = e_when (eq_heap q e)"
    "\<forall>e. e_exit (eq_heap q' e) = e_exit (eq_heap q e)"
    "\<forall>e \<in> set xs. e_exit (eq_heap q e) \<longrightarrow> e \<in> set xs' \<and>
       e_when (eq_heap q' e) = e_when (eq_heap q e) \<and> e_squashed (eq_heap q' e) = e_squashed (eq_heap q e)"
  using assms unfolding handler_ok_def by metis

text \<open>The head leaves the queue; the rest is at its tick or later.\<close>

lemma pop_head_queue:
  assumes "queue_of q (ev # xs)"
  obtains q1 where "pop_head q = Inr (ev, q1)" "queue_of q1 xs"
    "relinked (upd_event ev (e_scheduled_update (\<lambda>_. False)) q) q1" "ev \<notin> set xs"
proof -
  have q: "eq_repr q (ev # xs)" "queue_data q (ev # xs)" using assms by (auto simp: queue_of_def)
  obtain q0 where r: "pop_head q = Inr (ev, upd_event ev (e_scheduled_update (\<lambda>_. False)) q0)"
    "relinked q q0" "eq_repr q0 xs" using pop_head_ok [OF q(1)] by blast
  let ?q1 = "upd_event ev (e_scheduled_update (\<lambda>_. False)) q0"
  have rl: "relinked (upd_event ev (e_scheduled_update (\<lambda>_. False)) q) ?q1" using r(2) by (simp add: relinked_upd)
  have "eq_repr ?q1 xs" using r(3) by (simp add: eq_repr_upd)
  moreover have "queue_data (upd_event ev (e_scheduled_update (\<lambda>_. False)) q) xs"
    using queue_data_remove [OF q(2), of ev "e_scheduled_update (\<lambda>_. False)"] by simp
  ultimately have "queue_of ?q1 xs" using queue_data_relinked [OF rl] by (simp add: queue_of_def)
  then show thesis using that r(1) rl q(2) by (auto simp: queue_data_def)
qed

lemma queue_of_sorted:
  assumes "queue_of q (ev # xs)" "e \<in> set xs"
  shows "event_key (eq_heap q) ev \<le> event_key (eq_heap q) e" "e_when (eq_heap q ev) \<le> e_when (eq_heap q e)"
proof -
  show "event_key (eq_heap q) ev \<le> event_key (eq_heap q) e"
    using assms eq_repr_sorted [of q "ev # xs"] by (auto simp: queue_of_def)
  then show "e_when (eq_heap q ev) \<le> e_when (eq_heap q e)" by (auto simp: event_key_def less_eq_prod_def)
qed

lemma queue_of_curTick:
  "queue_of q xs \<Longrightarrow> \<forall>e \<in> set xs. t \<le> e_when (eq_heap q e) \<Longrightarrow> queue_of (q\<lparr>eq_curTick := t\<rparr>) xs"
  by (simp add: queue_of_def queue_data_def eq_repr_cong [of "q\<lparr>eq_curTick := t\<rparr>" q])

lemma queue_of_delete:
  assumes "queue_of q xs" "\<not> e_scheduled (eq_heap q ev)"
  obtains q' where "maybe_delete ev q = Inr q'" "queue_of q' xs" "single_mode q' = single_mode q"
    "eq_curTick q' = eq_curTick q" "ev \<notin> set xs" "\<And>e. e \<noteq> ev \<Longrightarrow> eq_heap q' e = eq_heap q e"
proof -
  let ?q = "upd_event ev (\<lambda>e. if e_autodelete e then destroyed e else e) q"
  have nin: "ev \<notin> set xs" using assms by (auto simp: queue_of_def queue_data_def)
  have "queue_of ?q xs" using assms by (auto simp: queue_of_def queue_data_def eq_repr_upd)
  then show thesis using that [of ?q] assms(2) nin by (simp add: maybe_delete_ok)
qed

text \<open>
  One call of \<open>serviceOne\<close> with a well-behaved handler. Only a serviced exit event is returned, and
  pending exit events stay.
\<close>

lemma serviceOne_ok:
  assumes "handler_ok process" "queue_of q (ev # xs)" "single_mode q"
  obtains r q' xs' where "serviceOne process q = Inr (r, q')" "queue_of q' xs'" "single_mode q'"
    "eq_curTick q' = (if e_squashed (eq_heap q ev) then eq_curTick q else e_when (eq_heap q ev))"
    "\<forall>e \<in> set xs'. e_when (eq_heap q ev) < e_when (eq_heap q' e) \<or>
       e \<in> set xs \<and> e_when (eq_heap q' e) = e_when (eq_heap q e)"
    "r = (if \<not> e_squashed (eq_heap q ev) \<and> e_exit (eq_heap q ev) then Some ev else None)"
    "\<forall>e \<in> set xs. e_exit (eq_heap q e) \<longrightarrow> e \<in> set xs' \<and> e_exit (eq_heap q' e) \<and>
       e_when (eq_heap q' e) = e_when (eq_heap q e) \<and> e_squashed (eq_heap q' e) = e_squashed (eq_heap q e)"
    "r \<noteq> None \<longrightarrow> e_exit (eq_heap q' ev)"
proof -
  obtain q1 where p: "pop_head q = Inr (ev, q1)" "queue_of q1 xs"
      "relinked (upd_event ev (e_scheduled_update (\<lambda>_. False)) q) q1" "ev \<notin> set xs"
    using pop_head_queue [OF assms(2)] by blast
  have rf: "e_when (eq_heap q1 e) = e_when (eq_heap q e)" "e_squashed (eq_heap q1 e) = e_squashed (eq_heap q e)"
    "e_exit (eq_heap q1 e) = e_exit (eq_heap q e)" "\<not> e_scheduled (eq_heap q1 ev)"
    "eq_curTick q1 = eq_curTick q" "single_mode q1" for e
    by (simp_all add: relinked_flags [OF p(3)] relinked_fields [OF p(3)] single_mode_relinked [OF p(3)] assms(3))
  show thesis
  proof (cases "e_squashed (eq_heap q ev)")
    case True
    let ?q2 = "upd_event ev (e_squashed_update (\<lambda>_. False)) q1"
    have "queue_of ?q2 xs" using p(2,4) by (auto simp: queue_of_def queue_data_def eq_repr_upd)
    moreover have "\<not> e_scheduled (eq_heap ?q2 ev)" using rf by simp
    ultimately obtain q' where d: "maybe_delete ev ?q2 = Inr q'" "queue_of q' xs" "single_mode q' = single_mode ?q2"
      "eq_curTick q' = eq_curTick ?q2" "\<And>e. e \<noteq> ev \<Longrightarrow> eq_heap q' e = eq_heap ?q2 e"
      by (rule queue_of_delete) blast
    have same: "eq_heap q' e = eq_heap q1 e" if "e \<in> set xs" for e
      using d(5) [of e] p(4) that by (cases "e = ev") auto
    have "serviceOne process q = Inr (None, q')"
      using p(1) d(1) True rf by (simp add: serviceOne_def)
    then show thesis
      by (rule that [of None q' xs]) (simp_all add: d(2-4) True rf same)
  next
    case False
    let ?q2 = "q1\<lparr>eq_curTick := e_when (eq_heap q ev)\<rparr>"
    have q2: "queue_of ?q2 xs" "single_mode ?q2"
      by (rule queue_of_curTick [OF p(2)]) (use queue_of_sorted(2) [OF assms(2)] rf in simp_all)
    obtain q3 xs' where h0: "process ev ?q2 = Inr q3" "queue_of q3 xs'" "single_mode q3"
      "eq_curTick q3 = eq_curTick ?q2"
      "\<forall>e \<in> set xs'. eq_curTick ?q2 < e_when (eq_heap q3 e) \<or>
         e \<in> set xs \<and> e_when (eq_heap q3 e) = e_when (eq_heap ?q2 e)"
      "\<forall>e. e_exit (eq_heap q3 e) = e_exit (eq_heap ?q2 e)"
      "\<forall>e \<in> set xs. e_exit (eq_heap ?q2 e) \<longrightarrow> e \<in> set xs' \<and>
         e_when (eq_heap q3 e) = e_when (eq_heap ?q2 e) \<and> e_squashed (eq_heap q3 e) = e_squashed (eq_heap ?q2 e)"
      by (rule handler_okE [OF assms(1) q2 p(4)])
    note h = h0 [simplified, unfolded rf]
    have mq: "\<not> e_mainqueue (eq_heap q3 ev)" using h(2) by (simp add: queue_of_def queue_data_def)
    show thesis
    proof (cases "e_exit (eq_heap q ev) \<or> e_scheduled (eq_heap q3 ev)")
      case True
      then have "serviceOne process q = Inr (if e_exit (eq_heap q ev) then Some ev else None, q3)"
        using p(1) h(1,6) False rf mq by (auto simp: serviceOne_def)
      then show thesis
        by (rule that [of _ q3 xs']) (use False h in auto)
    next
      case F: False
      obtain q' where d: "maybe_delete ev q3 = Inr q'" "queue_of q' xs'" "single_mode q' = single_mode q3"
        "eq_curTick q' = eq_curTick q3" "ev \<notin> set xs'" "\<And>e. e \<noteq> ev \<Longrightarrow> eq_heap q' e = eq_heap q3 e"
        using queue_of_delete [OF h(2)] F by blast
      have same: "eq_heap q' e = eq_heap q3 e" if "e \<in> set xs \<or> e \<in> set xs'" for e
        using d(5,6) p(4) that by (cases "e = ev") auto
      have "serviceOne process q = Inr (None, q')"
        using p(1) h(1,6) d(1) False F rf by (simp add: serviceOne_def)
      then show thesis
        by (rule that [of _ q' xs']) (use False F h d(2-4) same in auto)
    qed
  qed
qed

section \<open>The loops end\<close>

definition limit_measure :: "tick \<Rightarrow> eventq \<Rightarrow> event_ptr list \<Rightarrow> nat multiset" where
  "limit_measure t q xs = image_mset (\<lambda>e. unat t - unat (e_when (eq_heap q e)))
     (filter_mset (\<lambda>e. e_when (eq_heap q e) \<le> t) (mset xs))"

lemma limit_measure_cong:
  "\<forall>e \<in> set xs. e_when (eq_heap q' e) = e_when (eq_heap q e) \<Longrightarrow> limit_measure t q' xs = limit_measure t q xs"
  by (induction xs) (simp_all add: limit_measure_def)

lemma limit_measure_decreases:
  assumes "distinct xs'" "e_when (eq_heap q ev) \<le> t"
    and "\<forall>e \<in> set xs'. e_when (eq_heap q ev) < e_when (eq_heap q' e) \<or>
       e \<in> set xs \<and> e_when (eq_heap q' e) = e_when (eq_heap q e)"
  shows "(limit_measure t q' xs', limit_measure t q (ev # xs)) \<in> mult less_than"
proof -
  let ?old = "\<lambda>e. e \<in> set xs \<and> e_when (eq_heap q' e) = e_when (eq_heap q e)"
  let ?A = "filter ?old xs'" and ?B = "filter (\<lambda>e. \<not> ?old e) xs'"
  have split: "limit_measure t q' xs' = limit_measure t q' ?A + limit_measure t q' ?B"
    by (simp add: limit_measure_def flip: image_mset_union filter_union_mset mset_append)
  have "mset ?A \<subseteq># mset xs"
    by (rule mset_subset_eqI) (use assms(1) in \<open>auto simp: distinct_count_atmost_1 count_eq_zero_iff\<close>)
  then have sub: "limit_measure t q ?A \<subseteq># limit_measure t q xs"
    unfolding limit_measure_def by (intro image_mset_subseteq_mono multiset_filter_mono)
  have A: "limit_measure t q' ?A = limit_measure t q ?A"
    by (rule limit_measure_cong) simp
  have B: "k < unat t - unat (e_when (eq_heap q ev))" if "k \<in># limit_measure t q' ?B" for k
    using that assms(2,3) by (auto simp: limit_measure_def word_le_nat_alt word_less_nat_alt)
  let ?J = "add_mset (unat t - unat (e_when (eq_heap q ev))) (limit_measure t q xs - limit_measure t q ?A)"
  have "limit_measure t q (ev # xs) = limit_measure t q ?A + ?J"
    using assms(2) sub by (simp add: limit_measure_def)
  moreover have "(limit_measure t q ?A + limit_measure t q' ?B, limit_measure t q ?A + ?J) \<in> mult less_than"
    by (rule one_step_implies_mult) (use B in auto)
  ultimately show ?thesis using split A by simp
qed

text \<open>\<open>serviceEvents\<close> returns, services exactly up to its limit and leaves only later events.\<close>

lemma service_loop_unfold:
  "eq_head q = None \<Longrightarrow> service_loop process t q = Some (Inr q)"
  "eq_head q = Some hp \<Longrightarrow> e_when (eq_heap q hp) > t \<Longrightarrow> service_loop process t q = Some (Inr q)"
  "eq_head q = Some hp \<Longrightarrow> \<not> e_when (eq_heap q hp) > t \<Longrightarrow> serviceOne process q = Inr (r, q') \<Longrightarrow>
   service_loop process t q = service_loop process t q'"
  by (subst service_loop.simps, simp)+

lemma service_loop_ok:
  assumes "handler_ok process" "queue_of q xs" "single_mode q" "eq_curTick q \<le> t"
  shows "\<exists>q' xs'. service_loop process t q = Some (Inr q') \<and> queue_of q' xs' \<and> single_mode q' \<and>
     (\<forall>e \<in> set xs'. t < e_when (eq_heap q' e)) \<and> eq_curTick q' \<le> t"
  using assms(2-4)
proof (induction "limit_measure t q xs" arbitrary: q xs rule: wf_induct_rule [OF wf_mult [OF wf_less_than]])
  case 1
  note hd = eq_repr_head [of q xs]
  show ?case
  proof (cases xs)
    case Nil
    then have "service_loop process t q = Some (Inr q)"
      using hd 1(2) by (intro service_loop_unfold(1)) (simp add: queue_of_def)
    then show ?thesis using 1 Nil by auto
  next
    case (Cons ev ys)
    then have h: "eq_head q = Some ev" using hd 1(2) by (simp add: queue_of_def)
    show ?thesis
    proof (cases "e_when (eq_heap q ev) > t")
      case True
      then have "\<forall>e \<in> set xs. t < e_when (eq_heap q e)"
        using queue_of_sorted(2) [OF 1(2) [unfolded Cons]] Cons by fastforce
      then show ?thesis using service_loop_unfold(2) [OF h True] 1 by blast
    next
      case False
      obtain r q' xs' where s: "serviceOne process q = Inr (r, q')" "queue_of q' xs'" "single_mode q'"
          "eq_curTick q' = (if e_squashed (eq_heap q ev) then eq_curTick q else e_when (eq_heap q ev))"
          "\<forall>e \<in> set xs'. e_when (eq_heap q ev) < e_when (eq_heap q' e) \<or>
             e \<in> set ys \<and> e_when (eq_heap q' e) = e_when (eq_heap q e)"
        using serviceOne_ok [OF assms(1) 1(2) [unfolded Cons] 1(3)] by metis
      have d: "distinct xs'" using s(2) by (simp add: queue_of_def queue_data_def)
      have "(limit_measure t q' xs', limit_measure t q xs) \<in> mult less_than"
        unfolding Cons by (rule limit_measure_decreases [OF d _ s(5)]) (use False in \<open>simp add: not_less\<close>)
      moreover have "eq_curTick q' \<le> t" using s(4) 1(4) False by (simp add: not_less)
      ultimately show ?thesis using 1(1) s(2,3) service_loop_unfold(3) [OF h False s(1)] by metis
    qed
  qed
qed

text \<open>The main loop.\<close>

lemma sim_loop_unfold:
  "eq_head q = Some hp \<Longrightarrow> eq_curTick q \<le> e_when (eq_heap q hp) \<Longrightarrow> serviceOne process q = Inr (r, q') \<Longrightarrow>
   sim_loop process q = (case r of Some ev \<Rightarrow> Some (Inr (ev, q')) | None \<Rightarrow> sim_loop process q')"
  by (subst sim_loop.simps, simp split: option.splits)

definition exit_pending :: "eventq \<Rightarrow> event_ptr list \<Rightarrow> event_ptr \<Rightarrow> tick \<Rightarrow> bool" where
  "exit_pending q xs x t \<longleftrightarrow> x \<in> set xs \<and> e_exit (eq_heap q x) \<and> \<not> e_squashed (eq_heap q x) \<and> e_when (eq_heap q x) = t"

lemma sim_loop_ok:
  assumes "handler_ok process" "queue_of q xs" "single_mode q" "exit_pending q xs x t"
  shows "\<exists>ev q' xs'. sim_loop process q = Some (Inr (ev, q')) \<and> queue_of q' xs' \<and> e_exit (eq_heap q' ev) \<and>
     eq_curTick q \<le> eq_curTick q' \<and> eq_curTick q' \<le> t \<and> (\<forall>e \<in> set xs'. eq_curTick q' \<le> e_when (eq_heap q' e))"
  using assms(2-4)
proof (induction "limit_measure t q xs" arbitrary: q xs rule: wf_induct_rule [OF wf_mult [OF wf_less_than]])
  case 1
  then obtain ev ys where Cons: "xs = ev # ys" by (cases xs) (auto simp: exit_pending_def)
  have h: "eq_head q = Some ev" "eq_curTick q \<le> e_when (eq_heap q ev)"
    using eq_repr_head [of q xs] 1(2) Cons by (auto simp: queue_of_def queue_data_def)
  have le: "e_when (eq_heap q ev) \<le> t"
    using 1(4) queue_of_sorted(2) [OF 1(2) [unfolded Cons]] Cons by (auto simp: exit_pending_def)
  obtain r q' xs' where s: "serviceOne process q = Inr (r, q')" "queue_of q' xs'" "single_mode q'"
      "eq_curTick q' = (if e_squashed (eq_heap q ev) then eq_curTick q else e_when (eq_heap q ev))"
      "\<forall>e \<in> set xs'. e_when (eq_heap q ev) < e_when (eq_heap q' e) \<or>
         e \<in> set ys \<and> e_when (eq_heap q' e) = e_when (eq_heap q e)"
      "r = (if \<not> e_squashed (eq_heap q ev) \<and> e_exit (eq_heap q ev) then Some ev else None)"
      "\<forall>e \<in> set ys. e_exit (eq_heap q e) \<longrightarrow> e \<in> set xs' \<and> e_exit (eq_heap q' e) \<and>
         e_when (eq_heap q' e) = e_when (eq_heap q e) \<and> e_squashed (eq_heap q' e) = e_squashed (eq_heap q e)"
      "r \<noteq> None \<longrightarrow> e_exit (eq_heap q' ev)"
    by (rule serviceOne_ok [OF assms(1) 1(2) [unfolded Cons] 1(3)])
  have ct: "eq_curTick q \<le> eq_curTick q'" "eq_curTick q' \<le> t" using s(4) h(2) le by auto
  have w: "\<forall>e \<in> set xs'. eq_curTick q' \<le> e_when (eq_heap q' e)"
    using s(2) by (simp add: queue_of_def queue_data_def)
  show ?case
  proof (cases r)
    case (Some ev')
    then have "sim_loop process q = Some (Inr (ev', q'))" using sim_loop_unfold [OF h s(1)] by simp
    moreover have "ev' = ev" using s(6) Some by (auto split: if_splits)
    ultimately show ?thesis using s(2,8) ct w Some by blast
  next
    case None
    then have "x \<noteq> ev" using s(6) 1(4) by (auto simp: exit_pending_def split: if_splits)
    then have x: "exit_pending q' xs' x t" using s(7) 1(4) Cons by (auto simp: exit_pending_def)
    have d: "distinct xs'" using s(2) by (simp add: queue_of_def queue_data_def)
    have "(limit_measure t q' xs', limit_measure t q xs) \<in> mult less_than"
      unfolding Cons by (rule limit_measure_decreases [OF d le s(5)])
    from 1(1) [OF this s(2,3) x] show ?thesis
      using sim_loop_unfold [OF h s(1)] None ct(1) by (auto intro: order_trans)
  qed
qed

section \<open>The self-check\<close>

lemma verify_bin_simps [simp]:
  "verify_bin h None s = Some (Some s)"
  "verify_bin h (Some e) (time, priority, seen) =
     (if e_when (h e) < time \<or> e_when (h e) = time \<and> e_priority (h e) < priority \<or> e \<in> set seen then Some None
      else verify_bin h (nextInBin (h e)) (e_when (h e), e_priority (h e), e # seen))"
  by (subst verify_bin.simps, simp)+

lemma verify_bin_ok:
  assumes "in_bin h p es" "\<forall>e \<in> set es. event_key h e = (t, pr)" "es \<noteq> []" "(time, priority) \<le> (t, pr)"
    and "distinct es" "set es \<inter> set seen = {}"
  shows "verify_bin h p (time, priority, seen) = Some (Some (t, pr, rev es @ seen))"
  using assms
proof (induction es arbitrary: p time priority seen)
  case (Cons e es)
  have k: "e_when (h e) = t" "e_priority (h e) = pr" using Cons.prems(2) by (auto simp: event_key_def)
  have nl: "\<not> t < time" "\<not> (t = time \<and> pr < priority)"
    using Cons.prems(4) by (auto simp: less_eq_prod_def)
  have step: "verify_bin h p (time, priority, seen) = verify_bin h (nextInBin (h e)) (t, pr, e # seen)"
    using Cons.prems(1,6) k nl by auto
  show ?case
  proof (cases "es = []")
    case True
    then show ?thesis using step Cons.prems(1) by simp
  next
    case False
    have "verify_bin h (nextInBin (h e)) (t, pr, e # seen) = Some (Some (t, pr, rev es @ e # seen))"
      by (rule Cons.IH) (use Cons.prems False in auto)
    then show ?thesis using step by simp
  qed
qed simp

lemma verify_bins_unfold:
  "verify_bins h None s = Some True"
  "verify_bins h (Some e) s = (case verify_bin h (Some e) s of None \<Rightarrow> None
     | Some None \<Rightarrow> Some False | Some (Some s) \<Rightarrow> verify_bins h (nextBin (h e)) s)"
  by (subst verify_bins.simps, simp)+

lemma verify_bins_ok:
  assumes "bin_list h p bs" "bins_sorted h bs" "distinct (concat bs)" "set (concat bs) \<inter> set seen = {}"
    and "\<forall>b \<in> set bs. (time, priority) \<le> event_key h (hd b)"
  shows "verify_bins h p (time, priority, seen) = Some True"
  using assms
proof (induction bs arbitrary: p time priority seen)
  case (Cons b bs)
  obtain e es where b: "b = e # es" "p = Some e" using Cons.prems(1) by (cases b) auto
  obtain t pr where k: "event_key h e = (t, pr)" by (cases "event_key h e")
  have kb: "\<forall>x \<in> set b. event_key h x = (t, pr)"
    using Cons.prems(2) b(1) k by (metis bins_sorted_Cons list.sel(1))
  have v: "verify_bin h (Some e) (time, priority, seen) = Some (Some (t, pr, rev b @ seen))"
    by (rule verify_bin_ok [OF _ kb]) (use Cons.prems b k in auto)
  have "verify_bins h (nextBin (h e)) (t, pr, rev b @ seen) = Some True"
  proof (rule Cons.IH)
    show "\<forall>c \<in> set bs. (t, pr) \<le> event_key h (hd c)"
      using Cons.prems(2) b(1) k by (metis bins_sorted_Cons less_imp_le list.sel(1))
    show "bins_sorted h bs" using Cons.prems(2) bins_sorted_Cons by blast
  qed (use Cons.prems(1,3,4) b in auto)
  then show ?case using v b by (simp add: verify_bins_unfold(2))
qed (simp add: verify_bins_unfold)

end
