(* ===== verification/Event_Queue_Main.thy ===== *)
theory Event_Queue_Main
  imports Event_Queue_Loop
begin

text \<open>
  The properties of the event queue: it refines the per-event view of \<open>Event_Handle\<close>, keeps the
  pending events in service order, and its loops end.
\<close>

section \<open>A concrete queue\<close>

text \<open>At tick 10: event 1 at tick 20, events 3 and 2 in one bin at tick 30; event 4 is idle.\<close>

definition example_heap :: event_heap where
  "example_heap = (\<lambda>_. Event_new 50 False False)
     (1 := (Event_new 50 False False)\<lparr>nextBin := Some 3, e_when := 20, e_scheduled := True, e_queue_this := True\<rparr>,
      2 := (Event_new 60 False True)\<lparr>e_when := 30, e_scheduled := True, e_queue_this := True\<rparr>,
      3 := (Event_new 60 False False)\<lparr>nextInBin := Some 2, e_when := 30, e_scheduled := True, e_queue_this := True\<rparr>)"

definition example_queue :: eventq where
  "example_queue = (EventQueue_new example_heap)\<lparr>eq_head := Some 1, eq_curTick := 10\<rparr>"

lemmas example_queue_defs = example_queue_def example_heap_def EventQueue_new_def Event_new_def

lemma example_queue_ok: "queue_of example_queue [1, 3, 2]" "single_mode example_queue"
proof -
  have "eq_bins example_queue [[1], [3, 2]]"
    by (simp add: eq_bins_def bins_sorted_def event_key_def example_queue_defs)
  then have "eq_repr example_queue [1, 3, 2]"
    unfolding eq_repr_def by (intro exI [of _ "[[1], [3, 2]]"]) simp
  moreover have "queue_data example_queue [1, 3, 2]"
    by (simp add: queue_data_def example_queue_defs)
  ultimately show "queue_of example_queue [1, 3, 2]" by (simp add: queue_of_def)
qed (simp add: single_mode_def example_queue_defs)

section \<open>Refinement of the client's view\<close>

definition ev_view :: "eventq \<Rightarrow> event_ptr \<Rightarrow> ev" where
  "ev_view q e = \<lparr>scheduled = e_scheduled (eq_heap q e), ev_when = e_when (eq_heap q e)\<rparr>"

lemma ev_view_relinked: "relinked q q' \<Longrightarrow> ev_view q' = ev_view q"
  by (simp add: ev_view_def relinked_flags fun_eq_iff)

lemma ev_view_upd:
  "ev_view (upd_event ev f q) = (ev_view q)(ev := \<lparr>scheduled = e_scheduled (f (eq_heap q ev)), ev_when = e_when (f (eq_heap q ev))\<rparr>)"
  by (simp add: ev_view_def fun_eq_iff)

lemma schedule_view:
  assumes "queue_of q xs" "single_mode q" "e_initialized (eq_heap q ev)"
  shows "map_sum id ev_view (EventQueue_schedule ev t global q) =
     map_sum id (\<lambda>v. (ev_view q)(ev := v)) (ev_schedule (eq_curTick q) t (ev_view q ev))"
proof (cases "eq_curTick q \<le> t \<and> \<not> e_scheduled (eq_heap q ev)")
  case True
  then obtain q' where q': "EventQueue_schedule ev t global q = Inr q'"
    "relinked (upd_event ev (e_scheduled_update (\<lambda>_. True)) (upd_event ev (setWhen t) q)) q'"
    using EventQueue_schedule_ok [OF assms(1) _ _ assms(3)] assms(2) by (metis single_mode_def)
  have "ev_schedule (eq_curTick q) t (ev_view q ev) = Inr \<lparr>scheduled = True, ev_when = t\<rparr>"
    using True by (simp add: ev_view_def)
  moreover have "ev_view q' = (ev_view q)(ev := \<lparr>scheduled = True, ev_when = t\<rparr>)"
    by (simp add: ev_view_relinked [OF q'(2)] ev_view_upd setWhen_def)
  ultimately show ?thesis using q'(1) by (simp del: ev_schedule_Inr_iff ev_reschedule_Inr_iff)
next
  case False
  then have "EventQueue_schedule ev t global q = Inl Assert_Failed"
    "ev_schedule (eq_curTick q) t (ev_view q ev) = Inl Assert_Failed"
    by (auto simp: EventQueue_schedule_def ev_schedule_def ev_view_def assertE_def)
  then show ?thesis by simp
qed

lemma deschedule_view:
  assumes "queue_of q xs" "single_mode q"
  shows "map_sum id ev_view (EventQueue_deschedule ev q) =
     map_sum id (\<lambda>v. (ev_view q)(ev := v)) (ev_deschedule (ev_view q ev))"
proof (cases "e_scheduled (eq_heap q ev)")
  case True
  then have "ev \<in> set xs" "\<not> eq_parallel q" using assms by (auto simp: queue_of_def queue_data_def single_mode_def)
  then obtain q' where q': "EventQueue_deschedule ev q = Inr q'" "relinked (upd_event ev descheduled q) q'"
    using EventQueue_deschedule_ok [OF assms(1)] by metis
  have "ev_view q' = (ev_view q)(ev := \<lparr>scheduled = False, ev_when = e_when (eq_heap q ev)\<rparr>)"
    by (simp add: ev_view_relinked [OF q'(2)] ev_view_upd)
  then show ?thesis using q'(1) True by (simp add: ev_deschedule_def ev_view_def)
next
  case False
  then show ?thesis by (simp add: EventQueue_deschedule_def ev_deschedule_def ev_view_def)
qed

lemma reschedule_view:
  assumes "queue_of q xs" "single_mode q" "e_initialized (eq_heap q ev)"
  shows "map_sum id ev_view (EventQueue_reschedule ev t always q) =
     map_sum id (\<lambda>v. (ev_view q)(ev := v)) (ev_reschedule (eq_curTick q) t always (ev_view q ev))"
proof (cases "eq_curTick q \<le> t \<and> (always \<or> e_scheduled (eq_heap q ev))")
  case True
  then obtain q' where q': "EventQueue_reschedule ev t always q = Inr q'"
    "relinked (upd_event ev (\<lambda>e. e\<lparr>e_squashed := False, e_scheduled := True\<rparr>) (upd_event ev (setWhen t) q)) q'"
    using EventQueue_reschedule_ok [OF assms(1) _ _ assms(3)] assms(2) by (metis empty_iff empty_set single_mode_def)
  have "ev_reschedule (eq_curTick q) t always (ev_view q ev) = Inr \<lparr>scheduled = True, ev_when = t\<rparr>"
    using True by (simp add: ev_view_def)
  moreover have "ev_view q' = (ev_view q)(ev := \<lparr>scheduled = True, ev_when = t\<rparr>)"
    by (simp add: ev_view_relinked [OF q'(2)] ev_view_upd setWhen_def)
  ultimately show ?thesis using q'(1) by (simp del: ev_schedule_Inr_iff ev_reschedule_Inr_iff)
next
  case False
  then have "EventQueue_reschedule ev t always q = Inl Assert_Failed"
    "ev_reschedule (eq_curTick q) t always (ev_view q ev) = Inl Assert_Failed"
    by (auto simp: EventQueue_reschedule_def ev_reschedule_def ev_view_def assertE_def)
  then show ?thesis by simp
qed

text \<open>
  C3: the linked queue refines the per-event view. On a well-formed queue of a single-threaded
  simulation, \<open>schedule\<close>, \<open>deschedule\<close> and \<open>reschedule\<close> of an initialised event return and change the
  \<open>Scheduled\<close> flag and the tick of that event exactly as the abstract operations do, and of no other
  event; they fail an assertion exactly when the abstract operation does.
\<close>

theorem eventq_refines_handle:
  assumes "queue_of q xs" "single_mode q" "e_initialized (eq_heap q ev)"
  shows "map_sum id ev_view (EventQueue_schedule ev t global q) =
      map_sum id (\<lambda>v. (ev_view q)(ev := v)) (ev_schedule (eq_curTick q) t (ev_view q ev)) \<and>
    map_sum id ev_view (EventQueue_deschedule ev q) =
      map_sum id (\<lambda>v. (ev_view q)(ev := v)) (ev_deschedule (ev_view q ev)) \<and>
    map_sum id ev_view (EventQueue_reschedule ev t always q) =
      map_sum id (\<lambda>v. (ev_view q)(ev := v)) (ev_reschedule (eq_curTick q) t always (ev_view q ev))"
  using schedule_view [OF assms] deschedule_view [OF assms(1,2)] reschedule_view [OF assms] by (intro conjI)

theorem eventq_refines_handle_witness:
  "queue_of example_queue [1, 3, 2] \<and> single_mode example_queue \<and> e_initialized (eq_heap example_queue 3) \<and>
   map_sum id ev_view (EventQueue_deschedule 3 example_queue) =
     Inr ((ev_view example_queue)(3 := \<lparr>scheduled = False, ev_when = 30\<rparr>))"
proof -
  have i: "e_initialized (eq_heap example_queue 3)" by (simp add: example_queue_defs)
  have "ev_deschedule (ev_view example_queue 3) = Inr \<lparr>scheduled = False, ev_when = 30\<rparr>"
    by (simp add: ev_deschedule_def ev_view_def example_queue_defs)
  then show ?thesis using eventq_refines_handle [OF example_queue_ok i] example_queue_ok i
    by (simp del: ev_deschedule_Inr_iff)
qed

section \<open>The pending events\<close>

text \<open>
  C2: what the operations do to the sequence of pending events. \<open>schedule\<close> puts the event in front of
  the first event that is not strictly before it in tick and priority, \<open>deschedule\<close> takes it out,
  \<open>reschedule\<close> does both; the result is again a well-formed queue.
\<close>

theorem pending_sequence:
  assumes "queue_of q xs" "single_mode q" "e_initialized (eq_heap q ev)" "eq_curTick q \<le> t"
  shows "(ev \<notin> set xs \<longrightarrow> (\<exists>q'. EventQueue_schedule ev t global q = Inr q' \<and>
      queue_of q' (pending_insert (event_key (eq_heap q')) ev xs))) \<and>
    (ev \<in> set xs \<longrightarrow> (\<exists>q'. EventQueue_deschedule ev q = Inr q' \<and> queue_of q' (remove1 ev xs))) \<and>
    (always \<or> ev \<in> set xs \<longrightarrow> (\<exists>q'. EventQueue_reschedule ev t always q = Inr q' \<and>
      queue_of q' (pending_insert (event_key (eq_heap q')) ev (remove1 ev xs))))"
proof (intro conjI impI)
  have s: "e_scheduled (eq_heap q ev) \<longleftrightarrow> ev \<in> set xs" "\<not> eq_parallel q" "ev \<notin> set (eq_async q)"
    using assms(1,2) by (auto simp: queue_of_def queue_data_def single_mode_def)
  show "\<exists>q'. EventQueue_schedule ev t global q = Inr q' \<and>
      queue_of q' (pending_insert (event_key (eq_heap q')) ev xs)" if "ev \<notin> set xs"
    using EventQueue_schedule_ok [OF assms(1,4) _ assms(3)] s that by metis
  show "\<exists>q'. EventQueue_deschedule ev q = Inr q' \<and> queue_of q' (remove1 ev xs)" if "ev \<in> set xs"
    using EventQueue_deschedule_ok [OF assms(1) that] s by metis
  show "\<exists>q'. EventQueue_reschedule ev t always q = Inr q' \<and>
      queue_of q' (pending_insert (event_key (eq_heap q')) ev (remove1 ev xs))" if "always \<or> ev \<in> set xs"
    using EventQueue_reschedule_ok [OF assms(1,4) _ assms(3) _ s(3)] s that by metis
qed

theorem pending_sequence_witness:
  "\<exists>q'. EventQueue_schedule 4 25 False example_queue = Inr q' \<and>
     queue_of q' (pending_insert (event_key (eq_heap q')) 4 [1, 3, 2])"
  using pending_sequence [OF example_queue_ok, of 4 25 False] by (simp add: example_queue_defs)

text \<open>
  C4: \<open>serviceOne\<close> takes the first pending event, which no other precedes in tick and priority; among
  equals it is the one inserted last. Unless it is squashed, its handler is called with the clock
  moved forward to its tick, on a well-formed queue of the remaining events, and nothing else runs
  before it.
\<close>

theorem service_in_order:
  assumes "queue_of q (ev # xs)" "\<not> e_squashed (eq_heap q ev)"
  shows "(\<forall>e \<in> set xs. event_key (eq_heap q) ev \<le> event_key (eq_heap q) e) \<and>
    eq_curTick q \<le> e_when (eq_heap q ev) \<and>
    (\<exists>q1. queue_of q1 xs \<and> eq_curTick q1 = e_when (eq_heap q ev) \<and> \<not> e_scheduled (eq_heap q1 ev) \<and>
       (\<forall>e. process ev q1 = Inl e \<longrightarrow> serviceOne process q = Inl e) \<and>
       (\<forall>q2. process ev q1 = Inr q2 \<and> e_scheduled (eq_heap q2 ev) \<and> \<not> e_exit (eq_heap q2 ev) \<longrightarrow>
          serviceOne process q = Inr (None, q2)))"
proof (intro conjI)
  show "\<forall>e \<in> set xs. event_key (eq_heap q) ev \<le> event_key (eq_heap q) e"
    using queue_of_sorted(1) [OF assms(1)] by blast
  show "eq_curTick q \<le> e_when (eq_heap q ev)" using assms by (simp add: queue_of_def queue_data_def)
  obtain q1 where p: "pop_head q = Inr (ev, q1)" "queue_of q1 xs"
    "relinked (upd_event ev (e_scheduled_update (\<lambda>_. False)) q) q1" "ev \<notin> set xs"
    using pop_head_queue [OF assms(1)] by blast
  have rf: "e_when (eq_heap q1 e) = e_when (eq_heap q e)" "\<not> e_squashed (eq_heap q1 ev)"
    "\<not> e_scheduled (eq_heap q1 ev)" for e
    using assms(2) by (simp_all add: relinked_flags [OF p(3)])
  let ?q1 = "q1\<lparr>eq_curTick := e_when (eq_heap q1 ev)\<rparr>"
  have "queue_of ?q1 xs"
    by (rule queue_of_curTick [OF p(2)]) (use queue_of_sorted(2) [OF assms(1)] rf in simp)
  then show "\<exists>q1. queue_of q1 xs \<and> eq_curTick q1 = e_when (eq_heap q ev) \<and> \<not> e_scheduled (eq_heap q1 ev) \<and>
       (\<forall>e. process ev q1 = Inl e \<longrightarrow> serviceOne process q = Inl e) \<and>
       (\<forall>q2. process ev q1 = Inr q2 \<and> e_scheduled (eq_heap q2 ev) \<and> \<not> e_exit (eq_heap q2 ev) \<longrightarrow>
          serviceOne process q = Inr (None, q2))"
    using p(1) rf by (intro exI [of _ ?q1]) (simp add: serviceOne_def)
qed

theorem service_in_order_witness:
  "\<not> e_squashed (eq_heap example_queue 1) \<and>
   (\<exists>q1. queue_of q1 [3, 2] \<and> eq_curTick q1 = 20 \<and> serviceOne (\<lambda>_ _. Inl Panic) example_queue = Inl Panic)"
proof -
  have f: "\<not> e_squashed (eq_heap example_queue 1)" "e_when (eq_heap example_queue 1) = 20"
    by (simp_all add: example_queue_defs)
  then show ?thesis
    using service_in_order [OF example_queue_ok(1) f(1), of "\<lambda>_ _. Inl Panic"] by auto
qed

section \<open>The loops\<close>

text \<open>A handler as a ticking component has it: the event schedules itself again, up to a horizon.\<close>

definition periodic :: "event_ptr \<Rightarrow> eventq \<Rightarrow> eventq res" where
  "periodic ev q = (if e_initialized (eq_heap q ev) \<and> eq_curTick q < 1000
     then EventQueue_schedule ev (eq_curTick q + 20) False q else Inr q)"

lemma periodic_ok: "handler_ok periodic"
  unfolding handler_ok_def
proof (intro allI impI)
  fix ev q xs assume a: "queue_of q xs" "single_mode q" "ev \<notin> set xs"
  show "\<exists>q' xs'. periodic ev q = Inr q' \<and> queue_of q' xs' \<and> single_mode q' \<and> eq_curTick q' = eq_curTick q \<and>
        (\<forall>e \<in> set xs'. eq_curTick q < e_when (eq_heap q' e) \<or>
           e \<in> set xs \<and> e_when (eq_heap q' e) = e_when (eq_heap q e)) \<and>
        (\<forall>e. e_exit (eq_heap q' e) = e_exit (eq_heap q e)) \<and>
        (\<forall>e \<in> set xs. e_exit (eq_heap q e) \<longrightarrow> e \<in> set xs' \<and>
           e_when (eq_heap q' e) = e_when (eq_heap q e) \<and> e_squashed (eq_heap q' e) = e_squashed (eq_heap q e))"
  proof (cases "e_initialized (eq_heap q ev) \<and> eq_curTick q < 1000")
    case True
    then have lt: "eq_curTick q < eq_curTick q + 20" by (auto simp: word_less_nat_alt unat_word_ariths)
    have s: "\<not> e_scheduled (eq_heap q ev)" "\<not> (eq_parallel q \<and> (\<not> eq_current q \<or> False))"
      using a by (auto simp: queue_of_def queue_data_def single_mode_def)
    obtain q' where q': "EventQueue_schedule ev (eq_curTick q + 20) False q = Inr q'"
      "queue_of q' (pending_insert (event_key (eq_heap q')) ev xs)"
      "relinked (upd_event ev (e_scheduled_update (\<lambda>_. True)) (upd_event ev (setWhen (eq_curTick q + 20)) q)) q'"
      using EventQueue_schedule_ok [OF a(1) less_imp_le [OF lt] s(1) _ s(2)] True by metis
    show ?thesis
      by (intro exI [of _ q'] exI [of _ "pending_insert (event_key (eq_heap q')) ev xs"])
        (use q'(1,2) True lt a(2,3) relinked_flags [OF q'(3)] relinked_fields [OF q'(3)]
          single_mode_relinked [OF q'(3)] in \<open>auto simp: periodic_def setWhen_def\<close>)
  next
    case False
    then have "periodic ev q = Inr q" by (auto simp: periodic_def)
    then show ?thesis using a by auto
  qed
qed

text \<open>
  C22: \<open>serviceEvents(when)\<close> ends and returns, provided every handler returns, keeps the queue well
  formed and schedules strictly later than it runs: afterwards the clock stands at \<open>when\<close>, and every
  event still pending is later. How many events the handlers schedule does not matter.
\<close>

theorem serviceEvents_ends:
  assumes "handler_ok process" "queue_of q xs" "single_mode q" "eq_curTick q \<le> t"
  shows "\<exists>q' xs'. serviceEvents process t q = Inr q' \<and> queue_of q' xs' \<and> eq_curTick q' = t \<and>
     (\<forall>e \<in> set xs'. t < e_when (eq_heap q' e))"
proof -
  obtain q' xs' where q': "service_loop process t q = Some (Inr q')" "queue_of q' xs'"
    "\<forall>e \<in> set xs'. t < e_when (eq_heap q' e)" using service_loop_ok [OF assms] by blast
  then have "queue_of (q'\<lparr>eq_curTick := t\<rparr>) xs'" by (intro queue_of_curTick) auto
  then show ?thesis using q' by (intro exI [of _ "q'\<lparr>eq_curTick := t\<rparr>"] exI [of _ xs']) (simp add: serviceEvents_def)
qed

theorem serviceEvents_ends_witness:
  "handler_ok periodic \<and> (\<exists>q' xs'. serviceEvents periodic 500 example_queue = Inr q' \<and> queue_of q' xs' \<and>
     eq_curTick q' = 500 \<and> (\<forall>e \<in> set xs'. 500 < e_when (eq_heap q' e)))"
proof -
  have "eq_curTick example_queue \<le> 500" by (simp add: example_queue_defs)
  then show ?thesis using serviceEvents_ends [OF periodic_ok example_queue_ok] periodic_ok by blast
qed



text \<open>
  C36: the verdict of \<open>debugVerify\<close>. On a well-formed queue the check ends, and it accepts the queue
  unless its first event is at tick 0 with a negative priority: the check starts from tick 0 and
  priority 0, so that it rejects a correct queue there.
\<close>

theorem debugVerify_verdict:
  assumes "queue_of q xs"
  shows "debugVerify q = Inr (case xs of [] \<Rightarrow> True
     | e # _ \<Rightarrow> \<not> (e_when (eq_heap q e) = 0 \<and> e_priority (eq_heap q e) < 0))"
proof -
  let ?h = "eq_heap q"
  obtain bs where bs: "bin_list ?h (eq_head q) bs" "distinct (concat bs)" "bins_sorted ?h bs" "xs = concat bs"
    using assms by (auto simp: queue_of_def eq_repr_def eq_bins_def)
  show ?thesis
  proof (cases bs)
    case Nil
    then show ?thesis using bs by (simp add: debugVerify_def verify_bins_unfold)
  next
    case (Cons b cs)
    then obtain e es where b: "b = e # es" "eq_head q = Some e" using bs(1) by (cases b) auto
    show ?thesis
    proof (cases "e_when (?h e) = 0 \<and> e_priority (?h e) < 0")
      case True
      then have "verify_bins ?h (eq_head q) (0, 0, []) = Some False" using b by (simp add: verify_bins_unfold(2))
      then show ?thesis using True bs(4) Cons b by (simp add: debugVerify_def)
    next
      case False
      have "(0, 0) \<le> event_key ?h e"
        using False word_gt_0 [of "e_when (?h e)"] by (auto simp: event_key_def less_eq_prod_def)
      then have "\<forall>c \<in> set bs. (0, 0) \<le> event_key ?h (hd c)"
        using bs(3) Cons b by (fastforce simp: bins_sorted_Cons)
      then have "verify_bins ?h (eq_head q) (0, 0, []) = Some True"
        using verify_bins_ok [OF bs(1,3,2), of "[]" 0 0] by simp
      then show ?thesis using False bs(4) Cons b by (simp add: debugVerify_def)
    qed
  qed
qed

theorem debugVerify_verdict_witness:
  "queue_of example_queue [1, 3, 2] \<and> debugVerify example_queue = Inr True"
  using debugVerify_verdict [OF example_queue_ok(1)] example_queue_ok(1) by (simp add: example_queue_defs)

end
