(* ===== verification/Branch_Pred.thy ===== *)
theory Branch_Pred
  imports Int_Math
begin

text \<open>
  The direction predictors of \<open>cpu/pred\<close>: the saturating counter \<open>sat_counter.hh\<close>, the local
  predictor \<open>2bit_local.{hh,cc}\<close>, the bi-mode predictor \<open>bi_mode.{hh,cc}\<close> and the tournament
  predictor \<open>tournament.{hh,cc}\<close>. \<open>unsigned\<close> is \<^typ>\<open>32 word\<close>. The history that a lookup hands out
  through its \<open>void *\<close> argument is an option: \<open>None\<close> is the null pointer.
\<close>

unbundle bit_operations_syntax

section \<open>Saturating counters\<close>

record sat_counter =
  initialVal :: u8
  maxVal :: u8
  counter :: u8

text \<open>
  \<open>(1 << bits) - 1\<close>, stored in a \<open>uint8_t\<close>. The shift of an \<open>int\<close> is read as the exact power; from 31
  bits on it would be undefined.
\<close>

definition sat_max :: "u32 \<Rightarrow> u8" where
  "sat_max bs = of_int (2 ^ unat bs - 1)"

text \<open>The default constructor leaves \<open>maxVal\<close> open; \<open>setBits\<close> sets it before the first use.\<close>

definition SatCounter_default :: sat_counter where
  "SatCounter_default = \<lparr>initialVal = 0, maxVal = 0, counter = 0\<rparr>"

definition SatCounter_bits :: "u32 \<Rightarrow> sat_counter" where
  "SatCounter_bits bs = \<lparr>initialVal = 0, maxVal = sat_max bs, counter = 0\<rparr>"

definition SatCounter_init :: "u32 \<Rightarrow> u8 \<Rightarrow> sat_counter res" where
  "SatCounter_init bs initial_val =
     (if initial_val > sat_max bs then Inl Fatal
      else Inr \<lparr>initialVal = initial_val, maxVal = sat_max bs, counter = initial_val\<rparr>)"

definition setBits :: "u32 \<Rightarrow> sat_counter \<Rightarrow> sat_counter" where
  "setBits bs c = c\<lparr>maxVal := sat_max bs\<rparr>"

definition sat_reset :: "sat_counter \<Rightarrow> sat_counter" where
  "sat_reset c = c\<lparr>counter := initialVal c\<rparr>"

definition sat_increment :: "sat_counter \<Rightarrow> sat_counter" where
  "sat_increment c = (if counter c < maxVal c then c\<lparr>counter := counter c + 1\<rparr> else c)"

definition sat_decrement :: "sat_counter \<Rightarrow> sat_counter" where
  "sat_decrement c = (if counter c > 0 then c\<lparr>counter := counter c - 1\<rparr> else c)"

definition sat_read :: "sat_counter \<Rightarrow> u8" where
  "sat_read c = counter c"

definition sat_train :: "bool \<Rightarrow> sat_counter \<Rightarrow> sat_counter" where
  "sat_train taken = (if taken then sat_increment else sat_decrement)"

text \<open>\<open>(branch_addr >> instShiftAmt) & mask\<close>, stored in an \<open>unsigned\<close>.\<close>

definition pc_index :: "addr \<Rightarrow> u32 \<Rightarrow> u32 \<Rightarrow> u32" where
  "pc_index a shift m = ucast (drop_bit (unat shift) a AND ucast m)"

text \<open>\<open>(ULL(1) << (ctrBits - 1)) - 1\<close>, stored in an \<open>unsigned\<close>.\<close>

definition ctr_threshold :: "u32 \<Rightarrow> u32" where
  "ctr_threshold ctrBits = ucast (push_bit (unat (ctrBits - 1)) 1 - 1 :: u64)"

definition above :: "sat_counter \<Rightarrow> u32 \<Rightarrow> bool" where
  "above c threshold \<longleftrightarrow> ucast (sat_read c) > threshold"

section \<open>The local predictor\<close>

record local_bp =
  lb_localCtrs :: "sat_counter list"
  lb_localPredictorSize :: u32
  lb_localPredictorSets :: u32
  lb_localCtrBits :: u32
  lb_indexMask :: u32
  lb_instShiftAmt :: u32

definition LocalBP_new :: "u32 \<Rightarrow> u32 \<Rightarrow> u32 \<Rightarrow> local_bp res" where
  "LocalBP_new psize ctrBits shift =
     (if \<not> isPowerOf2 psize then Inl Fatal
      else if ctrBits = 0 then Inl Undefined
      else
        (let sets = psize div ctrBits in
         if \<not> isPowerOf2 sets then Inl Fatal
         else Inr \<lparr>lb_localCtrs = map (setBits ctrBits) (replicate (unat sets) SatCounter_default),
                   lb_localPredictorSize = psize, lb_localPredictorSets = sets,
                   lb_localCtrBits = ctrBits, lb_indexMask = sets - 1, lb_instShiftAmt = shift\<rparr>))"

definition LocalBP_reset :: "local_bp \<Rightarrow> local_bp" where
  "LocalBP_reset p = p\<lparr>lb_localCtrs := map sat_reset (lb_localCtrs p)\<rparr>"

definition getLocalIndex :: "addr \<Rightarrow> local_bp \<Rightarrow> u32" where
  "getLocalIndex a p = pc_index a (lb_instShiftAmt p) (lb_indexMask p)"

definition getPrediction :: "u8 \<Rightarrow> local_bp \<Rightarrow> bool" where
  "getPrediction count p \<longleftrightarrow> drop_bit (unat (lb_localCtrBits p - 1)) count \<noteq> 0"

definition LocalBP_lookup :: "addr \<Rightarrow> local_bp \<Rightarrow> (bool \<times> unit option \<times> local_bp) res" where
  "LocalBP_lookup a p =
     bindE (vec_at (lb_localCtrs p) (getLocalIndex a p)) (\<lambda>c.
     Inr (getPrediction (sat_read c) p, None, p))"

definition LocalBP_btbUpdate :: "addr \<Rightarrow> unit option \<Rightarrow> local_bp \<Rightarrow> local_bp res" where
  "LocalBP_btbUpdate a h p = Inr p"

definition LocalBP_uncondBranch :: "addr \<Rightarrow> local_bp \<Rightarrow> (unit option \<times> local_bp) res" where
  "LocalBP_uncondBranch a p = Inr (None, p)"

definition LocalBP_update :: "addr \<Rightarrow> bool \<Rightarrow> unit option \<Rightarrow> bool \<Rightarrow> local_bp \<Rightarrow> local_bp res" where
  "LocalBP_update a taken h squashed p =
     bindE (assertE (h = None)) (\<lambda>_.
     bindE (vec_upd (sat_train taken) (getLocalIndex a p) (lb_localCtrs p)) (\<lambda>cs.
     Inr (p\<lparr>lb_localCtrs := cs\<rparr>)))"

definition LocalBP_retireSquashed :: "unit option \<Rightarrow> local_bp \<Rightarrow> local_bp res" where
  "LocalBP_retireSquashed h p = bindE (assertE (h = None)) (\<lambda>_. Inr p)"

definition LocalBP_squash :: "unit option \<Rightarrow> local_bp \<Rightarrow> local_bp res" where
  "LocalBP_squash h p = bindE (assertE (h = None)) (\<lambda>_. Inr p)"

section \<open>The bi-mode predictor\<close>

record bi_mode_history =
  bh_globalHistoryReg :: u32
  takenUsed :: bool
  takenPred :: bool
  notTakenPred :: bool
  finalPred :: bool

record bi_mode =
  choiceCounters :: "sat_counter list"
  takenCounters :: "sat_counter list"
  notTakenCounters :: "sat_counter list"
  bm_globalHistoryReg :: u32
  bm_globalHistoryBits :: u32
  bm_historyRegisterMask :: u32
  bm_choicePredictorSize :: u32
  bm_choiceCtrBits :: u32
  bm_choiceHistoryMask :: u32
  bm_globalPredictorSize :: u32
  bm_globalCtrBits :: u32
  bm_globalHistoryMask :: u32
  bm_choiceThreshold :: u32
  takenThreshold :: u32
  notTakenThreshold :: u32
  bm_instShiftAmt :: u32

definition BiModeBP_new :: "u32 \<Rightarrow> u32 \<Rightarrow> u32 \<Rightarrow> u32 \<Rightarrow> u32 \<Rightarrow> bi_mode res" where
  "BiModeBP_new globalSize globalBits choiceSize choiceBits shift =
     bindE (ceilLog2 (ucast globalSize)) (\<lambda>histBits.
     if \<not> isPowerOf2 choiceSize then Inl Fatal
     else if \<not> isPowerOf2 globalSize then Inl Fatal
     else Inr
       \<lparr>choiceCounters = map (setBits choiceBits) (replicate (unat choiceSize) SatCounter_default),
        takenCounters = map (setBits globalBits) (replicate (unat globalSize) SatCounter_default),
        notTakenCounters = map (setBits globalBits) (replicate (unat globalSize) SatCounter_default),
        bm_globalHistoryReg = 0, bm_globalHistoryBits = of_int histBits,
        bm_historyRegisterMask = ucast (bitmask (nat histBits)),
        bm_choicePredictorSize = choiceSize, bm_choiceCtrBits = choiceBits,
        bm_choiceHistoryMask = choiceSize - 1,
        bm_globalPredictorSize = globalSize, bm_globalCtrBits = globalBits,
        bm_globalHistoryMask = globalSize - 1,
        bm_choiceThreshold = ctr_threshold choiceBits,
        takenThreshold = ctr_threshold choiceBits, notTakenThreshold = ctr_threshold choiceBits,
        bm_instShiftAmt = shift\<rparr>)"

definition shift_history :: "bool \<Rightarrow> u32 \<Rightarrow> u32" where
  "shift_history taken h = (if taken then push_bit 1 h OR 1 else push_bit 1 h)"

definition BiMode_updateGlobalHistReg :: "bool \<Rightarrow> bi_mode \<Rightarrow> bi_mode" where
  "BiMode_updateGlobalHistReg taken p =
     p\<lparr>bm_globalHistoryReg := shift_history taken (bm_globalHistoryReg p) AND bm_historyRegisterMask p\<rparr>"

definition BiModeBP_uncondBranch :: "addr \<Rightarrow> bi_mode \<Rightarrow> (bi_mode_history option \<times> bi_mode) res" where
  "BiModeBP_uncondBranch a p =
     Inr (Some \<lparr>bh_globalHistoryReg = bm_globalHistoryReg p, takenUsed = True, takenPred = True,
                notTakenPred = True, finalPred = True\<rparr>,
          BiMode_updateGlobalHistReg True p)"

text \<open>Squashing dereferences the history.\<close>

definition BiModeBP_squash :: "bi_mode_history option \<Rightarrow> bi_mode \<Rightarrow> bi_mode res" where
  "BiModeBP_squash h p =
     (case h of None \<Rightarrow> Inl Undefined | Some h \<Rightarrow> Inr (p\<lparr>bm_globalHistoryReg := bh_globalHistoryReg h\<rparr>))"

definition bi_mode_choice_idx :: "addr \<Rightarrow> bi_mode \<Rightarrow> u32" where
  "bi_mode_choice_idx a p = pc_index a (bm_instShiftAmt p) (bm_choiceHistoryMask p)"

definition bi_mode_global_idx :: "addr \<Rightarrow> u32 \<Rightarrow> bi_mode \<Rightarrow> u32" where
  "bi_mode_global_idx a ghr p =
     ucast ((drop_bit (unat (bm_instShiftAmt p)) a XOR ucast ghr) AND ucast (bm_globalHistoryMask p))"

definition BiModeBP_lookup :: "addr \<Rightarrow> bi_mode \<Rightarrow> (bool \<times> bi_mode_history option \<times> bi_mode) res" where
  "BiModeBP_lookup a p =
     (let ci = bi_mode_choice_idx a p;
          gi = bi_mode_global_idx a (bm_globalHistoryReg p) p
      in
      bindE (assertE (ci < bm_choicePredictorSize p)) (\<lambda>_.
      bindE (assertE (gi < bm_globalPredictorSize p)) (\<lambda>_.
      bindE (vec_at (choiceCounters p) ci) (\<lambda>cc.
      bindE (vec_at (takenCounters p) gi) (\<lambda>tc.
      bindE (vec_at (notTakenCounters p) gi) (\<lambda>nc.
      let choicePrediction = above cc (bm_choiceThreshold p);
          takenGHBPrediction = above tc (takenThreshold p);
          notTakenGHBPrediction = above nc (notTakenThreshold p);
          finalPrediction = (if choicePrediction then takenGHBPrediction else notTakenGHBPrediction)
      in
      Inr (finalPrediction,
           Some \<lparr>bh_globalHistoryReg = bm_globalHistoryReg p, takenUsed = choicePrediction,
                 takenPred = takenGHBPrediction, notTakenPred = notTakenGHBPrediction,
                 finalPred = finalPrediction\<rparr>,
           BiMode_updateGlobalHistReg finalPrediction p)))))))"

definition BiModeBP_btbUpdate :: "addr \<Rightarrow> bi_mode_history option \<Rightarrow> bi_mode \<Rightarrow> bi_mode res" where
  "BiModeBP_btbUpdate a h p =
     Inr (p\<lparr>bm_globalHistoryReg := bm_globalHistoryReg p AND (bm_historyRegisterMask p AND NOT 1)\<rparr>)"

text \<open>The three steps of \<open>update\<close>: the direction counter used, the choice counter, the history.\<close>

definition bi_mode_train_direction :: "u32 \<Rightarrow> bool \<Rightarrow> bi_mode_history \<Rightarrow> bi_mode \<Rightarrow> bi_mode res" where
  "bi_mode_train_direction gi taken h p =
     (if takenUsed h
      then bindE (vec_upd (sat_train taken) gi (takenCounters p)) (\<lambda>cs.
           Inr (p\<lparr>takenCounters := cs\<rparr>))
      else bindE (vec_upd (sat_train taken) gi (notTakenCounters p)) (\<lambda>cs.
           Inr (p\<lparr>notTakenCounters := cs\<rparr>)))"

definition bi_mode_train_choice :: "u32 \<Rightarrow> bool \<Rightarrow> bi_mode_history \<Rightarrow> bi_mode \<Rightarrow> bi_mode res" where
  "bi_mode_train_choice ci taken h p =
     (if finalPred h = taken \<and> finalPred h \<noteq> takenUsed h then Inr p
      else bindE (vec_upd (sat_train taken) ci (choiceCounters p)) (\<lambda>cs.
           Inr (p\<lparr>choiceCounters := cs\<rparr>)))"

definition BiModeBP_update ::
  "addr \<Rightarrow> bool \<Rightarrow> bi_mode_history option \<Rightarrow> bool \<Rightarrow> bi_mode \<Rightarrow> bi_mode res" where
  "BiModeBP_update a taken hist squashed p =
     (case hist of
        None \<Rightarrow> Inr p
      | Some h \<Rightarrow>
          (let ci = bi_mode_choice_idx a p;
               gi = bi_mode_global_idx a (bh_globalHistoryReg h) p
           in
           bindE (assertE (ci < bm_choicePredictorSize p)) (\<lambda>_.
           bindE (assertE (gi < bm_globalPredictorSize p)) (\<lambda>_.
           bindE (bi_mode_train_direction gi taken h p) (\<lambda>p.
           bindE (bi_mode_train_choice ci taken h p) (\<lambda>p.
           Inr (if squashed
                then p\<lparr>bm_globalHistoryReg :=
                         shift_history taken (bh_globalHistoryReg h) AND bm_historyRegisterMask p\<rparr>
                else p)))))))"

definition BiModeBP_retireSquashed :: "bi_mode_history option \<Rightarrow> bi_mode \<Rightarrow> bi_mode res" where
  "BiModeBP_retireSquashed h p = Inr p"

section \<open>The tournament predictor\<close>

record tournament_history =
  th_globalHistory :: u32
  th_localHistory :: u32
  localPredTaken :: bool
  globalPredTaken :: bool
  globalUsed :: bool

record tournament =
  tn_localCtrs :: "sat_counter list"
  tn_localPredictorSize :: u32
  tn_localPredictorMask :: u32
  tn_localCtrBits :: u32
  localHistoryTable :: "u32 list"
  tn_localHistoryTableSize :: u32
  tn_localHistoryBits :: u32
  tn_globalCtrs :: "sat_counter list"
  tn_globalPredictorSize :: u32
  tn_globalCtrBits :: u32
  tn_globalHistory :: u32
  tn_globalHistoryBits :: u32
  tn_globalHistoryMask :: u32
  tn_choiceHistoryMask :: u32
  tn_historyRegisterMask :: u32
  tn_choiceCtrs :: "sat_counter list"
  tn_choicePredictorSize :: u32
  tn_choiceCtrBits :: u32
  tn_localThreshold :: u32
  tn_globalThreshold :: u32
  tn_choiceThreshold :: u32
  tn_instShiftAmt :: u32

text \<open>\<open>static const int invalidPredictorIndex = -1\<close>, compared with an \<open>unsigned\<close>.\<close>

definition invalidPredictorIndex :: u32 where
  "invalidPredictorIndex = - 1"

record tournament_params =
  par_localPredictorSize :: u32
  par_localCtrBits :: u32
  par_localHistoryTableSize :: u32
  par_globalPredictorSize :: u32
  par_globalCtrBits :: u32
  par_choicePredictorSize :: u32
  par_choiceCtrBits :: u32
  par_instShiftAmt :: u32

definition TournamentBP_new :: "tournament_params \<Rightarrow> tournament res" where
  "TournamentBP_new par =
     bindE (ceilLog2 (ucast (par_localPredictorSize par))) (\<lambda>localBits.
     bindE (ceilLog2 (ucast (par_globalPredictorSize par))) (\<lambda>globalBits.
     bindE (ceilLog2 (ucast (par_choicePredictorSize par))) (\<lambda>choiceBits.
     let histBits = (if globalBits > choiceBits then globalBits else choiceBits);
         historyRegisterMask = ucast (bitmask (nat histBits)) :: u32;
         globalHistoryMask = par_globalPredictorSize par - 1;
         choiceHistoryMask = par_choicePredictorSize par - 1
     in
     if \<not> isPowerOf2 (par_localPredictorSize par) then Inl Fatal
     else if \<not> isPowerOf2 (par_globalPredictorSize par) then Inl Fatal
     else if \<not> isPowerOf2 (par_localHistoryTableSize par) then Inl Fatal
     else if \<not> isPowerOf2 (par_choicePredictorSize par) then Inl Fatal
     else if globalHistoryMask > historyRegisterMask then Inl Fatal
     else if choiceHistoryMask > historyRegisterMask then Inl Fatal
     else Inr
       \<lparr>tn_localCtrs = map (setBits (par_localCtrBits par))
          (replicate (unat (par_localPredictorSize par)) SatCounter_default),
        tn_localPredictorSize = par_localPredictorSize par,
        tn_localPredictorMask = ucast (bitmask (nat localBits)),
        tn_localCtrBits = par_localCtrBits par,
        localHistoryTable = replicate (unat (par_localHistoryTableSize par)) 0,
        tn_localHistoryTableSize = par_localHistoryTableSize par,
        tn_localHistoryBits = of_int localBits,
        tn_globalCtrs = map (setBits (par_globalCtrBits par))
          (replicate (unat (par_globalPredictorSize par)) SatCounter_default),
        tn_globalPredictorSize = par_globalPredictorSize par,
        tn_globalCtrBits = par_globalCtrBits par,
        tn_globalHistory = 0, tn_globalHistoryBits = of_int histBits,
        tn_globalHistoryMask = globalHistoryMask, tn_choiceHistoryMask = choiceHistoryMask,
        tn_historyRegisterMask = historyRegisterMask,
        tn_choiceCtrs = map (setBits (par_choiceCtrBits par))
          (replicate (unat (par_choicePredictorSize par)) SatCounter_default),
        tn_choicePredictorSize = par_choicePredictorSize par,
        tn_choiceCtrBits = par_choiceCtrBits par,
        tn_localThreshold = ctr_threshold (par_localCtrBits par),
        tn_globalThreshold = ctr_threshold (par_globalCtrBits par),
        tn_choiceThreshold = ctr_threshold (par_choiceCtrBits par),
        tn_instShiftAmt = par_instShiftAmt par\<rparr>)))"

definition calcLocHistIdx :: "addr \<Rightarrow> tournament \<Rightarrow> u32" where
  "calcLocHistIdx a p = pc_index a (tn_instShiftAmt p) (tn_localHistoryTableSize p - 1)"

text \<open>\<open>updateGlobalHistTaken\<close> and \<open>updateGlobalHistNotTaken\<close>; the same for the local history.\<close>

definition updateGlobalHist :: "bool \<Rightarrow> tournament \<Rightarrow> tournament" where
  "updateGlobalHist taken p =
     p\<lparr>tn_globalHistory := shift_history taken (tn_globalHistory p) AND tn_historyRegisterMask p\<rparr>"

definition updateLocalHist :: "bool \<Rightarrow> u32 \<Rightarrow> tournament \<Rightarrow> tournament res" where
  "updateLocalHist taken i p =
     bindE (vec_upd (shift_history taken) i (localHistoryTable p)) (\<lambda>t. Inr (p\<lparr>localHistoryTable := t\<rparr>))"

definition TournamentBP_btbUpdate :: "addr \<Rightarrow> tournament_history option \<Rightarrow> tournament \<Rightarrow> tournament res" where
  "TournamentBP_btbUpdate a h p =
     (let p = p\<lparr>tn_globalHistory := tn_globalHistory p AND (tn_historyRegisterMask p AND NOT 1)\<rparr> in
      bindE (vec_upd (\<lambda>l. l AND (tn_localPredictorMask p AND NOT 1)) (calcLocHistIdx a p) (localHistoryTable p)) (\<lambda>t.
      Inr (p\<lparr>localHistoryTable := t\<rparr>)))"

definition TournamentBP_lookup ::
  "addr \<Rightarrow> tournament \<Rightarrow> (bool \<times> tournament_history option \<times> tournament) res" where
  "TournamentBP_lookup a p =
     (let li = calcLocHistIdx a p in
      bindE (vec_at (localHistoryTable p) li) (\<lambda>l.
      let pi = l AND tn_localPredictorMask p in
      bindE (vec_at (tn_localCtrs p) pi) (\<lambda>lc.
      bindE (vec_at (tn_globalCtrs p) (tn_globalHistory p AND tn_globalHistoryMask p)) (\<lambda>gc.
      bindE (vec_at (tn_choiceCtrs p) (tn_globalHistory p AND tn_choiceHistoryMask p)) (\<lambda>cc.
      let local_prediction = above lc (tn_localThreshold p);
          global_prediction = above gc (tn_globalThreshold p);
          choice_prediction = above cc (tn_choiceThreshold p);
          hist = \<lparr>th_globalHistory = tn_globalHistory p, th_localHistory = pi,
                  localPredTaken = local_prediction, globalPredTaken = global_prediction,
                  globalUsed = choice_prediction\<rparr>
      in
      bindE (assertE (li < tn_localHistoryTableSize p)) (\<lambda>_.
      let taken = (if choice_prediction then global_prediction else local_prediction) in
      bindE (updateLocalHist taken li (updateGlobalHist taken p)) (\<lambda>p.
      Inr (taken, Some hist, p))))))))"

definition TournamentBP_uncondBranch :: "addr \<Rightarrow> tournament \<Rightarrow> (tournament_history option \<times> tournament) res" where
  "TournamentBP_uncondBranch a p =
     Inr (Some \<lparr>th_globalHistory = tn_globalHistory p, th_localHistory = invalidPredictorIndex,
                localPredTaken = True, globalPredTaken = True, globalUsed = True\<rparr>,
          updateGlobalHist True p)"

text \<open>The steps of \<open>update\<close>: choice counter, global and local counters, histories.\<close>

definition tournament_train_choice :: "bool \<Rightarrow> tournament_history \<Rightarrow> tournament \<Rightarrow> tournament res" where
  "tournament_train_choice taken h p =
     (if localPredTaken h \<noteq> globalPredTaken h
      then
        (let i = th_globalHistory h AND tn_choiceHistoryMask p in
         if localPredTaken h = taken
         then bindE (vec_upd sat_decrement i (tn_choiceCtrs p)) (\<lambda>cs. Inr (p\<lparr>tn_choiceCtrs := cs\<rparr>))
         else if globalPredTaken h = taken
         then bindE (vec_upd sat_increment i (tn_choiceCtrs p)) (\<lambda>cs. Inr (p\<lparr>tn_choiceCtrs := cs\<rparr>))
         else Inr p)
      else Inr p)"

definition tournament_train_counters :: "bool \<Rightarrow> tournament_history \<Rightarrow> tournament \<Rightarrow> tournament res" where
  "tournament_train_counters taken h p =
     bindE (vec_upd (sat_train taken) (th_globalHistory h AND tn_globalHistoryMask p) (tn_globalCtrs p)) (\<lambda>gs.
     let p = p\<lparr>tn_globalCtrs := gs\<rparr> in
     if th_localHistory h \<noteq> invalidPredictorIndex
     then bindE (vec_upd (sat_train taken) (th_localHistory h AND tn_localPredictorMask p) (tn_localCtrs p)) (\<lambda>ls.
          Inr (p\<lparr>tn_localCtrs := ls\<rparr>))
     else Inr p)"

definition tournament_restore :: "u32 \<Rightarrow> bool \<Rightarrow> tournament_history \<Rightarrow> tournament \<Rightarrow> tournament res" where
  "tournament_restore li taken h p =
     (let p = p\<lparr>tn_globalHistory := shift_history taken (th_globalHistory h) AND tn_historyRegisterMask p\<rparr> in
      if th_localHistory h \<noteq> invalidPredictorIndex
      then bindE (vec_upd (\<lambda>_. shift_history taken (th_localHistory h)) li (localHistoryTable p)) (\<lambda>t.
           Inr (p\<lparr>localHistoryTable := t\<rparr>))
      else Inr p)"

definition TournamentBP_update ::
  "addr \<Rightarrow> bool \<Rightarrow> tournament_history option \<Rightarrow> bool \<Rightarrow> tournament \<Rightarrow> tournament res" where
  "TournamentBP_update a taken hist squashed p =
     (let li = calcLocHistIdx a p in
      bindE (vec_at (localHistoryTable p) li) (\<lambda>_.
      bindE
        (case hist of
           None \<Rightarrow> Inr p
         | Some h \<Rightarrow>
             bindE (assertE (th_localHistory h AND tn_localPredictorMask p < tn_localPredictorSize p)) (\<lambda>_.
             let historyPred = (if globalUsed h then globalPredTaken h else localPredTaken h) in
             bindE
               (if historyPred \<noteq> taken \<or> \<not> squashed
                then bindE (tournament_train_choice taken h p) (tournament_train_counters taken h)
                else Inr p) (\<lambda>p.
             if squashed then tournament_restore li taken h p else Inr p))) (\<lambda>p.
      bindE (assertE (li < tn_localHistoryTableSize p)) (\<lambda>_. Inr p))))"

definition TournamentBP_retireSquashed :: "tournament_history option \<Rightarrow> tournament \<Rightarrow> tournament res" where
  "TournamentBP_retireSquashed h p = Inr p"

definition TournamentBP_squash :: "tournament_history option \<Rightarrow> tournament \<Rightarrow> tournament res" where
  "TournamentBP_squash h p =
     (case h of None \<Rightarrow> Inl Undefined | Some h \<Rightarrow> Inr (p\<lparr>tn_globalHistory := th_globalHistory h\<rparr>))"

end
