(* ===== verification/Bpred_Unit.thy ===== *)
theory Bpred_Unit
  imports Branch_Pred
begin

text \<open>
  The branch target buffer \<open>cpu/pred/btb.{hh,cc}\<close>, the return address stack \<open>cpu/pred/ras.{hh,cc}\<close>
  and the branch prediction unit \<open>cpu/pred/bpred_unit.{hh,cc}\<close> around them. The unit is written
  against the virtual functions of a direction predictor, here a record of operations; the
  instruction set, which the build selects, is a type of program counters with its operations.
  Statistics, probes and tracing are left out.
\<close>

unbundle bit_operations_syntax

section \<open>The branch target buffer\<close>

text \<open>\<open>ThreadID\<close> is an \<open>int16_t\<close>; as an index a negative one is out of range.\<close>

type_synonym thread_id = u16

record 'pc btb_entry =
  be_tag :: addr
  be_target :: 'pc
  be_tid :: thread_id
  be_valid :: bool

record 'pc btb =
  btb_entries :: "'pc btb_entry list"
  btb_numEntries :: u32
  idxMask :: u32
  tagBits :: u32
  tagMask :: u32
  btb_instShiftAmt :: u32
  tagShiftAmt :: u32

definition BTBEntry_new :: "'pc \<Rightarrow> 'pc btb_entry" where
  "BTBEntry_new pc0 = \<lparr>be_tag = 0, be_target = pc0, be_tid = 0, be_valid = False\<rparr>"

definition DefaultBTB_new :: "'pc \<Rightarrow> u32 \<Rightarrow> u32 \<Rightarrow> u32 \<Rightarrow> 'pc btb res" where
  "DefaultBTB_new pc0 entries tbits shift =
     (if \<not> isPowerOf2 entries then Inl Fatal
      else
        bindE (floorLog2_u32 entries) (\<lambda>l.
        Inr \<lparr>btb_entries = replicate (unat entries) (BTBEntry_new pc0), btb_numEntries = entries,
             idxMask = entries - 1, tagBits = tbits, tagMask = of_int (2 ^ unat tbits - 1),
             btb_instShiftAmt = shift, tagShiftAmt = shift + of_int l\<rparr>))"

definition DefaultBTB_reset :: "'pc btb \<Rightarrow> 'pc btb" where
  "DefaultBTB_reset b = b\<lparr>btb_entries := map (\<lambda>e. e\<lparr>be_valid := False\<rparr>) (btb_entries b)\<rparr>"

definition btb_getIndex :: "addr \<Rightarrow> 'pc btb \<Rightarrow> u32" where
  "btb_getIndex pc b = pc_index pc (btb_instShiftAmt b) (idxMask b)"

definition btb_getTag :: "addr \<Rightarrow> 'pc btb \<Rightarrow> addr" where
  "btb_getTag pc b = drop_bit (unat (tagShiftAmt b)) pc AND ucast (tagMask b)"

definition DefaultBTB_valid :: "addr \<Rightarrow> thread_id \<Rightarrow> 'pc btb \<Rightarrow> bool res" where
  "DefaultBTB_valid pc tid b =
     bindE (assertE (btb_getIndex pc b < btb_numEntries b)) (\<lambda>_.
     bindE (vec_at (btb_entries b) (btb_getIndex pc b)) (\<lambda>e.
     Inr (be_valid e \<and> btb_getTag pc b = be_tag e \<and> be_tid e = tid)))"

definition DefaultBTB_lookup :: "'pc \<Rightarrow> addr \<Rightarrow> thread_id \<Rightarrow> 'pc btb \<Rightarrow> 'pc res" where
  "DefaultBTB_lookup pc0 pc tid b =
     bindE (assertE (btb_getIndex pc b < btb_numEntries b)) (\<lambda>_.
     bindE (vec_at (btb_entries b) (btb_getIndex pc b)) (\<lambda>e.
     Inr (if be_valid e \<and> btb_getTag pc b = be_tag e \<and> be_tid e = tid then be_target e else pc0)))"

definition DefaultBTB_update :: "addr \<Rightarrow> 'pc \<Rightarrow> thread_id \<Rightarrow> 'pc btb \<Rightarrow> 'pc btb res" where
  "DefaultBTB_update pc target tid b =
     bindE (assertE (btb_getIndex pc b < btb_numEntries b)) (\<lambda>_.
     bindE (vec_upd (\<lambda>_. \<lparr>be_tag = btb_getTag pc b, be_target = target, be_tid = tid, be_valid = True\<rparr>)
       (btb_getIndex pc b) (btb_entries b)) (\<lambda>es.
     Inr (b\<lparr>btb_entries := es\<rparr>)))"

section \<open>The return address stack\<close>

record 'pc ras =
  addrStack :: "'pc list"
  ras_numEntries :: u32
  usedEntries :: u32
  tos :: u32

text \<open>\<open>init\<close> resizes the stack and resets it, so that all entries are the zero address.\<close>

definition ras_reset :: "'pc \<Rightarrow> 'pc ras \<Rightarrow> 'pc ras" where
  "ras_reset pc0 r = r\<lparr>usedEntries := 0, tos := 0, addrStack := map (\<lambda>_. pc0) (addrStack r)\<rparr>"

definition ras_init :: "'pc \<Rightarrow> u32 \<Rightarrow> 'pc ras" where
  "ras_init pc0 n =
     ras_reset pc0 \<lparr>addrStack = replicate (unat n) pc0, ras_numEntries = n, usedEntries = 0, tos = 0\<rparr>"

definition ras_top :: "'pc ras \<Rightarrow> 'pc res" where
  "ras_top r = vec_at (addrStack r) (tos r)"

definition incrTos :: "'pc ras \<Rightarrow> 'pc ras" where
  "incrTos r = r\<lparr>tos := if tos r + 1 = ras_numEntries r then 0 else tos r + 1\<rparr>"

definition decrTos :: "'pc ras \<Rightarrow> 'pc ras" where
  "decrTos r = r\<lparr>tos := if tos r = 0 then ras_numEntries r - 1 else tos r - 1\<rparr>"

definition ras_push :: "'pc \<Rightarrow> 'pc ras \<Rightarrow> 'pc ras res" where
  "ras_push return_addr r =
     (let r = incrTos r in
      bindE (vec_upd (\<lambda>_. return_addr) (tos r) (addrStack r)) (\<lambda>st.
      Inr (r\<lparr>addrStack := st,
             usedEntries := if usedEntries r \<noteq> ras_numEntries r then usedEntries r + 1 else usedEntries r\<rparr>)))"

definition ras_pop :: "'pc ras \<Rightarrow> 'pc ras" where
  "ras_pop r = decrTos (if usedEntries r > 0 then r\<lparr>usedEntries := usedEntries r - 1\<rparr> else r)"

definition ras_restore :: "u32 \<Rightarrow> 'pc \<Rightarrow> 'pc ras \<Rightarrow> 'pc ras res" where
  "ras_restore top_entry_idx restored r =
     (let r = r\<lparr>tos := top_entry_idx\<rparr> in
      bindE (vec_upd (\<lambda>_. restored) (tos r) (addrStack r)) (\<lambda>st. Inr (r\<lparr>addrStack := st\<rparr>)))"

definition ras_empty :: "'pc ras \<Rightarrow> bool" where
  "ras_empty r \<longleftrightarrow> usedEntries r = 0"

definition ras_full :: "'pc ras \<Rightarrow> bool" where
  "ras_full r \<longleftrightarrow> usedEntries r = ras_numEntries r"

section \<open>The unit\<close>

text \<open>The pure virtual functions of \<open>BPredUnit\<close>.\<close>

record ('p, 'h) dir_ops =
  d_lookup :: "addr \<Rightarrow> 'p \<Rightarrow> (bool \<times> 'h option \<times> 'p) res"
  d_uncondBranch :: "addr \<Rightarrow> 'p \<Rightarrow> ('h option \<times> 'p) res"
  d_btbUpdate :: "addr \<Rightarrow> 'h option \<Rightarrow> 'p \<Rightarrow> 'p res"
  d_update :: "addr \<Rightarrow> bool \<Rightarrow> 'h option \<Rightarrow> bool \<Rightarrow> 'p \<Rightarrow> 'p res"
  d_squash :: "'h option \<Rightarrow> 'p \<Rightarrow> 'p res"
  d_retireSquashed :: "'h option \<Rightarrow> 'p \<Rightarrow> 'p res"

definition LocalBP_ops :: "(local_bp, unit) dir_ops" where
  "LocalBP_ops = \<lparr>d_lookup = LocalBP_lookup, d_uncondBranch = LocalBP_uncondBranch,
     d_btbUpdate = LocalBP_btbUpdate, d_update = LocalBP_update, d_squash = LocalBP_squash,
     d_retireSquashed = LocalBP_retireSquashed\<rparr>"

definition BiModeBP_ops :: "(bi_mode, bi_mode_history) dir_ops" where
  "BiModeBP_ops = \<lparr>d_lookup = BiModeBP_lookup, d_uncondBranch = BiModeBP_uncondBranch,
     d_btbUpdate = BiModeBP_btbUpdate, d_update = BiModeBP_update, d_squash = BiModeBP_squash,
     d_retireSquashed = BiModeBP_retireSquashed\<rparr>"

definition TournamentBP_ops :: "(tournament, tournament_history) dir_ops" where
  "TournamentBP_ops = \<lparr>d_lookup = TournamentBP_lookup, d_uncondBranch = TournamentBP_uncondBranch,
     d_btbUpdate = TournamentBP_btbUpdate, d_update = TournamentBP_update, d_squash = TournamentBP_squash,
     d_retireSquashed = TournamentBP_retireSquashed\<rparr>"

text \<open>
  What the unit uses of the instruction set: the address in a program counter, the return target,
  the zero counter; and of an instruction: its kind and how it advances a program counter.
\<close>

record 'pc isa_ops =
  instAddr :: "'pc \<Rightarrow> addr"
  buildRetPC :: "'pc \<Rightarrow> 'pc \<Rightarrow> 'pc"
  pc_zero :: 'pc

record 'pc static_inst =
  isUncondCtrl :: bool
  isReturn :: bool
  isCall :: bool
  isDirectCtrl :: bool
  branchTarget :: "'pc \<Rightarrow> 'pc"
  advancePC :: "'pc \<Rightarrow> 'pc"

record ('h, 'pc) predictor_history =
  seqNum :: u64
  ph_pc :: addr
  bpHistory :: "'h option"
  RASTarget :: 'pc
  RASIndex :: u32
  ph_tid :: thread_id
  predTaken :: bool
  usedRAS :: bool
  pushedRAS :: bool
  wasCall :: bool
  wasReturn :: bool
  wasSquashed :: bool

definition PredictorHistory_new ::
  "'pc \<Rightarrow> u64 \<Rightarrow> addr \<Rightarrow> bool \<Rightarrow> 'h option \<Rightarrow> thread_id \<Rightarrow> ('h, 'pc) predictor_history" where
  "PredictorHistory_new pc0 sn pc taken h tid =
     \<lparr>seqNum = sn, ph_pc = pc, bpHistory = h, RASTarget = pc0, RASIndex = 0, ph_tid = tid,
      predTaken = taken, usedRAS = False, pushedRAS = False, wasCall = False, wasReturn = False,
      wasSquashed = False\<rparr>"

text \<open>The front of a history deque, its youngest entry, is the head of the list.\<close>

record ('p, 'h, 'pc) bpred_unit =
  predHist :: "('h, 'pc) predictor_history list list"
  BTB :: "'pc btb"
  RAS :: "'pc ras list"
  direction :: 'p

definition BPredUnit_new ::
  "'pc \<Rightarrow> u32 \<Rightarrow> u32 \<Rightarrow> u32 \<Rightarrow> u32 \<Rightarrow> u32 \<Rightarrow> 'p \<Rightarrow> ('p, 'h, 'pc) bpred_unit res" where
  "BPredUnit_new pc0 numThreads entries tbits rasSize shift p =
     bindE (DefaultBTB_new pc0 entries tbits shift) (\<lambda>b.
     Inr \<lparr>predHist = replicate (unat numThreads) [], BTB = b,
          RAS = replicate (unat numThreads) (ras_init pc0 rasSize), direction = p\<rparr>)"

definition drainSanityCheck :: "('p, 'h, 'pc) bpred_unit \<Rightarrow> unit res" where
  "drainSanityCheck u = assertE (\<forall>h \<in> set (predHist u). h = [])"

definition push_history ::
  "thread_id \<Rightarrow> ('h, 'pc) predictor_history \<Rightarrow> ('p, 'h, 'pc) bpred_unit \<Rightarrow> ('p, 'h, 'pc) bpred_unit res" where
  "push_history tid r u =
     bindE (vec_upd (\<lambda>h. r # h) tid (predHist u)) (\<lambda>hs. Inr (u\<lparr>predHist := hs\<rparr>))"

text \<open>
  The lookup of the target in \<open>predict\<close>, on the stack of the thread, after the direction has been
  predicted taken: the new record, whether the branch is still predicted taken, and the next
  program counter.
\<close>

definition predict_target ::
  "('p, 'h) dir_ops \<Rightarrow> 'pc isa_ops \<Rightarrow> 'pc static_inst \<Rightarrow> 'pc \<Rightarrow> thread_id \<Rightarrow> 'h option \<Rightarrow> 'pc btb \<Rightarrow>
   ('h, 'pc) predictor_history \<times> 'pc ras \<times> 'p \<Rightarrow>
   (bool \<times> 'pc \<times> ('h, 'pc) predictor_history \<times> 'pc ras \<times> 'p) res" where
  "predict_target ops isa inst pc tid hist b st =
     (case st of (r, s, p) \<Rightarrow>
      if isReturn inst
      then
        bindE (ras_top s) (\<lambda>rasTop.
        Inr (True, buildRetPC isa pc rasTop,
             r\<lparr>wasReturn := True, usedRAS := True, RASIndex := tos s, RASTarget := rasTop\<rparr>,
             ras_pop s, p))
      else
        bindE (if isCall inst
               then bindE (ras_push pc s) (\<lambda>s. Inr (r\<lparr>pushedRAS := True, wasCall := True\<rparr>, s))
               else Inr (r, s)) (\<lambda>(r, s).
        bindE (DefaultBTB_valid (instAddr isa pc) tid b) (\<lambda>hit.
        if hit
        then
          bindE (DefaultBTB_lookup (pc_zero isa) (instAddr isa pc) tid b) (\<lambda>target.
          Inr (True, target, r, s, p))
        else
          bindE (if \<not> isCall inst \<and> \<not> isReturn inst
                 then bindE (d_btbUpdate ops (instAddr isa pc) hist p) (\<lambda>p. Inr (r, s, p))
                 else if isCall inst \<and> \<not> isUncondCtrl inst
                 then Inr (r\<lparr>pushedRAS := False\<rparr>, ras_pop s, p)
                 else Inr (r, s, p)) (\<lambda>(r, s, p).
          Inr (False, advancePC inst pc, r, s, p)))))"

definition predict ::
  "('p, 'h) dir_ops \<Rightarrow> 'pc isa_ops \<Rightarrow> 'pc static_inst \<Rightarrow> u64 \<Rightarrow> 'pc \<Rightarrow> thread_id \<Rightarrow>
   ('p, 'h, 'pc) bpred_unit \<Rightarrow> (bool \<times> 'pc \<times> ('p, 'h, 'pc) bpred_unit) res" where
  "predict ops isa inst sn pc tid u =
     bindE (if isUncondCtrl inst
            then bindE (d_uncondBranch ops (instAddr isa pc) (direction u)) (\<lambda>(h, p). Inr (True, h, p))
            else d_lookup ops (instAddr isa pc) (direction u)) (\<lambda>(pred_taken, hist, p).
     let r = PredictorHistory_new (pc_zero isa) sn (instAddr isa pc) pred_taken hist tid in
     bindE (vec_at (RAS u) tid) (\<lambda>s.
     bindE (if pred_taken
            then predict_target ops isa inst pc tid hist (BTB u) (r, s, p)
            else Inr (False, advancePC inst pc, if isReturn inst then r\<lparr>wasReturn := True\<rparr> else r, s, p))
       (\<lambda>(taken, target, r, s, p).
     bindE (vec_upd (\<lambda>_. s) tid (RAS u)) (\<lambda>ss.
     bindE (push_history tid r (u\<lparr>RAS := ss, direction := p\<rparr>)) (\<lambda>u.
     Inr (taken, target, u))))))"

text \<open>The target buffer as the pipeline sees it, always with thread 0.\<close>

definition BTBValid :: "addr \<Rightarrow> ('p, 'h, 'pc) bpred_unit \<Rightarrow> bool res" where
  "BTBValid pc u = DefaultBTB_valid pc 0 (BTB u)"

definition BTBLookup :: "'pc \<Rightarrow> addr \<Rightarrow> ('p, 'h, 'pc) bpred_unit \<Rightarrow> 'pc res" where
  "BTBLookup pc0 pc u = DefaultBTB_lookup pc0 pc 0 (BTB u)"

definition BTBUpdate :: "addr \<Rightarrow> 'pc \<Rightarrow> ('p, 'h, 'pc) bpred_unit \<Rightarrow> ('p, 'h, 'pc) bpred_unit res" where
  "BTBUpdate pc target u = bindE (DefaultBTB_update pc target 0 (BTB u)) (\<lambda>b. Inr (u\<lparr>BTB := b\<rparr>))"

text \<open>\<open>predictInOrder\<close>: the predicted program counter is returned.\<close>

definition predictInOrder_target ::
  "'pc isa_ops \<Rightarrow> 'pc static_inst \<Rightarrow> thread_id \<Rightarrow> 'pc \<Rightarrow> 'pc \<Rightarrow> 'pc btb \<Rightarrow>
   ('h, 'pc) predictor_history \<times> 'pc ras \<Rightarrow>
   ('pc option \<times> ('h, 'pc) predictor_history \<times> 'pc ras) res" where
  "predictInOrder_target isa inst asid instPC predPC b st =
     (case st of (r, s) \<Rightarrow>
      if isReturn inst
      then
        bindE (ras_top s) (\<lambda>rasTop.
        bindE (assertE (tos s < 16)) (\<lambda>_.
        Inr (Some (buildRetPC isa instPC rasTop),
             r\<lparr>usedRAS := True, RASIndex := tos s, RASTarget := rasTop\<rparr>, ras_pop s)))
      else
        bindE (if isCall inst
               then bindE (ras_push instPC s) (\<lambda>s. Inr (r\<lparr>pushedRAS := True, wasCall := True\<rparr>, s))
               else Inr (r, s)) (\<lambda>(r, s).
        if isCall inst \<and> isUncondCtrl inst \<and> isDirectCtrl inst
        then Inr (Some (branchTarget inst instPC), r, s)
        else
          bindE (DefaultBTB_valid (instAddr isa predPC) asid b) (\<lambda>hit.
          if hit
          then bindE (DefaultBTB_lookup (pc_zero isa) (instAddr isa predPC) asid b) (\<lambda>target. Inr (Some target, r, s))
          else Inr (None, r, s))))"

definition predictInOrder ::
  "('p, 'h) dir_ops \<Rightarrow> 'pc isa_ops \<Rightarrow> 'pc static_inst \<Rightarrow> u64 \<Rightarrow> thread_id \<Rightarrow> 'pc \<Rightarrow> 'pc \<Rightarrow> thread_id \<Rightarrow>
   ('p, 'h, 'pc) bpred_unit \<Rightarrow> (bool \<times> 'pc \<times> ('p, 'h, 'pc) bpred_unit) res" where
  "predictInOrder ops isa inst sn asid instPC predPC tid u =
     bindE (vec_at (RAS u) tid) (\<lambda>s.
     bindE (if isUncondCtrl inst
            then bindE (d_uncondBranch ops (instAddr isa instPC) (direction u)) (\<lambda>(h, p).
                 Inr (\<not> (isReturn inst \<and> ras_empty s), h, p))
            else d_lookup ops (instAddr isa predPC) (direction u)) (\<lambda>(pred_taken, hist, p).
     let r = PredictorHistory_new (pc_zero isa) sn (instAddr isa predPC) pred_taken hist tid in
     bindE (if pred_taken then predictInOrder_target isa inst asid instPC predPC (BTB u) (r, s)
            else Inr (None, r, s)) (\<lambda>(target, r, s).
     bindE (vec_upd (\<lambda>_. s) tid (RAS u)) (\<lambda>ss.
     bindE (push_history tid r (u\<lparr>RAS := ss, direction := p\<rparr>)) (\<lambda>u.
     Inr (target \<noteq> None, case target of Some t \<Rightarrow> t | None \<Rightarrow> predPC, u))))))"

text \<open>\<open>update(done_sn, tid)\<close>: the loop takes entries from the back of the deque, the oldest first.\<close>

fun commit_loop ::
  "('p, 'h) dir_ops \<Rightarrow> u64 \<Rightarrow> ('h, 'pc) predictor_history list \<Rightarrow> 'p \<Rightarrow>
   (('h, 'pc) predictor_history list \<times> 'p) res" where
  "commit_loop ops done_sn [] p = Inr ([], p)"
| "commit_loop ops done_sn (r # rs) p =
     (if seqNum r \<le> done_sn
      then
        bindE (if \<not> wasSquashed r then d_update ops (ph_pc r) (predTaken r) (bpHistory r) False p
               else d_retireSquashed ops (bpHistory r) p) (\<lambda>p.
        commit_loop ops done_sn rs p)
      else Inr (r # rs, p))"

definition BPredUnit_update ::
  "('p, 'h) dir_ops \<Rightarrow> u64 \<Rightarrow> thread_id \<Rightarrow> ('p, 'h, 'pc) bpred_unit \<Rightarrow> ('p, 'h, 'pc) bpred_unit res" where
  "BPredUnit_update ops done_sn tid u =
     bindE (vec_at (predHist u) tid) (\<lambda>h.
     bindE (commit_loop ops done_sn (rev h) (direction u)) (\<lambda>(rs, p).
     bindE (vec_upd (\<lambda>_. rev rs) tid (predHist u)) (\<lambda>hs.
     Inr (u\<lparr>predHist := hs, direction := p\<rparr>))))"

text \<open>\<open>squash(squashed_sn, tid)\<close>: the loop takes entries from the front, the youngest first.\<close>

fun squash_loop ::
  "('p, 'h) dir_ops \<Rightarrow> u64 \<Rightarrow> ('h, 'pc) predictor_history list \<Rightarrow> 'pc ras \<times> 'p \<Rightarrow>
   (('h, 'pc) predictor_history list \<times> 'pc ras \<times> 'p) res" where
  "squash_loop ops sn [] st = Inr ([], st)"
| "squash_loop ops sn (r # rs) st =
     (if seqNum r > sn
      then
        bindE (if usedRAS r then ras_restore (RASIndex r) (RASTarget r) (fst st)
               else if wasCall r \<and> pushedRAS r then Inr (ras_pop (fst st))
               else Inr (fst st)) (\<lambda>s.
        bindE (d_squash ops (bpHistory r) (snd st)) (\<lambda>p.
        squash_loop ops sn rs (s, p)))
      else Inr (r # rs, st))"

definition squash_after ::
  "('p, 'h) dir_ops \<Rightarrow> u64 \<Rightarrow> thread_id \<Rightarrow> ('p, 'h, 'pc) bpred_unit \<Rightarrow> ('p, 'h, 'pc) bpred_unit res" where
  "squash_after ops sn tid u =
     bindE (vec_at (predHist u) tid) (\<lambda>h.
     bindE (vec_at (RAS u) tid) (\<lambda>s.
     bindE (squash_loop ops sn h (s, direction u)) (\<lambda>(h, s, p).
     bindE (vec_upd (\<lambda>_. h) tid (predHist u)) (\<lambda>hs.
     bindE (vec_upd (\<lambda>_. s) tid (RAS u)) (\<lambda>ss.
     Inr (u\<lparr>predHist := hs, RAS := ss, direction := p\<rparr>))))))"

text \<open>The correction of the mispredicted branch itself, on its record, its stack and the target buffer.\<close>

definition correct_targets ::
  "'pc \<Rightarrow> bool \<Rightarrow> thread_id \<Rightarrow> ('h, 'pc) predictor_history \<Rightarrow> 'pc ras \<Rightarrow> 'pc btb \<Rightarrow>
   (('h, 'pc) predictor_history \<times> 'pc ras \<times> 'pc btb) res" where
  "correct_targets corrTarget actually_taken tid r s b =
     (if actually_taken
      then
        (let (r, s) = (if wasReturn r \<and> \<not> usedRAS r then (r\<lparr>usedRAS := True\<rparr>, ras_pop s) else (r, s)) in
         bindE (DefaultBTB_update (ph_pc r) corrTarget tid b) (\<lambda>b. Inr (r, s, b)))
      else if usedRAS r
      then bindE (ras_restore (RASIndex r) (RASTarget r) s) (\<lambda>s. Inr (r\<lparr>usedRAS := False\<rparr>, s, b))
      else if wasCall r \<and> pushedRAS r
      then Inr (r\<lparr>pushedRAS := False\<rparr>, ras_pop s, b)
      else Inr (r, s, b))"

definition squash_mispredicted ::
  "('p, 'h) dir_ops \<Rightarrow> u64 \<Rightarrow> 'pc \<Rightarrow> bool \<Rightarrow> thread_id \<Rightarrow> ('p, 'h, 'pc) bpred_unit \<Rightarrow>
   ('p, 'h, 'pc) bpred_unit res" where
  "squash_mispredicted ops sn corrTarget actually_taken tid u =
     bindE (squash_after ops sn tid u) (\<lambda>u.
     bindE (vec_at (predHist u) tid) (\<lambda>h.
     case h of
       [] \<Rightarrow> Inr u
     | r # rs \<Rightarrow>
         bindE (assertE (seqNum r = sn)) (\<lambda>_.
         bindE (d_update ops (ph_pc r) actually_taken (bpHistory r) True (direction u)) (\<lambda>p.
         bindE (vec_at (RAS u) tid) (\<lambda>s.
         bindE (correct_targets corrTarget actually_taken tid (r\<lparr>wasSquashed := True\<rparr>) s (BTB u)) (\<lambda>(r, s, b).
         bindE (vec_upd (\<lambda>_. r # rs) tid (predHist u)) (\<lambda>hs.
         bindE (vec_upd (\<lambda>_. s) tid (RAS u)) (\<lambda>ss.
         Inr (u\<lparr>predHist := hs, RAS := ss, BTB := b, direction := p\<rparr>)))))))))"

end
