(* ===== verification/Bpred_Props.thy ===== *)
theory Bpred_Props
  imports Bpred_Unit
begin

text \<open>
  The direction predictors: counters stay within their width and predict by their top bit; every
  operation of a predictor built by its constructor runs without a failed assertion or an index out
  of range; and the contract that the prediction unit relies on.
\<close>

unbundle bit_operations_syntax

section \<open>Saturating counters\<close>

lemma unat_sat_max: "unat bs \<le> 8 \<Longrightarrow> unat (sat_max bs) = 2 ^ unat bs - 1"
proof -
  assume a: "unat bs \<le> 8"
  have "(2 :: nat) ^ unat bs \<le> 2 ^ 8" by (rule power_increasing) (use a in auto)
  then have b: "(2 :: nat) ^ unat bs - 1 < 256" by simp
  have "sat_max bs = of_nat (2 ^ unat bs - 1)" by (simp add: sat_max_def of_nat_diff)
  then show ?thesis using b by (simp only: unat_of_nat) simp
qed

definition sat_ok :: "u32 \<Rightarrow> sat_counter \<Rightarrow> bool" where
  "sat_ok bs c \<longleftrightarrow> maxVal c = sat_max bs \<and> counter c \<le> maxVal c"

lemma unat_sat_train:
  assumes "counter c \<le> maxVal c"
  shows "unat (counter (sat_train taken c)) =
    (if taken then min (unat (counter c) + 1) (unat (maxVal c)) else unat (counter c) - 1)"
proof (cases taken)
  case True
  have "unat (counter c + 1) = unat (counter c) + 1" if "counter c < maxVal c"
    using that unsigned_less [of "maxVal c", where ?'a = nat] by (simp add: unat_word_ariths word_less_nat_alt)
  then show ?thesis using True assms
    by (auto simp: sat_train_def sat_increment_def word_less_nat_alt word_le_nat_alt)
next
  case False
  then show ?thesis
    by (auto simp: sat_train_def sat_decrement_def unat_minus_one word_gt_0)
qed

lemma sat_train_fields [simp]:
  "maxVal (sat_train t c) = maxVal c" "initialVal (sat_train t c) = initialVal c"
  by (auto simp: sat_train_def sat_increment_def sat_decrement_def)

lemma sat_train_ok: "sat_ok bs c \<Longrightarrow> sat_ok bs (sat_train t c)"
  using unat_sat_train [of c t] by (auto simp: sat_ok_def word_le_nat_alt)

lemma sat_inc_dec: "sat_increment = sat_train True" "sat_decrement = sat_train False"
  by (simp_all add: sat_train_def)

lemma setBits_ok: "sat_ok bs (setBits bs SatCounter_default)"
  by (simp add: sat_ok_def setBits_def SatCounter_default_def)

lemma fold_train_taken:
  assumes "counter c \<le> maxVal c"
  shows "unat (counter ((sat_train True ^^ n) c)) = min (unat (counter c) + n) (unat (maxVal c)) \<and>
    maxVal ((sat_train True ^^ n) c) = maxVal c"
  using assms by (induction n) (auto simp: unat_sat_train word_le_nat_alt)

lemma fold_train_not_taken:
  assumes "counter c \<le> maxVal c"
  shows "unat (counter ((sat_train False ^^ n) c)) = unat (counter c) - n \<and>
    maxVal ((sat_train False ^^ n) c) = maxVal c"
  using assms by (induction n) (auto simp: unat_sat_train word_le_nat_alt)

text \<open>The two ways in which the predictors read a counter.\<close>

lemma ctr_threshold_eq:
  assumes "1 \<le> unat bs" "unat bs \<le> 8"
  shows "unat (ctr_threshold bs) = 2 ^ (unat bs - 1) - 1"
proof -
  have bs: "unat (bs - 1) = unat bs - 1"
    using assms(1) by (simp add: unat_sub word_le_nat_alt)
  have "(2 :: nat) ^ (unat bs - 1) \<le> 2 ^ 7" by (rule power_increasing) (use assms in auto)
  then have b: "(2 :: nat) ^ (unat bs - 1) - 1 < 2 ^ 32" by simp
  have "unat (mask (unat bs - 1) :: u64) = 2 ^ (unat bs - 1) - 1"
    using assms by (subst unat_mask) (simp_all add: mask_eq_exp_minus_1)
  then have "unat (push_bit (unat bs - 1) 1 - 1 :: u64) = 2 ^ (unat bs - 1) - 1"
    by (simp add: push_bit_eq_mult mask_eq_exp_minus_1)
  then show ?thesis using b unfolding ctr_threshold_def bs by (simp add: unsigned_ucast_eq take_bit_nat_eq_self)
qed

lemma above_threshold:
  assumes "1 \<le> unat bs" "unat bs \<le> 8"
  shows "above c (ctr_threshold bs) \<longleftrightarrow> 2 ^ (unat bs - 1) \<le> unat (counter c)"
proof -
  have "unat (ucast (counter c) :: u32) = unat (counter c)"
    using unsigned_less [of "counter c", where ?'a = nat] by (simp add: unsigned_ucast_eq take_bit_nat_eq_self)
  moreover have "(0 :: nat) < 2 ^ (unat bs - 1)" by simp
  ultimately show ?thesis
    unfolding above_def sat_read_def word_less_nat_alt ctr_threshold_eq [OF assms] by linarith
qed

lemma getPrediction_msb:
  assumes "1 \<le> unat (lb_localCtrBits p)"
  shows "getPrediction count p \<longleftrightarrow> 2 ^ (unat (lb_localCtrBits p) - 1) \<le> unat count"
proof -
  let ?k = "unat (lb_localCtrBits p) - 1"
  have bs: "unat (lb_localCtrBits p - 1) = ?k" using assms by (simp add: unat_sub word_le_nat_alt)
  have "drop_bit ?k count \<noteq> 0 \<longleftrightarrow> unat count div 2 ^ ?k \<noteq> 0"
    by (metis unat_drop_bit_div unat_eq_zero unsigned_0)
  then show ?thesis by (simp add: getPrediction_def bs div_eq_0_iff not_less)
qed

section \<open>The contract of a direction predictor\<close>

text \<open>
  What the unit relies on: on states of an invariant every virtual function returns and keeps the
  invariant; the history handed out saves the speculative global history, which \<open>squash\<close> restores;
  committing does not touch it.
\<close>

locale direction_predictor =
  fixes ops :: "('p, 'h) dir_ops"
    and inv :: "'p \<Rightarrow> bool"
    and hist_ok :: "'h option \<Rightarrow> bool"
    and ghr :: "'p \<Rightarrow> 'g"
    and saved :: "'h option \<Rightarrow> 'g"
  assumes lookup_ok: "inv p \<Longrightarrow> \<exists>t h p'. d_lookup ops a p = Inr (t, h, p') \<and> inv p' \<and> hist_ok h \<and> saved h = ghr p"
    and uncond_ok: "inv p \<Longrightarrow> \<exists>h p'. d_uncondBranch ops a p = Inr (h, p') \<and> inv p' \<and> hist_ok h \<and> saved h = ghr p"
    and btbUpdate_ok: "inv p \<Longrightarrow> hist_ok h \<Longrightarrow> \<exists>p'. d_btbUpdate ops a h p = Inr p' \<and> inv p'"
    and update_ok: "inv p \<Longrightarrow> hist_ok h \<Longrightarrow> \<exists>p'. d_update ops a t h sq p = Inr p' \<and> inv p' \<and> (\<not> sq \<longrightarrow> ghr p' = ghr p)"
    and squash_ok: "inv p \<Longrightarrow> hist_ok h \<Longrightarrow> \<exists>p'. d_squash ops h p = Inr p' \<and> inv p' \<and> ghr p' = saved h"
    and retire_ok: "inv p \<Longrightarrow> hist_ok h \<Longrightarrow> \<exists>p'. d_retireSquashed ops h p = Inr p' \<and> inv p' \<and> ghr p' = ghr p"

subsection \<open>Indices\<close>

lemma unat_and_le: "unat (x AND m) \<le> unat m" for m :: "'a::len word"
  using word_and_le1 [of x m] by (simp add: word_le_nat_alt)

lemma unat_and_mask_lt: "n \<noteq> 0 \<Longrightarrow> unat (x AND (n - 1)) < unat n" for n :: "'a::len word"
  using unat_and_le [of x "n - 1"] by (simp add: unat_minus_one unat_gt_0 le_less_trans)

lemma unat_ucast_u32: "unat (ucast (m :: u32) :: u64) = unat m"
  using unsigned_less [of m, where ?'a = nat] by (simp add: unsigned_ucast_eq take_bit_nat_eq_self)

lemma unat_index_lt:
  assumes "n \<noteq> 0" shows "unat (ucast ((x :: u64) AND ucast (n - 1 :: u32)) :: u32) < unat n"
proof -
  have "unat (ucast (x AND ucast (n - 1)) :: u32) \<le> unat (x AND ucast (n - 1))"
    by (simp add: unsigned_ucast_eq take_bit_nat_less_eq_self)
  also have "\<dots> \<le> unat (n - 1)" using unat_and_le [of x "ucast (n - 1)"] unat_ucast_u32 by metis
  also have "\<dots> < unat n" using assms by (simp add: unat_minus_one unat_gt_0)
  finally show ?thesis .
qed

lemma pc_index_lt: "n \<noteq> 0 \<Longrightarrow> unat (pc_index a s (n - 1)) < unat n"
  by (simp add: pc_index_def unat_index_lt)

definition ctrs_ok :: "u32 \<Rightarrow> u32 \<Rightarrow> sat_counter list \<Rightarrow> bool" where
  "ctrs_ok n bs cs \<longleftrightarrow> n \<noteq> 0 \<and> length cs = unat n \<and> (\<forall>c \<in> set cs. sat_ok bs c)"

lemma ctrs_ok_train:
  "ctrs_ok n bs cs \<Longrightarrow> unat i < unat n \<Longrightarrow>
   \<exists>cs'. vec_upd (sat_train t) i cs = Inr cs' \<and> ctrs_ok n bs cs'"
  by (auto simp: ctrs_ok_def dest!: set_update_subset_insert [THEN subsetD] intro: sat_train_ok)

lemma ctrs_ok_new: "n \<noteq> 0 \<Longrightarrow> ctrs_ok n bs (replicate (unat n) (setBits bs SatCounter_default))"
  by (auto simp: ctrs_ok_def setBits_ok)

lemma isPowerOf2_nonzero: "isPowerOf2 n \<Longrightarrow> n \<noteq> 0"
  by (simp add: isPowerOf2_def)

section \<open>The local predictor\<close>

definition local_inv :: "local_bp \<Rightarrow> bool" where
  "local_inv p \<longleftrightarrow> ctrs_ok (lb_localPredictorSets p) (lb_localCtrBits p) (lb_localCtrs p) \<and>
     lb_indexMask p = lb_localPredictorSets p - 1"

lemma local_index: "local_inv p \<Longrightarrow> unat (getLocalIndex a p) < unat (lb_localPredictorSets p)"
  by (simp add: local_inv_def getLocalIndex_def ctrs_ok_def pc_index_lt)

lemma LocalBP_new_inv: "LocalBP_new psize bs sh = Inr p \<Longrightarrow> local_inv p"
  by (auto simp: LocalBP_new_def Let_def local_inv_def ctrs_ok_new isPowerOf2_nonzero split: if_splits)

interpretation local_dir: direction_predictor LocalBP_ops local_inv "\<lambda>h. h = None" "\<lambda>_. ()" "\<lambda>_. ()"
proof (unfold_locales, goal_cases)
  case (1 p a)
  then show ?case using local_index [of p a]
    by (simp add: LocalBP_ops_def LocalBP_lookup_def local_inv_def ctrs_ok_def)
next
  case (4 p h a t sq)
  then obtain cs where "vec_upd (sat_train t) (getLocalIndex a p) (lb_localCtrs p) = Inr cs"
    "ctrs_ok (lb_localPredictorSets p) (lb_localCtrBits p) cs"
    using ctrs_ok_train local_index [of p a] by (metis local_inv_def)
  then show ?case using 4 by (simp add: LocalBP_ops_def LocalBP_update_def local_inv_def)
qed (simp_all add: LocalBP_ops_def LocalBP_uncondBranch_def LocalBP_btbUpdate_def LocalBP_squash_def
    LocalBP_retireSquashed_def)

section \<open>The bi-mode predictor\<close>

definition bi_mode_inv :: "bi_mode \<Rightarrow> bool" where
  "bi_mode_inv p \<longleftrightarrow> ctrs_ok (bm_choicePredictorSize p) (bm_choiceCtrBits p) (choiceCounters p) \<and>
     ctrs_ok (bm_globalPredictorSize p) (bm_globalCtrBits p) (takenCounters p) \<and>
     ctrs_ok (bm_globalPredictorSize p) (bm_globalCtrBits p) (notTakenCounters p) \<and>
     bm_choiceHistoryMask p = bm_choicePredictorSize p - 1 \<and>
     bm_globalHistoryMask p = bm_globalPredictorSize p - 1 \<and>
     bm_choiceThreshold p = ctr_threshold (bm_choiceCtrBits p) \<and>
     takenThreshold p = ctr_threshold (bm_choiceCtrBits p) \<and>
     notTakenThreshold p = ctr_threshold (bm_choiceCtrBits p)"

lemma bi_mode_index:
  assumes "bi_mode_inv p"
  shows "unat (bi_mode_choice_idx a p) < unat (bm_choicePredictorSize p)"
    "unat (bi_mode_global_idx a g p) < unat (bm_globalPredictorSize p)"
  using assms
  by (simp_all add: bi_mode_inv_def bi_mode_choice_idx_def bi_mode_global_idx_def ctrs_ok_def pc_index_lt unat_index_lt)

lemma BiModeBP_new_inv: "BiModeBP_new gs gb cs cb sh = Inr p \<Longrightarrow> bi_mode_inv p"
  by (auto simp: BiModeBP_new_def bi_mode_inv_def bindE_Inr_iff ctrs_ok_new isPowerOf2_nonzero split: if_splits)

lemma bi_mode_train_direction_ok:
  assumes "bi_mode_inv p" "unat gi < unat (bm_globalPredictorSize p)"
  shows "\<exists>p'. bi_mode_train_direction gi taken h p = Inr p' \<and> bi_mode_inv p' \<and>
    bm_globalHistoryReg p' = bm_globalHistoryReg p \<and> bm_choicePredictorSize p' = bm_choicePredictorSize p"
proof -
  have "ctrs_ok (bm_globalPredictorSize p) (bm_globalCtrBits p) (takenCounters p)"
    "ctrs_ok (bm_globalPredictorSize p) (bm_globalCtrBits p) (notTakenCounters p)"
    using assms(1) by (auto simp: bi_mode_inv_def)
  from this [THEN ctrs_ok_train, OF assms(2), of taken] show ?thesis
    using assms(1) by (auto simp: bi_mode_train_direction_def bi_mode_inv_def)
qed

lemma bi_mode_train_choice_ok:
  assumes "bi_mode_inv p" "unat ci < unat (bm_choicePredictorSize p)"
  shows "\<exists>p'. bi_mode_train_choice ci taken h p = Inr p' \<and> bi_mode_inv p' \<and>
    bm_globalHistoryReg p' = bm_globalHistoryReg p"
proof -
  have "ctrs_ok (bm_choicePredictorSize p) (bm_choiceCtrBits p) (choiceCounters p)"
    using assms(1) by (auto simp: bi_mode_inv_def)
  from ctrs_ok_train [OF this assms(2), of taken] show ?thesis
    using assms(1) by (auto simp: bi_mode_train_choice_def bi_mode_inv_def)
qed

lemma bi_mode_inv_history [simp]: "bi_mode_inv (p\<lparr>bm_globalHistoryReg := g\<rparr>) = bi_mode_inv p"
  by (simp add: bi_mode_inv_def)

lemma BiModeBP_update_ok:
  assumes "bi_mode_inv p"
  shows "\<exists>p'. BiModeBP_update a t (Some h) sq p = Inr p' \<and> bi_mode_inv p' \<and>
    (\<not> sq \<longrightarrow> bm_globalHistoryReg p' = bm_globalHistoryReg p)"
proof -
  let ?ci = "bi_mode_choice_idx a p" and ?gi = "bi_mode_global_idx a (bh_globalHistoryReg h) p"
  note i = bi_mode_index [OF assms]
  obtain p1 where p1: "bi_mode_train_direction ?gi t h p = Inr p1" "bi_mode_inv p1"
    "bm_globalHistoryReg p1 = bm_globalHistoryReg p" "bm_choicePredictorSize p1 = bm_choicePredictorSize p"
    using bi_mode_train_direction_ok [OF assms i(2)] by blast
  obtain p2 where "bi_mode_train_choice ?ci t h p1 = Inr p2" "bi_mode_inv p2"
    "bm_globalHistoryReg p2 = bm_globalHistoryReg p1"
    using bi_mode_train_choice_ok [OF p1(2)] i(1) p1(4) by metis
  then show ?thesis using p1 i by (auto simp: BiModeBP_update_def Let_def word_less_nat_alt)
qed

interpretation bi_mode_dir: direction_predictor BiModeBP_ops bi_mode_inv "\<lambda>h. h \<noteq> None"
  bm_globalHistoryReg "\<lambda>h. bh_globalHistoryReg (the h)"
proof (unfold_locales, goal_cases)
  case (1 p a)
  then show ?case using bi_mode_index(1) [OF 1, of a] bi_mode_index(2) [OF 1, of a "bm_globalHistoryReg p"]
    by (simp add: BiModeBP_ops_def BiModeBP_lookup_def Let_def word_less_nat_alt BiMode_updateGlobalHistReg_def)
      (simp add: bi_mode_inv_def ctrs_ok_def)
next
  case (4 p h a t sq)
  then show ?case using BiModeBP_update_ok by (auto simp: BiModeBP_ops_def)
qed (auto simp: BiModeBP_ops_def BiModeBP_uncondBranch_def BiModeBP_btbUpdate_def BiModeBP_squash_def
    BiModeBP_retireSquashed_def BiMode_updateGlobalHistReg_def)

section \<open>The tournament predictor\<close>

definition tournament_inv :: "tournament \<Rightarrow> bool" where
  "tournament_inv p \<longleftrightarrow> ctrs_ok (tn_localPredictorSize p) (tn_localCtrBits p) (tn_localCtrs p) \<and>
     ctrs_ok (tn_globalPredictorSize p) (tn_globalCtrBits p) (tn_globalCtrs p) \<and>
     ctrs_ok (tn_choicePredictorSize p) (tn_choiceCtrBits p) (tn_choiceCtrs p) \<and>
     tn_localHistoryTableSize p \<noteq> 0 \<and> length (localHistoryTable p) = unat (tn_localHistoryTableSize p) \<and>
     tn_localPredictorMask p = tn_localPredictorSize p - 1 \<and>
     tn_globalHistoryMask p = tn_globalPredictorSize p - 1 \<and>
     tn_choiceHistoryMask p = tn_choicePredictorSize p - 1"

lemma tournament_index:
  assumes "tournament_inv p"
  shows "unat (calcLocHistIdx a p) < unat (tn_localHistoryTableSize p)"
    "unat (x AND tn_localPredictorMask p) < unat (tn_localPredictorSize p)"
    "unat (x AND tn_globalHistoryMask p) < unat (tn_globalPredictorSize p)"
    "unat (x AND tn_choiceHistoryMask p) < unat (tn_choicePredictorSize p)"
  using assms by (simp_all add: tournament_inv_def calcLocHistIdx_def ctrs_ok_def pc_index_lt unat_and_mask_lt)

lemma TournamentBP_new_inv:
  assumes "TournamentBP_new par = Inr p" shows "tournament_inv p"
proof -
  have pw: "isPowerOf2 (par_localPredictorSize par)" "isPowerOf2 (par_globalPredictorSize par)"
    "isPowerOf2 (par_localHistoryTableSize par)" "isPowerOf2 (par_choicePredictorSize par)"
    using assms by (auto simp: TournamentBP_new_def Let_def bindE_Inr_iff split: if_splits)
  obtain k where k: "unat (par_localPredictorSize par) = 2 ^ k" "k < 32"
    using isPowerOf2_unat [OF pw(1)] by auto
  have m: "ucast (bitmask k) = par_localPredictorSize par - 1" by (rule bitmask_power [OF k])
  show ?thesis
    using assms pw [THEN isPowerOf2_nonzero] m
    by (auto simp: TournamentBP_new_def Let_def bindE_Inr_iff tournament_inv_def ctrs_ok_new
        ceilLog2_power [OF k] split: if_splits)
qed

lemma tournament_inv_history [simp]: "tournament_inv (p\<lparr>tn_globalHistory := g\<rparr>) = tournament_inv p"
  by (simp add: tournament_inv_def)

lemma updateLocalHist_ok:
  assumes "tournament_inv p" "unat i < unat (tn_localHistoryTableSize p)"
  shows "\<exists>p'. bindE (vec_upd f i (localHistoryTable p)) (\<lambda>t. Inr (p\<lparr>localHistoryTable := t\<rparr>)) = Inr p' \<and>
    tournament_inv p' \<and> tn_globalHistory p' = tn_globalHistory p"
  using assms by (auto simp: tournament_inv_def)

lemma tournament_train_choice_ok:
  assumes "tournament_inv p"
  shows "\<exists>p'. tournament_train_choice taken h p = Inr p' \<and> tournament_inv p' \<and>
    tn_globalHistory p' = tn_globalHistory p"
proof -
  let ?i = "th_globalHistory h AND tn_choiceHistoryMask p"
  have c: "ctrs_ok (tn_choicePredictorSize p) (tn_choiceCtrBits p) (tn_choiceCtrs p)"
    using assms by (auto simp: tournament_inv_def)
  have "\<exists>p'. bindE (vec_upd (sat_train t) ?i (tn_choiceCtrs p)) (\<lambda>cs. Inr (p\<lparr>tn_choiceCtrs := cs\<rparr>)) = Inr p' \<and>
      tournament_inv p' \<and> tn_globalHistory p' = tn_globalHistory p" for t
  proof -
    obtain cs where "vec_upd (sat_train t) ?i (tn_choiceCtrs p) = Inr cs"
      "ctrs_ok (tn_choicePredictorSize p) (tn_choiceCtrBits p) cs"
      using ctrs_ok_train [OF c tournament_index(4) [OF assms]] by blast
    then show ?thesis using assms by (simp add: tournament_inv_def)
  qed
  then show ?thesis using assms
    unfolding tournament_train_choice_def sat_inc_dec Let_def by (simp split: if_split)
qed

lemma tournament_train_counters_ok:
  assumes "tournament_inv p"
  shows "\<exists>p'. tournament_train_counters taken h p = Inr p' \<and> tournament_inv p' \<and>
    tn_globalHistory p' = tn_globalHistory p"
proof -
  have g: "ctrs_ok (tn_globalPredictorSize p) (tn_globalCtrBits p) (tn_globalCtrs p)"
    and l: "ctrs_ok (tn_localPredictorSize p) (tn_localCtrBits p) (tn_localCtrs p)"
    using assms by (auto simp: tournament_inv_def)
  obtain gs where "vec_upd (sat_train taken) (th_globalHistory h AND tn_globalHistoryMask p) (tn_globalCtrs p) = Inr gs"
    "ctrs_ok (tn_globalPredictorSize p) (tn_globalCtrBits p) gs"
    using ctrs_ok_train [OF g tournament_index(3) [OF assms]] by blast
  moreover obtain ls where "vec_upd (sat_train taken) (th_localHistory h AND tn_localPredictorMask p) (tn_localCtrs p) = Inr ls"
    "ctrs_ok (tn_localPredictorSize p) (tn_localCtrBits p) ls"
    using ctrs_ok_train [OF l tournament_index(2) [OF assms]] by blast
  ultimately show ?thesis using assms by (simp add: tournament_train_counters_def tournament_inv_def Let_def)
qed

lemma tournament_restore_ok:
  assumes "tournament_inv p" "unat li < unat (tn_localHistoryTableSize p)"
  shows "\<exists>p'. tournament_restore li taken h p = Inr p' \<and> tournament_inv p'"
  using assms by (auto simp: tournament_restore_def Let_def tournament_inv_def)

text \<open>No operation changes the sizes and masks.\<close>

lemma tournament_sizes:
  "tournament_train_choice taken h p = Inr p' \<Longrightarrow> tn_localHistoryTableSize p' = tn_localHistoryTableSize p"
  "tournament_train_counters taken h p = Inr p' \<Longrightarrow> tn_localHistoryTableSize p' = tn_localHistoryTableSize p"
  "tournament_restore li taken h p = Inr p' \<Longrightarrow> tn_localHistoryTableSize p' = tn_localHistoryTableSize p"
  by (auto simp: tournament_train_choice_def tournament_train_counters_def tournament_restore_def Let_def
      bindE_Inr_iff split: if_splits)

lemma tournament_train_ok:
  assumes "tournament_inv p"
  shows "\<exists>p'. bindE (tournament_train_choice taken h p) (tournament_train_counters taken h) = Inr p' \<and>
    tournament_inv p' \<and> tn_globalHistory p' = tn_globalHistory p \<and>
    tn_localHistoryTableSize p' = tn_localHistoryTableSize p"
proof -
  obtain p1 where p1: "tournament_train_choice taken h p = Inr p1" "tournament_inv p1"
    "tn_globalHistory p1 = tn_globalHistory p" using tournament_train_choice_ok [OF assms] by blast
  obtain p2 where p2: "tournament_train_counters taken h p1 = Inr p2" "tournament_inv p2"
    "tn_globalHistory p2 = tn_globalHistory p1" using tournament_train_counters_ok [OF p1(2)] by blast
  show ?thesis using p1 p2 tournament_sizes(1) [OF p1(1)] tournament_sizes(2) [OF p2(1)] by simp
qed

lemma TournamentBP_update_ok:
  assumes "tournament_inv p"
  shows "\<exists>p'. TournamentBP_update a t (Some h) sq p = Inr p' \<and> tournament_inv p' \<and>
    (\<not> sq \<longrightarrow> tn_globalHistory p' = tn_globalHistory p)"
proof -
  let ?li = "calcLocHistIdx a p"
  let ?train = "if (if globalUsed h then globalPredTaken h else localPredTaken h) \<noteq> t \<or> \<not> sq
    then bindE (tournament_train_choice t h p) (tournament_train_counters t h) else Inr p"
  note i = tournament_index [OF assms]
  obtain p1 where p1: "?train = Inr p1" "tournament_inv p1" "tn_globalHistory p1 = tn_globalHistory p"
    "tn_localHistoryTableSize p1 = tn_localHistoryTableSize p"
    using tournament_train_ok [OF assms, of t h] assms by (metis (no_types, lifting))
  have len: "unat ?li < length (localHistoryTable p)" using i(1) assms by (simp add: tournament_inv_def)
  obtain p2 where p2: "(if sq then tournament_restore ?li t h p1 else Inr p1) = Inr p2" "tournament_inv p2"
    "\<not> sq \<longrightarrow> tn_globalHistory p2 = tn_globalHistory p" "tn_localHistoryTableSize p2 = tn_localHistoryTableSize p"
  proof (cases sq)
    case True
    obtain p2 where "tournament_restore ?li t h p1 = Inr p2" "tournament_inv p2"
      using tournament_restore_ok [OF p1(2), of ?li t h] i(1) [of a] p1(4) by auto
    then show thesis using that True tournament_sizes(3) p1(4) by metis
  qed (use that p1 in auto)
  have "TournamentBP_update a t (Some h) sq p = Inr p2"
    unfolding TournamentBP_update_def Let_def using p1(1) p2(1,4) i(1,2) len
    by (simp add: word_less_nat_alt cong: if_cong)
  then show ?thesis using p2 by blast
qed

interpretation tournament_dir: direction_predictor TournamentBP_ops tournament_inv "\<lambda>h. h \<noteq> None"
  tn_globalHistory "\<lambda>h. th_globalHistory (the h)"
proof (unfold_locales, goal_cases)
  case (1 p a)
  note i = tournament_index [OF 1]
  have "unat (calcLocHistIdx a p) < length (localHistoryTable p)" using i(1) 1 by (simp add: tournament_inv_def)
  then show ?case using i 1
    by (simp add: TournamentBP_ops_def TournamentBP_lookup_def Let_def updateLocalHist_def updateGlobalHist_def
        word_less_nat_alt tournament_inv_def ctrs_ok_def)
next
  case (3 p h a)
  then show ?case using tournament_index(1) [OF 3(1), of a]
    by (simp add: TournamentBP_ops_def TournamentBP_btbUpdate_def Let_def tournament_inv_def calcLocHistIdx_def)
next
  case (4 p h a t sq)
  then show ?case using TournamentBP_update_ok by (auto simp: TournamentBP_ops_def)
qed (auto simp: TournamentBP_ops_def TournamentBP_uncondBranch_def TournamentBP_squash_def
    TournamentBP_retireSquashed_def updateGlobalHist_def)

section \<open>Properties\<close>

text \<open>
  C37: the local predictor shifts a counter down to its top bit, the others compare it with a
  threshold; for counters of one to eight bits both readings agree, and mean that the counter is in
  the upper half of its range.
\<close>

theorem counter_readings_agree:
  assumes "1 \<le> unat bs" "unat bs \<le> 8" "lb_localCtrBits p = bs"
  shows "getPrediction (sat_read c) p = above c (ctr_threshold bs) \<and>
    (above c (ctr_threshold bs) \<longleftrightarrow> 2 ^ (unat bs - 1) \<le> unat (counter c))"
  using above_threshold [OF assms(1,2)] getPrediction_msb [of p "sat_read c"] assms
  by (simp add: sat_read_def)

theorem counter_readings_agree_witness:
  "(1 :: nat) \<le> unat (2 :: u32) \<and> above \<lparr>initialVal = 0, maxVal = 3, counter = 2\<rparr> (ctr_threshold 2)"
  using counter_readings_agree
    [of 2 "\<lparr>lb_localCtrs = [], lb_localPredictorSize = 0, lb_localPredictorSets = 0, lb_localCtrBits = 2,
       lb_indexMask = 0, lb_instShiftAmt = 0\<rparr>" "\<lparr>initialVal = 0, maxVal = 3, counter = 2\<rparr>"]
  by simp

text \<open>
  C38: a counter of one to eight bits stays in its range under every sequence of outcomes, and half
  its range of equal outcomes in a row fixes what it predicts, wherever it started.
\<close>

theorem counter_bounds:
  assumes "1 \<le> unat bs" "unat bs \<le> 8" "sat_ok bs c"
  shows "unat (counter (fold sat_train ts c)) \<le> 2 ^ unat bs - 1 \<and>
    above ((sat_train True ^^ (2 ^ (unat bs - 1))) c) (ctr_threshold bs) \<and>
    \<not> above ((sat_train False ^^ (2 ^ (unat bs - 1))) c) (ctr_threshold bs)"
proof -
  have m: "unat (maxVal c) = 2 ^ unat bs - 1" "counter c \<le> maxVal c"
    using assms(2,3) by (auto simp: sat_ok_def unat_sat_max)
  have p: "(2 :: nat) ^ unat bs = 2 * 2 ^ (unat bs - 1)" using assms(1) by (cases "unat bs") auto
  have pos: "(0 :: nat) < 2 ^ (unat bs - 1)" by simp
  have le: "unat (counter c) \<le> 2 ^ unat bs - 1" using m by (simp add: word_le_nat_alt)
  have "sat_ok bs (fold sat_train ts c)"
    using assms(3) by (induction ts arbitrary: c) (auto simp: sat_train_ok)
  then have 1: "unat (counter (fold sat_train ts c)) \<le> 2 ^ unat bs - 1"
    using assms(2) by (auto simp: sat_ok_def word_le_nat_alt unat_sat_max)
  have 2: "2 ^ (unat bs - 1) \<le> unat (counter ((sat_train True ^^ (2 ^ (unat bs - 1))) c))"
    using fold_train_taken [OF m(2), of "2 ^ (unat bs - 1)"] m(1) p pos by simp
  have 3: "unat (counter ((sat_train False ^^ (2 ^ (unat bs - 1))) c)) < 2 ^ (unat bs - 1)"
    using fold_train_not_taken [OF m(2), of "2 ^ (unat bs - 1)"] le p pos by linarith
  show ?thesis using 1 2 3 by (simp add: above_threshold [OF assms(1,2)])
qed

theorem counter_bounds_witness:
  "sat_ok 2 (SatCounter_bits 2) \<and> above ((sat_train True ^^ 2) (SatCounter_bits 2)) (ctr_threshold 2)"
proof -
  have "sat_ok 2 (SatCounter_bits 2)" by (simp add: sat_ok_def SatCounter_bits_def)
  then show ?thesis using counter_bounds [of 2 "SatCounter_bits 2"] by simp
qed

text \<open>
  C39: with direction counters of fewer bits than the choice counters, the bi-mode predictor never
  predicts taken: the thresholds of the direction counters are computed from the width of the choice
  counters, which the narrower counters cannot exceed.
\<close>

theorem bi_mode_never_taken:
  assumes "bi_mode_inv p" "1 \<le> unat (bm_globalCtrBits p)" "unat (bm_globalCtrBits p) < unat (bm_choiceCtrBits p)"
    and "unat (bm_choiceCtrBits p) \<le> 8"
  shows "\<exists>h p'. BiModeBP_lookup a p = Inr (False, h, p')"
proof -
  let ?gi = "bi_mode_global_idx a (bm_globalHistoryReg p) p"
  note i = bi_mode_index(1) [OF assms(1), of a] bi_mode_index(2) [OF assms(1), of a "bm_globalHistoryReg p"]
  have low: "\<not> above c (ctr_threshold (bm_choiceCtrBits p))" if "sat_ok (bm_globalCtrBits p) c" for c
  proof -
    have "unat (counter c) \<le> 2 ^ unat (bm_globalCtrBits p) - 1"
      using that assms(3,4) unat_sat_max [of "bm_globalCtrBits p"] by (auto simp: sat_ok_def word_le_nat_alt)
    moreover have "(2 :: nat) ^ unat (bm_globalCtrBits p) \<le> 2 ^ (unat (bm_choiceCtrBits p) - 1)"
      by (rule power_increasing) (use assms(3) in auto)
    moreover have "(0 :: nat) < 2 ^ unat (bm_globalCtrBits p)" by simp
    ultimately show ?thesis using assms(2-4) by (subst above_threshold) linarith+
  qed
  have "sat_ok (bm_globalCtrBits p) (takenCounters p ! unat ?gi)"
    "sat_ok (bm_globalCtrBits p) (notTakenCounters p ! unat ?gi)"
    using assms(1) i(2) by (auto simp: bi_mode_inv_def ctrs_ok_def)
  then show ?thesis using assms(1) i low
    by (simp add: BiModeBP_lookup_def Let_def word_less_nat_alt bi_mode_inv_def ctrs_ok_def)
qed

theorem bi_mode_never_taken_witness:
  "\<exists>p h p'. BiModeBP_new 4 2 4 3 2 = Inr p \<and> BiModeBP_lookup 0x40 p = Inr (False, h, p')"
proof -
  have "\<exists>p. BiModeBP_new 4 2 4 3 2 = Inr p \<and> bm_globalCtrBits p = 2 \<and> bm_choiceCtrBits p = 3"
    using ceilLog2_power [of 4 2] by (simp add: BiModeBP_new_def isPowerOf2_def leastSigBit_def)
  then obtain p where p: "BiModeBP_new 4 2 4 3 2 = Inr p" "bm_globalCtrBits p = 2" "bm_choiceCtrBits p = 3"
    by blast
  then show ?thesis using bi_mode_never_taken [where a = "0x40", OF BiModeBP_new_inv [OF p(1)]] by auto
qed

end
