(* ===== verification/Bpred_Unit_Props.thy ===== *)
theory Bpred_Unit_Props
  imports Bpred_Props
begin

text \<open>
  The branch target buffer, the return address stack and the prediction unit. The lemmas on the unit
  are proved once, in the locale of the direction predictors, and hold for each of the three.
\<close>

unbundle bit_operations_syntax

section \<open>The branch target buffer\<close>

definition btb_ok :: "'pc btb \<Rightarrow> bool" where
  "btb_ok b \<longleftrightarrow> btb_numEntries b \<noteq> 0 \<and> idxMask b = btb_numEntries b - 1 \<and>
     length (btb_entries b) = unat (btb_numEntries b)"

lemma btb_index: "btb_ok b \<Longrightarrow> unat (btb_getIndex pc b) < unat (btb_numEntries b)"
  by (simp add: btb_ok_def btb_getIndex_def pc_index_lt)

lemma DefaultBTB_new_ok: "DefaultBTB_new pc0 n tb sh = Inr b \<Longrightarrow> btb_ok b"
  by (auto simp: DefaultBTB_new_def btb_ok_def bindE_Inr_iff isPowerOf2_nonzero split: if_splits)

lemma DefaultBTB_valid_ok:
  "btb_ok b \<Longrightarrow> DefaultBTB_valid pc tid b =
     (let e = btb_entries b ! unat (btb_getIndex pc b) in
      Inr (be_valid e \<and> btb_getTag pc b = be_tag e \<and> be_tid e = tid))"
  using btb_index [of b pc] by (simp add: DefaultBTB_valid_def word_less_nat_alt btb_ok_def Let_def)

lemma DefaultBTB_lookup_ok:
  "btb_ok b \<Longrightarrow> DefaultBTB_lookup pc0 pc tid b =
     (let e = btb_entries b ! unat (btb_getIndex pc b) in
      Inr (if be_valid e \<and> btb_getTag pc b = be_tag e \<and> be_tid e = tid then be_target e else pc0))"
  using btb_index [of b pc] by (simp add: DefaultBTB_lookup_def word_less_nat_alt btb_ok_def Let_def)

lemma DefaultBTB_update_ok:
  "btb_ok b \<Longrightarrow> DefaultBTB_update pc t tid b = Inr (b\<lparr>btb_entries := (btb_entries b)[unat (btb_getIndex pc b) :=
      \<lparr>be_tag = btb_getTag pc b, be_target = t, be_tid = tid, be_valid = True\<rparr>]\<rparr>)"
  using btb_index [of b pc] by (simp add: DefaultBTB_update_def word_less_nat_alt btb_ok_def)

lemma btb_ok_entries [simp]:
  "length es = length (btb_entries b) \<Longrightarrow> btb_ok (b\<lparr>btb_entries := es\<rparr>) = btb_ok b"
  by (simp add: btb_ok_def)

lemma btb_get_entries [simp]:
  "btb_getIndex pc (b\<lparr>btb_entries := es\<rparr>) = btb_getIndex pc b"
  "btb_getTag pc (b\<lparr>btb_entries := es\<rparr>) = btb_getTag pc b"
  by (simp_all add: btb_getIndex_def btb_getTag_def)

section \<open>The return address stack\<close>

definition ras_ok :: "'pc ras \<Rightarrow> bool" where
  "ras_ok r \<longleftrightarrow> ras_numEntries r \<noteq> 0 \<and> length (addrStack r) = unat (ras_numEntries r) \<and>
     unat (tos r) < unat (ras_numEntries r) \<and> usedEntries r \<le> ras_numEntries r"

lemma ras_init_ok: "n \<noteq> 0 \<Longrightarrow> ras_ok (ras_init pc0 n)"
  by (simp add: ras_ok_def ras_init_def ras_reset_def unat_gt_0)

lemma ras_top_ok: "ras_ok r \<Longrightarrow> ras_top r = Inr (addrStack r ! unat (tos r))"
  by (simp add: ras_ok_def ras_top_def)

lemma unat_tos_Suc: "ras_ok r \<Longrightarrow> unat (tos r + 1) = unat (tos r) + 1"
  using unsigned_less [of "ras_numEntries r", where ?'a = nat] by (simp add: ras_ok_def unat_word_ariths)

lemma unat_incrTos: "ras_ok r \<Longrightarrow> unat (tos (incrTos r)) = (unat (tos r) + 1) mod unat (ras_numEntries r)"
proof -
  assume a: "ras_ok r"
  then have "unat (tos r + 1) = unat (tos r) + 1" by (rule unat_tos_Suc)
  moreover from this have "tos r + 1 = ras_numEntries r \<longleftrightarrow> unat (tos r) + 1 = unat (ras_numEntries r)"
    by (metis unsigned_word_eqI)
  ultimately show ?thesis using a by (auto simp: incrTos_def ras_ok_def)
qed

lemma unat_decrTos:
  "ras_ok r \<Longrightarrow> unat (tos (decrTos r)) = (unat (tos r) + unat (ras_numEntries r) - 1) mod unat (ras_numEntries r)"
proof -
  assume a: "ras_ok r"
  show ?thesis
  proof (cases "tos r = 0")
    case True
    then show ?thesis using a by (simp add: decrTos_def ras_ok_def unat_minus_one unat_gt_0)
  next
    case False
    then have "0 < unat (tos r)" by (simp add: unat_gt_0)
    then have "(unat (tos r) + unat (ras_numEntries r) - 1) mod unat (ras_numEntries r) = unat (tos r) - 1"
      using a by (auto simp: ras_ok_def mod_if)
    then show ?thesis using False by (simp add: decrTos_def unat_minus_one)
  qed
qed

lemma decr_incrTos: "ras_ok r \<Longrightarrow> tos (decrTos (incrTos r)) = tos r"
proof -
  assume "ras_ok r"
  then have "tos r + 1 \<noteq> 0" using unat_tos_Suc by (metis add_is_0 unsigned_0 zero_neq_one)
  then show ?thesis by (auto simp: decrTos_def incrTos_def eq_diff_eq diff_eq_eq)
qed

lemma incrTos_simps [simp]:
  "addrStack (incrTos r) = addrStack r" "ras_numEntries (incrTos r) = ras_numEntries r"
  "usedEntries (incrTos r) = usedEntries r"
  "addrStack (decrTos r) = addrStack r" "ras_numEntries (decrTos r) = ras_numEntries r"
  "usedEntries (decrTos r) = usedEntries r"
  by (simp_all add: incrTos_def decrTos_def)

lemma ras_push_ok:
  assumes "ras_ok r"
  obtains r' where "ras_push x r = Inr r'" "ras_ok r'" "tos r' = tos (incrTos r)"
    "addrStack r' = (addrStack r)[unat (tos (incrTos r)) := x]" "ras_numEntries r' = ras_numEntries r"
proof -
  have lt: "unat (tos (incrTos r)) < unat (ras_numEntries r)"
    using unat_incrTos [OF assms] assms by (simp add: ras_ok_def)
  have "usedEntries r + 1 \<le> ras_numEntries r" if "usedEntries r \<noteq> ras_numEntries r"
    using assms that by (simp add: ras_ok_def inc_le order_less_le)
  then show thesis using lt assms
    by (intro that [of "(incrTos r)\<lparr>addrStack := (addrStack r)[unat (tos (incrTos r)) := x],
        usedEntries := if usedEntries r \<noteq> ras_numEntries r then usedEntries r + 1 else usedEntries r\<rparr>"])
      (auto simp: ras_push_def Let_def ras_ok_def)
qed

lemma ras_pop_ok: "ras_ok r \<Longrightarrow> ras_ok (ras_pop r)"
  using unat_decrTos [of r] by (auto simp: ras_pop_def ras_ok_def decrTos_def word_le_nat_alt unat_minus_one)

lemma ras_pop_simps [simp]:
  "tos (ras_pop r) = tos (decrTos r)" "addrStack (ras_pop r) = addrStack r"
  "ras_numEntries (ras_pop r) = ras_numEntries r"
  by (auto simp: ras_pop_def decrTos_def)

lemma ras_restore_ok:
  assumes "ras_ok r" "unat i < unat (ras_numEntries r)"
  obtains r' where "ras_restore i x r = Inr r'" "ras_ok r'" "tos r' = i" "ras_numEntries r' = ras_numEntries r"
    "addrStack r' = (addrStack r)[unat i := x]"
  using assms by (intro that [of "r\<lparr>tos := i, addrStack := (addrStack r)[unat i := x]\<rparr>"])
    (auto simp: ras_restore_def Let_def ras_ok_def)

section \<open>The unit\<close>

definition record_ok :: "('h option \<Rightarrow> bool) \<Rightarrow> u32 \<Rightarrow> ('h, 'pc) predictor_history \<Rightarrow> bool" where
  "record_ok hist_ok n r \<longleftrightarrow> hist_ok (bpHistory r) \<and> unat (RASIndex r) < unat n"

definition unit_inv ::
  "('p \<Rightarrow> bool) \<Rightarrow> ('h option \<Rightarrow> bool) \<Rightarrow> ('p, 'h, 'pc) bpred_unit \<Rightarrow> bool" where
  "unit_inv dinv hist_ok u \<longleftrightarrow> dinv (direction u) \<and> btb_ok (BTB u) \<and> length (predHist u) = length (RAS u) \<and>
     (\<forall>i < length (RAS u). ras_ok (RAS u ! i) \<and>
        (\<forall>r \<in> set (predHist u ! i). record_ok hist_ok (ras_numEntries (RAS u ! i)) r))"

lemma BPredUnit_new_inv:
  assumes "BPredUnit_new pc0 threads entries tbits rasSize sh p = Inr u" "dinv p" "rasSize \<noteq> 0"
  shows "unit_inv dinv hist_ok u"
  using assms DefaultBTB_new_ok
  by (fastforce simp: BPredUnit_new_def unit_inv_def bindE_Inr_iff ras_init_ok)

text \<open>
  Undoing a prediction takes the top of the stack from \<open>t'\<close> back to \<open>t\<close>; a chain of records, the
  youngest first, takes top and saved history from one pair to another.
\<close>

definition undoes :: "u32 \<Rightarrow> ('h, 'pc) predictor_history \<Rightarrow> u32 \<Rightarrow> u32 \<Rightarrow> bool" where
  "undoes n r t' t \<longleftrightarrow>
     (if usedRAS r then RASIndex r = t
      else if wasCall r \<and> pushedRAS r then t = (if t' = 0 then n - 1 else t' - 1)
      else t = t')"

fun undo_chain ::
  "('h option \<Rightarrow> 'g) \<Rightarrow> u32 \<Rightarrow> ('h, 'pc) predictor_history list \<Rightarrow> u32 \<times> 'g \<Rightarrow> u32 \<times> 'g \<Rightarrow> bool" where
  "undo_chain saved n [] s s0 \<longleftrightarrow> s = s0"
| "undo_chain saved n (r # rs) s s0 \<longleftrightarrow>
     (\<exists>t. undoes n r (fst s) t \<and> undo_chain saved n rs (t, saved (bpHistory r)) s0)"

lemma undo_chain_append:
  "undo_chain saved n rs s s1 \<Longrightarrow> undo_chain saved n rs' s1 s0 \<Longrightarrow> undo_chain saved n (rs @ rs') s s0"
  by (induction rs arbitrary: s) auto

lemma tos_decr: "tos (decrTos s) = (if tos s = 0 then ras_numEntries s - 1 else tos s - 1)"
  by (simp add: decrTos_def)

text \<open>A run of predictions of one thread: instructions with their sequence numbers and addresses.\<close>

definition predict_all ::
  "('p, 'h) dir_ops \<Rightarrow> 'pc isa_ops \<Rightarrow> thread_id \<Rightarrow> ('pc static_inst \<times> u64 \<times> 'pc) list \<Rightarrow>
   ('p, 'h, 'pc) bpred_unit \<Rightarrow> ('p, 'h, 'pc) bpred_unit res" where
  "predict_all ops isa tid = foldE (\<lambda>(inst, sn, pc) u.
     bindE (predict ops isa inst sn pc tid u) (\<lambda>(_, _, u). Inr u))"

context direction_predictor
begin

lemma predict_target_ok:
  fixes r :: "('h, 'pc) predictor_history"
  assumes "inv p" "hist_ok hist" "btb_ok b" "ras_ok s"
    and r: "r = PredictorHistory_new pc0 sn a taken hist tid"
  obtains taken' target r' s' p' where "predict_target ops isa inst pc tid hist b (r, s, p) = Inr (taken', target, r', s', p')"
    "inv p'" "ras_ok s'" "ras_numEntries s' = ras_numEntries s" "bpHistory r' = hist" "seqNum r' = sn"
    "unat (RASIndex r') < unat (ras_numEntries s)" "undoes (ras_numEntries s) r' (tos s') (tos s)"
proof -
  note out = that
  have r0: "\<not> usedRAS r" "\<not> pushedRAS r" "\<not> wasCall r" "RASIndex r = 0" "bpHistory r = hist" "seqNum r = sn"
    by (simp_all add: r PredictorHistory_new_def)
  have n: "0 < unat (ras_numEntries s)" "unat (tos s) < unat (ras_numEntries s)" using assms(4) by (auto simp: ras_ok_def)
  show thesis
  proof (cases "isReturn inst")
    case True
    then show thesis using assms(4) n r0 ras_pop_ok [OF assms(4)] ras_top_ok [OF assms(4)] assms(1)
      by (intro out [of True "buildRetPC isa pc (addrStack s ! unat (tos s))"
            "r\<lparr>wasReturn := True, usedRAS := True, RASIndex := tos s, RASTarget := addrStack s ! unat (tos s)\<rparr>"
            "ras_pop s" p]) (auto simp: predict_target_def undoes_def)
  next
    case nr: False
    obtain r1 s1 where c: "(if isCall inst
               then bindE (ras_push pc s) (\<lambda>s. Inr (r\<lparr>pushedRAS := True, wasCall := True\<rparr>, s))
               else Inr (r, s)) = Inr (r1, s1)" "ras_ok s1" "ras_numEntries s1 = ras_numEntries s"
        "undoes (ras_numEntries s) r1 (tos s1) (tos s)" "bpHistory r1 = hist" "seqNum r1 = sn" "RASIndex r1 = 0"
        "\<not> usedRAS r1" "isCall inst \<Longrightarrow> tos (ras_pop s1) = tos s" "\<not> isCall inst \<Longrightarrow> s1 = s"
    proof (cases "isCall inst")
      case True
      obtain s1 where "ras_push pc s = Inr s1" "ras_ok s1" "tos s1 = tos (incrTos s)" "ras_numEntries s1 = ras_numEntries s"
        using ras_push_ok [OF assms(4)] by metis
      moreover have "tos (decrTos s1) = tos s"
        using decr_incrTos [OF assms(4)] calculation(3,4) by (auto simp: tos_decr split: if_splits)
      ultimately show thesis using True r0
        by (intro that [of "r\<lparr>pushedRAS := True, wasCall := True\<rparr>" s1]) (auto simp: undoes_def tos_decr)
    qed (use that [of r s] assms(4) r0 in \<open>auto simp: undoes_def\<close>)
    note valid = DefaultBTB_valid_ok [OF assms(3)] DefaultBTB_lookup_ok [OF assms(3)]
    obtain p1 where p1: "d_btbUpdate ops (instAddr isa pc) hist p = Inr p1" "inv p1"
      using btbUpdate_ok [OF assms(1,2)] by blast
    let ?pt = "predict_target ops isa inst pc tid hist b (r, s, p)"
    have cases: "(\<exists>t tk. ?pt = Inr (tk, t, r1, s1, p)) \<or> (\<exists>t. ?pt = Inr (False, t, r1, s1, p1)) \<or>
        (isCall inst \<and> (\<exists>t. ?pt = Inr (False, t, r1\<lparr>pushedRAS := False\<rparr>, ras_pop s1, p)))"
      unfolding predict_target_def using c(1) nr p1(1) valid by (auto simp: Let_def)
    then show thesis
    proof (elim disjE exE conjE)
      fix t tk assume "?pt = Inr (tk, t, r1, s1, p)"
      then show thesis by (rule out) (use assms(1) c n in auto)
    next
      fix t assume "?pt = Inr (False, t, r1, s1, p1)"
      then show thesis by (rule out) (use p1(2) c n in auto)
    next
      fix t assume "isCall inst" "?pt = Inr (False, t, r1\<lparr>pushedRAS := False\<rparr>, ras_pop s1, p)"
      then show thesis by (intro out [of False t "r1\<lparr>pushedRAS := False\<rparr>" "ras_pop s1" p])
        (use assms(1) c n ras_pop_ok in \<open>auto simp: undoes_def\<close>)
    qed
  qed
qed

lemma predict_ok:
  fixes u :: "('p, 'h, 'pc) bpred_unit"
  assumes u: "unit_inv inv hist_ok u" and tid: "unat tid < length (RAS u)"
  obtains taken target u' r where "predict ops isa inst sn pc tid u = Inr (taken, target, u')"
    "unit_inv inv hist_ok u'" "predHist u' = (predHist u)[unat tid := r # predHist u ! unat tid]"
    "seqNum r = sn" "saved (bpHistory r) = ghr (direction u)"
    "undoes (ras_numEntries (RAS u ! unat tid)) r (tos (RAS u' ! unat tid)) (tos (RAS u ! unat tid))"
    "ras_numEntries (RAS u' ! unat tid) = ras_numEntries (RAS u ! unat tid)" "BTB u' = BTB u"
    "length (RAS u') = length (RAS u)" "\<forall>i. i \<noteq> unat tid \<longrightarrow> RAS u' ! i = RAS u ! i"
proof -
  let ?s = "RAS u ! unat tid" and ?a = "instAddr isa pc"
  have i: "inv (direction u)" "btb_ok (BTB u)" "ras_ok ?s" "length (predHist u) = length (RAS u)"
    using u tid by (auto simp: unit_inv_def)
  obtain tk hist p where d: "(if isUncondCtrl inst
            then bindE (d_uncondBranch ops ?a (direction u)) (\<lambda>(h, p). Inr (True, h, p))
            else d_lookup ops ?a (direction u)) = Inr (tk, hist, p)" "inv p" "hist_ok hist" "saved hist = ghr (direction u)"
    using lookup_ok [OF i(1), of ?a] uncond_ok [OF i(1), of ?a] by (cases "isUncondCtrl inst") auto
  let ?r = "PredictorHistory_new (pc_zero isa) sn ?a tk hist tid"
  have n: "0 < unat (ras_numEntries ?s)" using i(3) by (auto simp: ras_ok_def)
  obtain tk' target r s p' where t: "(if tk then predict_target ops isa inst pc tid hist (BTB u) (?r, ?s, p)
      else Inr (False, advancePC inst pc, if isReturn inst then ?r\<lparr>wasReturn := True\<rparr> else ?r, ?s, p)) =
      Inr (tk', target, r, s, p')" "inv p'" "ras_ok s" "ras_numEntries s = ras_numEntries ?s" "bpHistory r = hist"
      "seqNum r = sn" "unat (RASIndex r) < unat (ras_numEntries ?s)" "undoes (ras_numEntries ?s) r (tos s) (tos ?s)"
  proof (cases tk)
    case True
    show thesis
      by (rule predict_target_ok [where isa = isa and inst = inst and pc = pc and tid = tid, OF d(2,3) i(2,3) refl])
        (rule that, use True in auto)
  next
    case False
    then show thesis using d(2) i(3) n
      by (intro that [of False "advancePC inst pc" "if isReturn inst then ?r\<lparr>wasReturn := True\<rparr> else ?r" ?s p])
        (auto simp: PredictorHistory_new_def undoes_def)
  qed
  let ?u = "u\<lparr>RAS := (RAS u)[unat tid := s], direction := p', predHist := (predHist u)[unat tid := r # predHist u ! unat tid]\<rparr>"
  have "predict ops isa inst sn pc tid u = Inr (tk', target, ?u)"
    unfolding predict_def using d(1) t(1) tid i(4) by (simp add: push_history_def Let_def)
  moreover have "unit_inv inv hist_ok ?u"
    using u t(2-5,7) d(3) tid by (auto simp: unit_inv_def nth_list_update record_ok_def)
  ultimately show thesis using t(4-6,8) d(4) tid by (intro that [of tk' target ?u r]) auto
qed

lemma squash_loop_chain:
  fixes rs :: "('h, 'pc) predictor_history list"
  assumes "undo_chain saved n rs (tos s, ghr p) (t0, g0)" "\<forall>r \<in> set rs. record_ok hist_ok n r \<and> seqNum r > sn"
    and "ras_ok s" "ras_numEntries s = n" "inv p" "hs = [] \<or> seqNum (hd hs) \<le> sn"
  shows "\<exists>s' p'. squash_loop ops sn (rs @ hs) (s, p) = Inr (hs, s', p') \<and> ras_ok s' \<and> ras_numEntries s' = n \<and>
    inv p' \<and> tos s' = t0 \<and> ghr p' = g0"
  using assms
proof (induction rs arbitrary: s p)
  case Nil
  have "squash_loop ops sn hs (s, p) = Inr (hs, s, p)"
    using Nil.prems(6) by (cases hs) auto
  then show ?case using Nil.prems by auto
next
  case (Cons r rs)
  obtain t where t: "undoes n r (tos s) t" "undo_chain saved n rs (t, saved (bpHistory r)) (t0, g0)"
    using Cons.prems(1) by auto
  have r: "hist_ok (bpHistory r)" "unat (RASIndex r) < unat n" "seqNum r > sn"
    using Cons.prems(2) by (auto simp: record_ok_def)
  obtain p1 where p1: "d_squash ops (bpHistory r) p = Inr p1" "inv p1" "ghr p1 = saved (bpHistory r)"
    using squash_ok [OF Cons.prems(5) r(1)] by blast
  obtain s1 where s1: "(if usedRAS r then ras_restore (RASIndex r) (RASTarget r) s
               else if wasCall r \<and> pushedRAS r then Inr (ras_pop s) else Inr s) = Inr s1"
      "ras_ok s1" "ras_numEntries s1 = n" "tos s1 = t"
  proof (cases "usedRAS r")
    case True
    then show thesis using ras_restore_ok [OF Cons.prems(3), of "RASIndex r" "RASTarget r"] r(2) Cons.prems(4) t(1) that
      by (auto simp: undoes_def)
  next
    case False
    then show thesis using t(1) Cons.prems(3,4) ras_pop_ok [OF Cons.prems(3)] that
      by (cases "wasCall r \<and> pushedRAS r") (auto simp: undoes_def tos_decr)
  qed
  have "\<exists>s' p'. squash_loop ops sn (rs @ hs) (s1, p1) = Inr (hs, s', p') \<and> ras_ok s' \<and> ras_numEntries s' = n \<and>
      inv p' \<and> tos s' = t0 \<and> ghr p' = g0"
    by (rule Cons.IH) (use t(2) s1 p1 Cons.prems in auto)
  moreover have "squash_loop ops sn ((r # rs) @ hs) (s, p) = squash_loop ops sn (rs @ hs) (s1, p1)"
    unfolding append_Cons squash_loop.simps fst_conv snd_conv s1(1) p1(1) using r(3) by simp
  ultimately show ?case by simp
qed

lemma predict_all_chain:
  fixes u :: "('p, 'h, 'pc) bpred_unit"
  assumes "unit_inv inv hist_ok u" "unat tid < length (RAS u)" "\<forall>b \<in> set bs. sn < fst (snd b)"
  shows "\<exists>u' rs. predict_all ops isa tid bs u = Inr u' \<and> unit_inv inv hist_ok u' \<and>
    predHist u' = (predHist u)[unat tid := rs @ predHist u ! unat tid] \<and> (\<forall>r \<in> set rs. sn < seqNum r) \<and>
    undo_chain saved (ras_numEntries (RAS u ! unat tid)) rs (tos (RAS u' ! unat tid), ghr (direction u'))
      (tos (RAS u ! unat tid), ghr (direction u)) \<and>
    ras_numEntries (RAS u' ! unat tid) = ras_numEntries (RAS u ! unat tid) \<and> BTB u' = BTB u \<and>
    length (RAS u') = length (RAS u) \<and> (\<forall>i. i \<noteq> unat tid \<longrightarrow> RAS u' ! i = RAS u ! i)"
  using assms
proof (induction bs arbitrary: u)
  case Nil
  then show ?case by (auto simp: predict_all_def unit_inv_def intro!: exI [of _ "[]"])
next
  case (Cons b bs)
  obtain inst k pc where b: "b = (inst, k, pc)" by (cases b)
  obtain tk tg u1 r where p: "predict ops isa inst k pc tid u = Inr (tk, tg, u1)" "unit_inv inv hist_ok u1"
    "predHist u1 = (predHist u)[unat tid := r # predHist u ! unat tid]" "seqNum r = k"
    "saved (bpHistory r) = ghr (direction u)"
    "undoes (ras_numEntries (RAS u ! unat tid)) r (tos (RAS u1 ! unat tid)) (tos (RAS u ! unat tid))"
    "ras_numEntries (RAS u1 ! unat tid) = ras_numEntries (RAS u ! unat tid)" "BTB u1 = BTB u"
    "length (RAS u1) = length (RAS u)" "\<forall>i. i \<noteq> unat tid \<longrightarrow> RAS u1 ! i = RAS u ! i"
    using predict_ok [OF Cons.prems(1,2)] by blast
  have len: "unat tid < length (predHist u)" using Cons.prems(1,2) by (simp add: unit_inv_def)
  obtain u' rs where i: "predict_all ops isa tid bs u1 = Inr u'" "unit_inv inv hist_ok u'"
    "predHist u' = (predHist u1)[unat tid := rs @ predHist u1 ! unat tid]" "\<forall>r \<in> set rs. sn < seqNum r"
    "undo_chain saved (ras_numEntries (RAS u1 ! unat tid)) rs (tos (RAS u' ! unat tid), ghr (direction u'))
      (tos (RAS u1 ! unat tid), ghr (direction u1))"
    "ras_numEntries (RAS u' ! unat tid) = ras_numEntries (RAS u1 ! unat tid)" "BTB u' = BTB u1"
    "length (RAS u') = length (RAS u1)" "\<forall>i. i \<noteq> unat tid \<longrightarrow> RAS u' ! i = RAS u1 ! i"
    using Cons.IH [of u1] Cons.prems p(2,9) by auto
  have "undo_chain saved (ras_numEntries (RAS u ! unat tid)) (rs @ [r])
      (tos (RAS u' ! unat tid), ghr (direction u')) (tos (RAS u ! unat tid), ghr (direction u))"
    by (rule undo_chain_append [OF i(5) [unfolded p(7)]]) (use p(5,6) in auto)
  moreover have "predHist u' = (predHist u)[unat tid := (rs @ [r]) @ predHist u ! unat tid]"
    using i(3) p(3) len by simp
  moreover have "predict_all ops isa tid (b # bs) u = Inr u'"
    using p(1) i(1) b by (simp add: predict_all_def)
  ultimately show ?case using i p Cons.prems(3) b
    by (intro exI [of _ u'] exI [of _ "rs @ [r]"]) auto
qed

lemma squash_undoes_predictions:
  fixes u :: "('p, 'h, 'pc) bpred_unit"
  assumes u: "unit_inv inv hist_ok u" and tid: "unat tid < length (RAS u)"
    and sn: "\<forall>b \<in> set bs. sn < fst (snd b)"
    and old: "predHist u ! unat tid = [] \<or> seqNum (hd (predHist u ! unat tid)) \<le> sn"
  shows "\<exists>u1 u2. predict_all ops isa tid bs u = Inr u1 \<and> squash_after ops sn tid u1 = Inr u2 \<and>
    unit_inv inv hist_ok u2 \<and> predHist u2 = predHist u \<and> BTB u2 = BTB u \<and>
    ghr (direction u2) = ghr (direction u) \<and> (\<forall>i < length (RAS u). tos (RAS u2 ! i) = tos (RAS u ! i))"
proof -
  let ?n = "ras_numEntries (RAS u ! unat tid)" and ?h = "predHist u ! unat tid"
  obtain u1 rs where p: "predict_all ops isa tid bs u = Inr u1" "unit_inv inv hist_ok u1"
    "predHist u1 = (predHist u)[unat tid := rs @ ?h]" "\<forall>r \<in> set rs. sn < seqNum r"
    "undo_chain saved ?n rs (tos (RAS u1 ! unat tid), ghr (direction u1)) (tos (RAS u ! unat tid), ghr (direction u))"
    "ras_numEntries (RAS u1 ! unat tid) = ?n" "BTB u1 = BTB u" "length (RAS u1) = length (RAS u)"
    "\<forall>i. i \<noteq> unat tid \<longrightarrow> RAS u1 ! i = RAS u ! i"
    using predict_all_chain [OF u tid sn] by blast
  have len: "length (predHist u) = length (RAS u)" using u by (simp add: unit_inv_def)
  have h1: "predHist u1 ! unat tid = rs @ ?h" using p(3) tid len by simp
  have i1: "ras_ok (RAS u1 ! unat tid)" "inv (direction u1)" "\<forall>r \<in> set rs. record_ok hist_ok ?n r"
    using p(2,6,8) h1 tid by (auto simp: unit_inv_def)
  obtain s' p' where s: "squash_loop ops sn (rs @ ?h) (RAS u1 ! unat tid, direction u1) = Inr (?h, s', p')" "ras_ok s'"
    "ras_numEntries s' = ?n" "inv p'" "tos s' = tos (RAS u ! unat tid)" "ghr p' = ghr (direction u)"
    using squash_loop_chain [OF p(5) _ i1(1) p(6) i1(2) old] i1(3) p(4) by blast
  let ?u2 = "u1\<lparr>predHist := (predHist u1)[unat tid := ?h], RAS := (RAS u1)[unat tid := s'], direction := p'\<rparr>"
  have "squash_after ops sn tid u1 = Inr ?u2"
    using h1 s(1) tid p(3,8) len by (simp add: squash_after_def)
  moreover have "predHist ?u2 = predHist u" using p(3) by simp
  moreover have "unit_inv inv hist_ok ?u2"
    using u p s(2-4) len tid by (auto simp: unit_inv_def nth_list_update)
  moreover have "\<forall>i < length (RAS u). tos (RAS ?u2 ! i) = tos (RAS u ! i)"
    using p(8,9) s(5) tid by (auto simp: nth_list_update)
  ultimately show ?thesis using p(1,7) s(6)
    by (intro exI [of _ u1] exI [of _ ?u2]) auto
qed

lemma commit_loop_ok:
  "inv p \<Longrightarrow> \<forall>r \<in> set rs. hist_ok (bpHistory r) \<Longrightarrow>
   \<exists>p'. commit_loop ops sn rs p = Inr (dropWhile (\<lambda>r. seqNum r \<le> sn) rs, p') \<and> inv p' \<and> ghr p' = ghr p"
proof (induction rs arbitrary: p)
  case (Cons r rs)
  obtain p1 where p1: "(if \<not> wasSquashed r then d_update ops (ph_pc r) (predTaken r) (bpHistory r) False p
               else d_retireSquashed ops (bpHistory r) p) = Inr p1" "inv p1" "ghr p1 = ghr p"
    using update_ok [of p "bpHistory r" "ph_pc r" "predTaken r" False] retire_ok [of p "bpHistory r"] Cons.prems
    by (cases "wasSquashed r") auto
  then show ?case using Cons.IH [of p1] Cons.prems by (auto simp del: not_le simp: p1(1))
qed simp

lemma unit_update_ok:
  fixes u :: "('p, 'h, 'pc) bpred_unit"
  assumes "unit_inv inv hist_ok u" "unat tid < length (RAS u)"
  shows "\<exists>u'. BPredUnit_update ops sn tid u = Inr u' \<and> unit_inv inv hist_ok u' \<and>
    ghr (direction u') = ghr (direction u) \<and> RAS u' = RAS u \<and>
    predHist u' = (predHist u)[unat tid := rev (dropWhile (\<lambda>r. seqNum r \<le> sn) (rev (predHist u ! unat tid)))]"
proof -
  let ?h = "predHist u ! unat tid"
  have i: "inv (direction u)" "length (predHist u) = length (RAS u)" "\<forall>r \<in> set (rev ?h). hist_ok (bpHistory r)"
    using assms by (auto simp: unit_inv_def record_ok_def)
  obtain p' where p': "commit_loop ops sn (rev ?h) (direction u) = Inr (dropWhile (\<lambda>r. seqNum r \<le> sn) (rev ?h), p')"
    "inv p'" "ghr p' = ghr (direction u)" using commit_loop_ok [OF i(1,3)] by blast
  have sub: "set (dropWhile (\<lambda>r. seqNum r \<le> sn) (rev ?h)) \<subseteq> set ?h" by (metis set_dropWhileD set_rev subsetI)
  let ?u = "u\<lparr>predHist := (predHist u)[unat tid := rev (dropWhile (\<lambda>r. seqNum r \<le> sn) (rev ?h))], direction := p'\<rparr>"
  have "BPredUnit_update ops sn tid u = Inr ?u" using p'(1) i(2) assms(2) by (simp add: BPredUnit_update_def)
  moreover have "unit_inv inv hist_ok ?u"
    using assms p'(2) sub by (auto simp: unit_inv_def nth_list_update)
  ultimately show ?thesis using p'(3) by (intro exI [of _ ?u]) auto
qed

lemma squash_loop_ok:
  fixes rs :: "('h, 'pc) predictor_history list"
  assumes "\<forall>r \<in> set rs. record_ok hist_ok (ras_numEntries s) r" "ras_ok s" "inv p"
  shows "\<exists>s' p'. squash_loop ops sn rs (s, p) = Inr (dropWhile (\<lambda>r. seqNum r > sn) rs, s', p') \<and> ras_ok s' \<and>
    ras_numEntries s' = ras_numEntries s \<and> inv p'"
  using assms
proof (induction rs arbitrary: s p)
  case (Cons r rs)
  have r: "hist_ok (bpHistory r)" "unat (RASIndex r) < unat (ras_numEntries s)"
    using Cons.prems(1) by (auto simp: record_ok_def)
  obtain p1 where p1: "d_squash ops (bpHistory r) p = Inr p1" "inv p1"
    using squash_ok [OF Cons.prems(3) r(1)] by blast
  obtain s1 where s1: "(if usedRAS r then ras_restore (RASIndex r) (RASTarget r) s
               else if wasCall r \<and> pushedRAS r then Inr (ras_pop s) else Inr s) = Inr s1"
      "ras_ok s1" "ras_numEntries s1 = ras_numEntries s"
    using ras_restore_ok [OF Cons.prems(2) r(2), of "RASTarget r"] ras_pop_ok [OF Cons.prems(2)] Cons.prems(2) that
    by (metis ras_pop_simps(3))
  show ?case
  proof (cases "seqNum r > sn")
    case True
    have "squash_loop ops sn (r # rs) (s, p) = squash_loop ops sn rs (s1, p1)"
      unfolding squash_loop.simps fst_conv snd_conv s1(1) p1(1) using True by simp
    then show ?thesis using Cons.IH [of s1 p1] Cons.prems(1) s1 p1(2) True by simp
  next
    case False
    then show ?thesis using Cons.prems by auto
  qed
qed simp

lemma unit_squash_ok:
  fixes u :: "('p, 'h, 'pc) bpred_unit"
  assumes "unit_inv inv hist_ok u" "unat tid < length (RAS u)"
  obtains u' where "squash_after ops sn tid u = Inr u'" "unit_inv inv hist_ok u'"
    "predHist u' = (predHist u)[unat tid := dropWhile (\<lambda>r. seqNum r > sn) (predHist u ! unat tid)]"
    "length (RAS u') = length (RAS u)" "BTB u' = BTB u"
proof -
  let ?h = "predHist u ! unat tid" and ?s = "RAS u ! unat tid"
  have i: "inv (direction u)" "length (predHist u) = length (RAS u)" "ras_ok ?s"
      "\<forall>r \<in> set ?h. record_ok hist_ok (ras_numEntries ?s) r"
    using assms by (auto simp: unit_inv_def)
  obtain s' p' where s: "squash_loop ops sn ?h (?s, direction u) = Inr (dropWhile (\<lambda>r. seqNum r > sn) ?h, s', p')"
    "ras_ok s'" "ras_numEntries s' = ras_numEntries ?s" "inv p'"
    using squash_loop_ok [OF i(4,3,1)] by blast
  have sub: "set (dropWhile (\<lambda>r. seqNum r > sn) ?h) \<subseteq> set ?h" by (meson set_dropWhileD subsetI)
  let ?u = "u\<lparr>predHist := (predHist u)[unat tid := dropWhile (\<lambda>r. seqNum r > sn) ?h],
              RAS := (RAS u)[unat tid := s'], direction := p'\<rparr>"
  have "squash_after ops sn tid u = Inr ?u" using s(1) i(2) assms(2) by (simp add: squash_after_def)
  moreover have "unit_inv inv hist_ok ?u"
    using assms s(2-4) sub by (auto simp: unit_inv_def nth_list_update)
  ultimately show thesis by (rule that) auto
qed

lemma correct_targets_ok:
  fixes r :: "('h, 'pc) predictor_history"
  assumes "ras_ok s" "btb_ok b" "record_ok hist_ok (ras_numEntries s) r"
  shows "\<exists>r' s' b'. correct_targets t taken tid r s b = Inr (r', s', b') \<and> ras_ok s' \<and>
    ras_numEntries s' = ras_numEntries s \<and> btb_ok b' \<and> record_ok hist_ok (ras_numEntries s) r' \<and>
    seqNum r' = seqNum r"
proof -
  have i: "unat (RASIndex r) < unat (ras_numEntries s)" using assms(3) by (simp add: record_ok_def)
  obtain s1 where "ras_restore (RASIndex r) (RASTarget r) s = Inr s1" "ras_ok s1" "ras_numEntries s1 = ras_numEntries s"
    using ras_restore_ok [OF assms(1) i] by metis
  then show ?thesis using assms ras_pop_ok [OF assms(1)]
    by (auto simp: correct_targets_def DefaultBTB_update_ok [OF assms(2)] record_ok_def)
qed

lemma unit_squash_mispredicted_ok:
  fixes u :: "('p, 'h, 'pc) bpred_unit"
  assumes u: "unit_inv inv hist_ok u" and tid: "unat tid < length (RAS u)"
    and front: "\<forall>r rs. dropWhile (\<lambda>r. seqNum r > sn) (predHist u ! unat tid) = r # rs \<longrightarrow> seqNum r = sn"
  shows "\<exists>u'. squash_mispredicted ops sn target taken tid u = Inr u' \<and> unit_inv inv hist_ok u' \<and>
    map seqNum (predHist u' ! unat tid) = map seqNum (dropWhile (\<lambda>r. seqNum r > sn) (predHist u ! unat tid)) \<and>
    length (RAS u') = length (RAS u)"
proof -
  obtain u1 where u1: "squash_after ops sn tid u = Inr u1" "unit_inv inv hist_ok u1"
    "predHist u1 = (predHist u)[unat tid := dropWhile (\<lambda>r. seqNum r > sn) (predHist u ! unat tid)]"
    "length (RAS u1) = length (RAS u)"
    using unit_squash_ok [OF u tid] by metis
  let ?h = "dropWhile (\<lambda>r. seqNum r > sn) (predHist u ! unat tid)" and ?s = "RAS u1 ! unat tid"
  have len: "unat tid < length (predHist u1)" "unat tid < length (RAS u1)" "predHist u1 ! unat tid = ?h"
    using u tid u1(3,4) by (auto simp: unit_inv_def)
  show ?thesis
  proof (cases ?h)
    case Nil
    then have "predHist u1 ! unat tid = []" using len(3) by (simp only:)
    then show ?thesis using u1(1,2,4) len(1) Nil by (simp add: squash_mispredicted_def)
  next
    case (Cons r rs)
    have hd: "predHist u1 ! unat tid = r # rs" "seqNum r = sn" using len(3) front Cons by (simp_all only:)
    have i: "inv (direction u1)" "btb_ok (BTB u1)" "ras_ok ?s" "\<forall>x \<in> set (r # rs). record_ok hist_ok (ras_numEntries ?s) x"
      using u1(2) len(2) hd by (auto simp: unit_inv_def)
    have r: "hist_ok (bpHistory r)" "record_ok hist_ok (ras_numEntries ?s) (r\<lparr>wasSquashed := True\<rparr>)"
      using i(4) by (auto simp: record_ok_def)
    obtain p where p: "d_update ops (ph_pc r) taken (bpHistory r) True (direction u1) = Inr p" "inv p"
      using update_ok [OF i(1) r(1)] by blast
    obtain r' s' b' where c: "correct_targets target taken tid (r\<lparr>wasSquashed := True\<rparr>) ?s (BTB u1) = Inr (r', s', b')"
      "ras_ok s'" "ras_numEntries s' = ras_numEntries ?s" "btb_ok b'" "record_ok hist_ok (ras_numEntries ?s) r'" "seqNum r' = seqNum (r\<lparr>wasSquashed := True\<rparr>)"
      using correct_targets_ok [OF i(3,2) r(2)] by blast
    let ?u = "u1\<lparr>predHist := (predHist u1)[unat tid := r' # rs], RAS := (RAS u1)[unat tid := s'], BTB := b', direction := p\<rparr>"
    have "squash_mispredicted ops sn target taken tid u = Inr ?u"
      unfolding squash_mispredicted_def u1(1) using len(1,2) hd p(1) c(1) by simp
    moreover have "unit_inv inv hist_ok ?u"
      using u1(2) p(2) c(2-5) i(4) len(1,2) by (auto simp: unit_inv_def nth_list_update)
    moreover have "map seqNum (predHist ?u ! unat tid) = map seqNum ?h" using len(1) c(6) Cons by (simp only:) simp
    ultimately show ?thesis using u1(4) by (intro exI [of _ ?u]) simp
  qed
qed

end

section \<open>Properties\<close>

text \<open>A unit with the tournament predictor, over addresses as program counters.\<close>

definition example_params :: tournament_params where
  "example_params = \<lparr>par_localPredictorSize = 4, par_localCtrBits = 2, par_localHistoryTableSize = 4,
     par_globalPredictorSize = 8, par_globalCtrBits = 2, par_choicePredictorSize = 8, par_choiceCtrBits = 2,
     par_instShiftAmt = 2\<rparr>"

definition example_isa :: "addr isa_ops" where
  "example_isa = \<lparr>instAddr = (\<lambda>pc. pc), buildRetPC = (\<lambda>_ ret. ret + 4), pc_zero = 0\<rparr>"

definition example_inst :: "bool \<Rightarrow> bool \<Rightarrow> bool \<Rightarrow> addr static_inst" where
  "example_inst uncond ret call = \<lparr>isUncondCtrl = uncond, isReturn = ret, isCall = call, isDirectCtrl = True,
     branchTarget = (\<lambda>pc. pc + 64), advancePC = (\<lambda>pc. pc + 4)\<rparr>"

lemma example_tournament:
  "\<exists>p. TournamentBP_new example_params = Inr p \<and> tn_localHistoryTableSize p = 4"
  using ceilLog2_power [of 4 2] ceilLog2_power [of 8 3]
  by (simp add: TournamentBP_new_def example_params_def isPowerOf2_def leastSigBit_def Let_def bitmask_def push_bit_eq_mult)

lemma example_unit:
  "\<exists>u :: (tournament, tournament_history, addr) bpred_unit. \<exists>p. TournamentBP_new example_params = Inr p \<and>
     BPredUnit_new 0 1 4 16 16 2 p = Inr u \<and> unit_inv tournament_inv (\<lambda>h. h \<noteq> None) u \<and>
     predHist u = [[]] \<and> length (RAS u) = 1"
proof -
  obtain p where p: "TournamentBP_new example_params = Inr p" using example_tournament by blast
  have "\<exists>u :: (tournament, tournament_history, addr) bpred_unit. BPredUnit_new 0 1 4 16 16 2 p = Inr u \<and>
      predHist u = [[]] \<and> length (RAS u) = 1"
    using floorLog2_u32_correct [of 4] by (auto simp: BPredUnit_new_def DefaultBTB_new_def isPowerOf2_def leastSigBit_def)
  then show ?thesis using p BPredUnit_new_inv [where dinv = tournament_inv, OF _ TournamentBP_new_inv [OF p]] by fastforce
qed

text \<open>
  C9: squashing undoes speculation. After any run of predictions by the unit with the tournament
  predictor, squashing back to a sequence number before all of them returns, and the prediction
  history, the speculative global history and the top index of every return address stack are what
  they were before the run; the target buffer was not touched.
\<close>

theorem squash_restores:
  assumes "unit_inv tournament_inv (\<lambda>h. h \<noteq> None) u" "unat tid < length (RAS u)" "\<forall>b \<in> set bs. sn < fst (snd b)"
    and "predHist u ! unat tid = [] \<or> seqNum (hd (predHist u ! unat tid)) \<le> sn"
  shows "\<exists>u1 u2. predict_all TournamentBP_ops isa tid bs u = Inr u1 \<and> squash_after TournamentBP_ops sn tid u1 = Inr u2 \<and>
    predHist u2 = predHist u \<and> BTB u2 = BTB u \<and> tn_globalHistory (direction u2) = tn_globalHistory (direction u) \<and>
    (\<forall>i < length (RAS u). tos (RAS u2 ! i) = tos (RAS u ! i))"
  using tournament_dir.squash_undoes_predictions [OF assms] by blast

theorem squash_restores_witness:
  "\<exists>u :: (tournament, tournament_history, addr) bpred_unit. unit_inv tournament_inv (\<lambda>h. h \<noteq> None) u \<and>
     (\<exists>u1 u2. predict_all TournamentBP_ops example_isa 0
        [(example_inst True False True, 5, 0x40), (example_inst False False False, 6, 0x80),
         (example_inst True True False, 7, 0x84)] u = Inr u1 \<and>
        squash_after TournamentBP_ops 4 0 u1 = Inr u2 \<and> predHist u2 = [[]])"
proof -
  obtain u :: "(tournament, tournament_history, addr) bpred_unit"
    where u: "unit_inv tournament_inv (\<lambda>h. h \<noteq> None) u" "predHist u = [[]]" "length (RAS u) = 1"
    using example_unit by blast
  then show ?thesis
    using squash_restores [OF u(1), of 0 "[(example_inst True False True, 5, 0x40),
        (example_inst False False False, 6, 0x80), (example_inst True True False, 7, 0x84)]" 4 example_isa]
    by (intro exI [of _ u]) auto
qed

subsection \<open>Runs of the unit\<close>

text \<open>
  The operations on one thread as the pipeline uses them: sequence numbers grow, and a
  misprediction is reported for a branch that is still in the history.
\<close>

inductive bpred_run ::
  "('p, 'h) dir_ops \<Rightarrow> 'pc isa_ops \<Rightarrow> thread_id \<Rightarrow> ('p, 'h, 'pc) bpred_unit \<Rightarrow> ('p, 'h, 'pc) bpred_unit \<Rightarrow> bool"
  for ops isa tid u0 where
  run_start: "bpred_run ops isa tid u0 u0"
| run_predict: "bpred_run ops isa tid u0 u \<Longrightarrow> \<forall>r \<in> set (predHist u ! unat tid). seqNum r < sn \<Longrightarrow>
    predict ops isa inst sn pc tid u = Inr (taken, pc', u') \<Longrightarrow> bpred_run ops isa tid u0 u'"
| run_commit: "bpred_run ops isa tid u0 u \<Longrightarrow> BPredUnit_update ops sn tid u = Inr u' \<Longrightarrow> bpred_run ops isa tid u0 u'"
| run_squash: "bpred_run ops isa tid u0 u \<Longrightarrow> squash_after ops sn tid u = Inr u' \<Longrightarrow> bpred_run ops isa tid u0 u'"
| run_mispredict: "bpred_run ops isa tid u0 u \<Longrightarrow> sn \<in> seqNum ` set (predHist u ! unat tid) \<Longrightarrow>
    squash_mispredicted ops sn target taken tid u = Inr u' \<Longrightarrow> bpred_run ops isa tid u0 u'"

definition youngest_first :: "('h, 'pc) predictor_history list \<Rightarrow> bool" where
  "youngest_first rs \<longleftrightarrow> sorted_wrt (>) (map seqNum rs)"

lemma youngest_first_drop:
  assumes "youngest_first rs" "sn \<in> seqNum ` set rs" "dropWhile (\<lambda>r. seqNum r > sn) rs = r # rs'"
  shows "seqNum r = sn"
  using assms by (induction rs) (auto simp: youngest_first_def split: if_splits)

lemma youngest_first_suffix: "youngest_first rs \<Longrightarrow> youngest_first (dropWhile P rs)"
  unfolding youngest_first_def by (simp add: dropWhile_eq_drop drop_map [symmetric] sorted_wrt_drop)

lemma youngest_first_prefix: "youngest_first rs \<Longrightarrow> youngest_first (rev (dropWhile P (rev rs)))"
  unfolding youngest_first_def
  by (metis append_take_drop_id dropWhile_eq_drop map_append rev_append rev_rev_ident sorted_wrt_append)

definition unit_good ::
  "('p \<Rightarrow> bool) \<Rightarrow> ('h option \<Rightarrow> bool) \<Rightarrow> thread_id \<Rightarrow> ('p, 'h, 'pc) bpred_unit \<Rightarrow> bool" where
  "unit_good dinv hist_ok tid u \<longleftrightarrow> unit_inv dinv hist_ok u \<and> unat tid < length (RAS u) \<and>
     youngest_first (predHist u ! unat tid)"

context direction_predictor
begin

lemma run_good:
  fixes u :: "('p, 'h, 'pc) bpred_unit"
  assumes "bpred_run ops isa tid u0 u" "unit_good inv hist_ok tid u0"
  shows "unit_good inv hist_ok tid u"
  using assms
proof (induction rule: bpred_run.induct)
  case (run_predict u sn inst pc taken pc' u')
  then have g: "unit_inv inv hist_ok u" "unat tid < length (RAS u)" "youngest_first (predHist u ! unat tid)"
    by (auto simp: unit_good_def)
  then have len: "unat tid < length (predHist u)" by (simp add: unit_inv_def)
  obtain tk tg u1 r where p: "predict ops isa inst sn pc tid u = Inr (tk, tg, u1)" "unit_inv inv hist_ok u1"
    "predHist u1 = (predHist u)[unat tid := r # predHist u ! unat tid]" "seqNum r = sn" "length (RAS u1) = length (RAS u)"
    by (rule predict_ok [OF g(1,2)])
  have "u' = u1" using p(1) run_predict(3) by simp
  then show ?case using p(2-5) g len run_predict(2) by (simp add: unit_good_def youngest_first_def)
next
  case (run_commit u sn u')
  then show ?case using unit_update_ok [of u tid sn]
    by (auto simp: unit_good_def unit_inv_def youngest_first_prefix)
next
  case (run_squash u sn u')
  then have g: "unit_inv inv hist_ok u" "unat tid < length (RAS u)" "youngest_first (predHist u ! unat tid)"
    by (auto simp: unit_good_def)
  obtain u1 where "squash_after ops sn tid u = Inr u1" "unit_inv inv hist_ok u1"
    "predHist u1 = (predHist u)[unat tid := dropWhile (\<lambda>r. seqNum r > sn) (predHist u ! unat tid)]"
    "length (RAS u1) = length (RAS u)"
    using unit_squash_ok [OF g(1,2)] by metis
  then show ?case using g run_squash(2) by (auto simp: unit_good_def unit_inv_def youngest_first_suffix)
next
  case (run_mispredict u sn target taken u')
  then have g: "unit_inv inv hist_ok u" "unat tid < length (RAS u)" "youngest_first (predHist u ! unat tid)"
    by (auto simp: unit_good_def)
  have "\<forall>r rs. dropWhile (\<lambda>r. seqNum r > sn) (predHist u ! unat tid) = r # rs \<longrightarrow> seqNum r = sn"
    using youngest_first_drop [OF g(3) run_mispredict(2)] by blast
  from unit_squash_mispredicted_ok [OF g(1,2) this, of target taken]
  show ?case using run_mispredict(3) youngest_first_suffix [OF g(3)] g(2)
    by (auto simp: unit_good_def youngest_first_def)
qed

lemma good_operations:
  fixes u :: "('p, 'h, 'pc) bpred_unit"
  assumes "unit_good inv hist_ok tid u"
  shows "(\<exists>r. predict ops isa inst sn pc tid u = Inr r) \<and> (\<exists>u'. BPredUnit_update ops sn tid u = Inr u') \<and>
    (\<exists>u'. squash_after ops sn tid u = Inr u') \<and>
    (sn \<in> seqNum ` set (predHist u ! unat tid) \<longrightarrow> (\<exists>u'. squash_mispredicted ops sn target taken tid u = Inr u'))"
proof (intro conjI impI)
  have g: "unit_inv inv hist_ok u" "unat tid < length (RAS u)" "youngest_first (predHist u ! unat tid)"
    using assms by (auto simp: unit_good_def)
  show "\<exists>r. predict ops isa inst sn pc tid u = Inr r" by (rule predict_ok [OF g(1,2)]) blast
  show "\<exists>u'. BPredUnit_update ops sn tid u = Inr u'" using unit_update_ok [OF g(1,2)] by blast
  show "\<exists>u'. squash_after ops sn tid u = Inr u'" by (rule unit_squash_ok [OF g(1,2)]) blast
  assume "sn \<in> seqNum ` set (predHist u ! unat tid)"
  then have "\<forall>r rs. dropWhile (\<lambda>r. seqNum r > sn) (predHist u ! unat tid) = r # rs \<longrightarrow> seqNum r = sn"
    using youngest_first_drop [OF g(3)] by blast
  then show "\<exists>u'. squash_mispredicted ops sn target taken tid u = Inr u'"
    using unit_squash_mispredicted_ok [OF g(1,2)] by blast
qed

end



text \<open>
  C23: the branch target buffer returns what was stored. After an update the entry is valid for the
  same address and thread and holds the target, and entries at other indices are unchanged.
\<close>

theorem btb_update_lookup:
  assumes "btb_ok b"
  shows "\<exists>b'. DefaultBTB_update pc target tid b = Inr b' \<and> btb_ok b' \<and> DefaultBTB_valid pc tid b' = Inr True \<and>
    DefaultBTB_lookup pc0 pc tid b' = Inr target \<and>
    (\<forall>pc' tid'. btb_getIndex pc' b \<noteq> btb_getIndex pc b \<longrightarrow>
       DefaultBTB_valid pc' tid' b' = DefaultBTB_valid pc' tid' b \<and>
       DefaultBTB_lookup pc0 pc' tid' b' = DefaultBTB_lookup pc0 pc' tid' b)"
proof -
  let ?e = "\<lparr>be_tag = btb_getTag pc b, be_target = target, be_tid = tid, be_valid = True\<rparr>"
  let ?b = "b\<lparr>btb_entries := (btb_entries b)[unat (btb_getIndex pc b) := ?e]\<rparr>"
  have ok: "btb_ok ?b" using assms by simp
  have i: "unat (btb_getIndex pc b) < length (btb_entries b)" using btb_index [OF assms] assms by (simp add: btb_ok_def)
  have ne: "unat (btb_getIndex pc b) = unat (btb_getIndex pc' b) \<longleftrightarrow> btb_getIndex pc' b = btb_getIndex pc b" for pc'
    by (metis unsigned_word_eqI)
  show ?thesis
    using DefaultBTB_update_ok [OF assms, of pc target tid] ok i ne
    by (intro exI [of _ ?b]) (simp add: DefaultBTB_valid_ok [OF ok] DefaultBTB_lookup_ok [OF ok]
        DefaultBTB_valid_ok [OF assms] DefaultBTB_lookup_ok [OF assms] Let_def nth_list_update)
qed

theorem btb_update_lookup_witness:
  "\<exists>b b'. DefaultBTB_new (0 :: addr) 4 16 2 = Inr b \<and> DefaultBTB_update 0x40 0x100 0 b = Inr b' \<and>
     DefaultBTB_lookup 0 0x40 0 b' = Inr 0x100"
proof -
  obtain b :: "addr btb" where b: "DefaultBTB_new 0 4 16 2 = Inr b"
    using floorLog2_u32_correct [of 4] by (auto simp: DefaultBTB_new_def isPowerOf2_def leastSigBit_def)
  show ?thesis using btb_update_lookup [OF DefaultBTB_new_ok [OF b], of "0x40" "0x100" 0 0] b by blast
qed

end
