(* ===== verification/Ras_Props.thy ===== *)
theory Ras_Props
  imports Bpred_Unit_Props
begin

text \<open>
  The return address stack as a stack, and the places where the prediction unit loses track of it
  or of its prediction.
\<close>

section \<open>Last in, first out\<close>

definition ras_push_all :: "'pc list \<Rightarrow> 'pc ras \<Rightarrow> 'pc ras res" where
  "ras_push_all = foldE ras_push"

fun ras_pops :: "nat \<Rightarrow> 'pc ras \<Rightarrow> 'pc list res" where
  "ras_pops 0 r = Inr []"
| "ras_pops (Suc k) r = bindE (ras_top r) (\<lambda>x. bindE (ras_pops k (ras_pop r)) (\<lambda>xs. Inr (x # xs)))"

lemma ras_push_all_ok:
  assumes "ras_ok r" "length xs \<le> unat (ras_numEntries r)"
  shows "\<exists>r'. ras_push_all xs r = Inr r' \<and> ras_ok r' \<and> ras_numEntries r' = ras_numEntries r \<and>
    unat (tos r') = (unat (tos r) + length xs) mod unat (ras_numEntries r) \<and>
    (\<forall>i < length xs. addrStack r' ! ((unat (tos r) + i + 1) mod unat (ras_numEntries r)) = xs ! i)"
  using assms(2)
proof (induction xs rule: rev_induct)
  case Nil
  then show ?case using assms(1) by (auto simp: ras_push_all_def ras_ok_def)
next
  case (snoc x xs)
  let ?n = "unat (ras_numEntries r)" and ?t = "unat (tos r)"
  obtain r1 where r1: "ras_push_all xs r = Inr r1" "ras_ok r1" "ras_numEntries r1 = ras_numEntries r"
    "unat (tos r1) = (?t + length xs) mod ?n" "\<forall>i < length xs. addrStack r1 ! ((?t + i + 1) mod ?n) = xs ! i"
    using snoc by auto
  obtain r2 where r2: "ras_push x r1 = Inr r2" "ras_ok r2" "tos r2 = tos (incrTos r1)"
    "addrStack r2 = (addrStack r1)[unat (tos (incrTos r1)) := x]" "ras_numEntries r2 = ras_numEntries r1"
    by (rule ras_push_ok [OF r1(2)])
  have top: "unat (tos (incrTos r1)) = (?t + length xs + 1) mod ?n"
    using unat_incrTos [OF r1(2)] r1(3,4) by (simp add: mod_Suc_eq)
  have len: "(?t + length xs + 1) mod ?n < length (addrStack r1)" using r1(2,3) by (simp add: ras_ok_def)
  have ne: "(?t + length xs + 1) mod ?n \<noteq> (?t + i + 1) mod ?n" if "i < length xs" for i
  proof
    assume eq: "(?t + length xs + 1) mod ?n = (?t + i + 1) mod ?n"
    have "?n dvd (?t + length xs + 1) - (?t + i + 1)"
      by (subst mod_eq_dvd_iff_nat [symmetric]) (use that eq in simp_all)
    then have "?n dvd length xs - i" by simp
    then show False using that snoc.prems by (auto dest: dvd_imp_le)
  qed
  have "addrStack r2 ! ((?t + i + 1) mod ?n) = (xs @ [x]) ! i" if "i < length (xs @ [x])" for i
    using that r1(5) ne [of i] len unfolding r2(4) top by (cases "i = length xs") (auto simp: nth_append)
  then show ?case using r1 r2 top
    by (intro exI [of _ r2]) (auto simp: ras_push_all_def foldE_append)
qed

lemma ras_pops_ok:
  assumes "ras_ok r" "k \<le> unat (ras_numEntries r)" "unat (tos r) = (b + k) mod unat (ras_numEntries r)"
  shows "ras_pops k r = Inr (rev (map (\<lambda>i. addrStack r ! ((b + i + 1) mod unat (ras_numEntries r))) [0..<k]))"
  using assms
proof (induction k arbitrary: r)
  case (Suc k)
  let ?n = "unat (ras_numEntries r)"
  have n: "0 < ?n" using Suc.prems(1) by (auto simp: ras_ok_def)
  have "unat (tos (ras_pop r)) = (b + k) mod ?n"
  proof -
    have "unat (tos (ras_pop r)) = ((b + Suc k) mod ?n + (?n - 1)) mod ?n"
      using unat_decrTos [OF Suc.prems(1)] Suc.prems(3) n by simp
    also have "\<dots> = (b + Suc k + (?n - 1)) mod ?n" by (simp add: mod_simps)
    also have "\<dots> = (b + k) mod ?n" using n by (metis Suc_diff_1 add_Suc_right add_Suc_shift mod_add_self2)
    finally show ?thesis .
  qed
  then have "ras_pops k (ras_pop r) = Inr (rev (map (\<lambda>i. addrStack r ! ((b + i + 1) mod ?n)) [0..<k]))"
    using Suc.IH [of "ras_pop r"] ras_pop_ok [OF Suc.prems(1)] Suc.prems(2) by simp
  then show ?case using ras_top_ok [OF Suc.prems(1)] Suc.prems(3) by simp
qed simp

text \<open>
  C21: the return address stack is a stack up to its size. Whatever it held, after pushing at most as
  many addresses as it has entries, popping them returns them in reverse order, also across the wrap
  of the circular buffer.
\<close>

theorem ras_lifo:
  assumes "ras_ok r" "length xs \<le> unat (ras_numEntries r)"
  shows "\<exists>r'. ras_push_all xs r = Inr r' \<and> ras_ok r' \<and> ras_pops (length xs) r' = Inr (rev xs)"
proof -
  let ?n = "unat (ras_numEntries r)"
  obtain r' where r': "ras_push_all xs r = Inr r'" "ras_ok r'" "ras_numEntries r' = ras_numEntries r"
    "unat (tos r') = (unat (tos r) + length xs) mod ?n"
    "\<forall>i < length xs. addrStack r' ! ((unat (tos r) + i + 1) mod ?n) = xs ! i"
    using ras_push_all_ok [OF assms] by blast
  have "map (\<lambda>i. addrStack r' ! ((unat (tos r) + i + 1) mod ?n)) [0..<length xs] = xs"
    by (rule nth_equalityI) (use r'(5) in auto)
  then have "ras_pops (length xs) r' = Inr (rev xs)"
    using ras_pops_ok [OF r'(2), of "length xs" "unat (tos r)"] r'(3,4) assms(2) by simp
  then show ?thesis using r'(1,2) by blast
qed

theorem ras_lifo_witness:
  "ras_ok (ras_init (0 :: addr) 3) \<and>
   (\<exists>r'. ras_push_all [0x10, 0x20, 0x30] (ras_init 0 3) = Inr r' \<and> ras_pops 3 r' = Inr [0x30, 0x20, 0x10 :: addr])"
proof -
  have ok: "ras_ok (ras_init (0 :: addr) 3)" by (simp add: ras_init_ok)
  have "length [0x10, 0x20, 0x30 :: addr] \<le> unat (ras_numEntries (ras_init (0 :: addr) 3))"
    by (simp add: ras_init_def ras_reset_def)
  from ras_lifo [OF ok this] ok show ?thesis by (auto simp: numeral_3_eq_3)
qed

section \<open>Where the unit loses track\<close>

text \<open>
  A conditional branch that the predictor takes but the target buffer misses is predicted not
  taken and falls through, yet its record still says taken: if it is then committed without a
  squash, because it indeed was not taken, the predictor is trained with the outcome taken.
\<close>

lemma btb_miss_trains_taken:
  assumes "unit_inv local_inv (\<lambda>h. h = None) u" "unat tid < length (RAS u)" "predHist u ! unat tid = []"
    and "LocalBP_lookup (instAddr isa pc) (direction u) = Inr (True, None, direction u)"
    and "DefaultBTB_valid (instAddr isa pc) tid (BTB u) = Inr False"
    and "\<not> isUncondCtrl inst" "\<not> isReturn inst" "\<not> isCall inst"
  shows "\<exists>u1. predict LocalBP_ops isa inst sn pc tid u = Inr (False, advancePC inst pc, u1) \<and>
    (\<exists>u2. BPredUnit_update LocalBP_ops sn tid u1 = Inr u2 \<and>
      LocalBP_update (instAddr isa pc) True None False (direction u) = Inr (direction u2))"
proof -
  have i: "local_inv (direction u)" "length (predHist u) = length (RAS u)" using assms(1) by (auto simp: unit_inv_def)
  let ?r = "PredictorHistory_new (pc_zero isa) sn (instAddr isa pc) True (None :: unit option) tid"
  let ?u1 = "u\<lparr>predHist := (predHist u)[unat tid := [?r]]\<rparr>"
  have p: "predict LocalBP_ops isa inst sn pc tid u = Inr (False, advancePC inst pc, ?u1)"
    using assms(2-8) i(2)
    by (cases u) (simp add: predict_def LocalBP_ops_def predict_target_def LocalBP_btbUpdate_def push_history_def Let_def)
  obtain p' where p': "LocalBP_update (instAddr isa pc) True None False (direction u) = Inr p'"
    using local_dir.update_ok [OF i(1), of None "instAddr isa pc" True False] by (auto simp: LocalBP_ops_def)
  have "BPredUnit_update LocalBP_ops sn tid ?u1 = Inr (?u1\<lparr>predHist := (predHist u)[unat tid := []], direction := p'\<rparr>)"
    using assms(2) i(2) p' by (simp add: BPredUnit_update_def LocalBP_ops_def PredictorHistory_new_def)
  then show ?thesis using p p' by (intro exI [of _ ?u1]) auto
qed

definition example_local :: local_bp where
  "example_local = \<lparr>lb_localCtrs = replicate 4 \<lparr>initialVal = 0, maxVal = 3, counter = 2\<rparr>,
     lb_localPredictorSize = 8, lb_localPredictorSets = 4, lb_localCtrBits = 2, lb_indexMask = 3, lb_instShiftAmt = 2\<rparr>"

definition example_local_unit :: "(local_bp, unit, addr) bpred_unit" where
  "example_local_unit = \<lparr>predHist = [[]],
     BTB = \<lparr>btb_entries = replicate 4 (BTBEntry_new 0), btb_numEntries = 4, idxMask = 3, tagBits = 16,
       tagMask = 0xFFFF, btb_instShiftAmt = 2, tagShiftAmt = 4\<rparr>,
     RAS = [ras_init 0 16], direction = example_local\<rparr>"

lemma example_local_unit_ok:
  "unit_inv local_inv (\<lambda>h. h = None) example_local_unit" "length (RAS example_local_unit) = 1"
  "predHist example_local_unit = [[]]"
  by (simp_all add: unit_inv_def example_local_unit_def example_local_def local_inv_def ctrs_ok_def sat_ok_def
      sat_max_def btb_ok_def ras_init_ok)

lemma example_local_lookup:
  "LocalBP_lookup 0x40 example_local = Inr (True, None, example_local)"
  "DefaultBTB_valid 0x40 0 (BTB example_local_unit) = Inr False"
proof -
  have "unat (getLocalIndex 0x40 example_local) < 4"
    using local_index [of example_local "0x40"]
    by (simp add: example_local_def local_inv_def ctrs_ok_def sat_ok_def sat_max_def)
  then show "LocalBP_lookup 0x40 example_local = Inr (True, None, example_local)"
    by (simp add: LocalBP_lookup_def getPrediction_def example_local_def sat_read_def)
  have "btb_ok (BTB example_local_unit)" by (simp add: btb_ok_def example_local_unit_def)
  moreover have "unat (btb_getIndex 0x40 (BTB example_local_unit)) < 4"
    using btb_index [OF calculation, of "0x40"] by (simp add: example_local_unit_def)
  ultimately show "DefaultBTB_valid 0x40 0 (BTB example_local_unit) = Inr False"
    by (simp add: DefaultBTB_valid_ok Let_def example_local_unit_def BTBEntry_new_def)
qed

lemma btb_miss_trains_taken_witness:
  "\<exists>u1. predict LocalBP_ops example_isa (example_inst False False False) 1 0x40 0 example_local_unit = Inr (False, 0x44, u1)"
  using btb_miss_trains_taken [OF example_local_unit_ok(1), of 0 example_isa "0x40" "example_inst False False False" 1]
    example_local_unit_ok(2,3) example_local_lookup
  by (auto simp: example_isa_def example_inst_def example_local_unit_def)

text \<open>
  A return that was predicted not taken but is taken pops the stack when the misprediction is
  corrected and is marked as having used it, but index and address of the popped entry are not
  recorded: if the return is later squashed itself, the stack is set to index 0 and entry 0 is
  overwritten with the zero address, wherever the top was.
\<close>

lemma late_return_squash:
  assumes "ras_ok s" "btb_ok b"
    and "r = (PredictorHistory_new pc0 sn a False h tid :: ('h, 'pc) predictor_history)\<lparr>wasReturn := True, wasSquashed := True\<rparr>"
  shows "\<exists>r' s' b'. correct_targets target True tid r s b = Inr (r', s', b') \<and> tos s' = tos (decrTos s) \<and>
    usedRAS r' \<and> (\<exists>s''. ras_restore (RASIndex r') (RASTarget r') s' = Inr s'' \<and> tos s'' = 0 \<and> addrStack s'' ! 0 = pc0)"
proof -
  let ?s = "ras_pop s" and ?r = "r\<lparr>usedRAS := True\<rparr>"
  obtain b' where c: "correct_targets target True tid r s b = Inr (?r, ?s, b')"
    using assms(3) DefaultBTB_update_ok [OF assms(2)] by (simp add: correct_targets_def PredictorHistory_new_def)
  have "unat (0 :: u32) < unat (ras_numEntries ?s)" using assms(1) by (simp add: ras_ok_def unat_gt_0)
  from ras_restore_ok [OF ras_pop_ok [OF assms(1)] this, of pc0] obtain s''
    where "ras_restore 0 pc0 ?s = Inr s''" "ras_ok s''" "tos s'' = 0" "addrStack s'' = (addrStack ?s)[unat (0 :: u32) := pc0]"
    by metis
  moreover from this have "addrStack s'' ! 0 = pc0" using assms(1) by (simp add: ras_ok_def unat_gt_0)
  ultimately show ?thesis using c assms(3) by (auto simp: PredictorHistory_new_def)
qed

lemma late_return_squash_witness:
  "\<exists>r' s' b'. correct_targets (0x80 :: addr) True 0
      ((PredictorHistory_new 0 7 0x40 False (None :: unit option) 0)\<lparr>wasReturn := True, wasSquashed := True\<rparr>)
      ((ras_init 0 16)\<lparr>tos := 9\<rparr>) (BTB example_local_unit) = Inr (r', s', b') \<and> tos s' = 8 \<and>
    (\<exists>s''. ras_restore (RASIndex r') (RASTarget r') s' = Inr s'' \<and> tos s'' = 0)"
proof -
  have s: "ras_ok ((ras_init (0 :: addr) 16)\<lparr>tos := 9\<rparr>)" by (simp add: ras_ok_def ras_init_def ras_reset_def)
  have b: "btb_ok (BTB example_local_unit)" by (simp add: btb_ok_def example_local_unit_def)
  show ?thesis
    using late_return_squash [OF s b refl, of "0x80" 0 0 7 "0x40" "None :: unit option"]
    by (fastforce simp: decrTos_def)
qed

text \<open>Undoing a pop restores top and contents but not the number of used entries.\<close>

lemma ras_restore_loses_count:
  assumes "ras_ok r" "usedEntries r = 1"
  shows "\<exists>r'. ras_restore (tos r) (addrStack r ! unat (tos r)) (ras_pop r) = Inr r' \<and> tos r' = tos r \<and>
    addrStack r' = addrStack r \<and> ras_empty r' \<and> \<not> ras_empty r"
  using assms by (auto simp: ras_restore_def ras_pop_def ras_empty_def ras_ok_def decrTos_def Let_def)

text \<open>The in-order variant asserts a stack index below 16, whatever the configured size.\<close>

lemma predictInOrder_index_assertion:
  assumes "unat tid < length (RAS u)" "ras_ok (RAS u ! unat tid)" "16 \<le> tos (RAS u ! unat tid)"
    and "\<not> ras_empty (RAS u ! unat tid)" "isUncondCtrl inst" "isReturn inst"
  shows "predictInOrder LocalBP_ops isa inst sn asid instPC predPC tid u = Inl Assert_Failed"
  using assms ras_top_ok [OF assms(2)] not_less [THEN iffD2, OF assms(3)]
  by (simp add: predictInOrder_def LocalBP_ops_def LocalBP_uncondBranch_def predictInOrder_target_def Let_def
      assertE_def del: not_less)

text \<open>The tournament predictor shifts the local history speculatively, and squashing does not shift it back.\<close>

lemma tournament_squash_keeps_local:
  assumes "TournamentBP_lookup a p = Inr (t, h, p')" "TournamentBP_squash h p' = Inr p''" "tournament_inv p"
  shows "tn_globalHistory p'' = tn_globalHistory p \<and>
    localHistoryTable p'' ! unat (calcLocHistIdx a p) = shift_history t (localHistoryTable p ! unat (calcLocHistIdx a p))"
  using assms tournament_index(1) [OF assms(3), of a]
  by (auto simp: TournamentBP_lookup_def TournamentBP_squash_def Let_def bindE_Inr_iff updateLocalHist_def
      updateGlobalHist_def vec_upd_def tournament_inv_def split: if_splits)

end
