(* ===== verification/Addr_Range.thy ===== *)
theory Addr_Range
  imports Int_Math "HOL-Library.Multiset"
begin

text \<open>
  Address ranges \<open>base/addr_range.hh\<close> and the map from ranges to values \<open>base/addr_range_map.hh\<close> that
  routes every memory access of the simulator. A \<open>std::map\<close> is the list of its entries in key order;
  an iterator is an index, \<open>end()\<close> is \<open>None\<close>. The text form of a range is left out.
\<close>

unbundle bit_operations_syntax

section \<open>Ranges\<close>

record addr_range =
  r_start :: addr
  r_end :: addr
  intlvHighBit :: u8
  xorHighBit :: u8
  intlvBits :: u8
  intlvMatch :: u8

definition AddrRange_none :: addr_range where
  "AddrRange_none = \<lparr>r_start = 1, r_end = 0, intlvHighBit = 0, xorHighBit = 0, intlvBits = 0, intlvMatch = 0\<rparr>"

definition AddrRange_plain :: "addr \<Rightarrow> addr \<Rightarrow> addr_range" where
  "AddrRange_plain s e = \<lparr>r_start = s, r_end = e, intlvHighBit = 0, xorHighBit = 0, intlvBits = 0, intlvMatch = 0\<rparr>"

text \<open>\<open>ULL(1) << n\<close>; from 64 on the shift is undefined.\<close>

definition shift_one :: "u8 \<Rightarrow> u64 res" where
  "shift_one n = (if unat n < 64 then Inr (push_bit (unat n) 1) else Inl Undefined)"

definition AddrRange_new :: "addr \<Rightarrow> addr \<Rightarrow> u8 \<Rightarrow> u8 \<Rightarrow> u8 \<Rightarrow> u8 \<Rightarrow> addr_range res" where
  "AddrRange_new s e high xhigh nbits match =
     bindE (if nbits \<noteq> 0
            then bindE (shift_one nbits) (\<lambda>lim. if ucast match \<ge> lim then Inl Fatal else Inr ())
            else Inr ()) (\<lambda>_.
     bindE (if nbits \<noteq> 0 \<and> xhigh \<noteq> 0
            then if xhigh = high then Inl Fatal
                 else if xhigh > high then if xhigh - high < nbits then Inl Fatal else Inr ()
                 else if high - xhigh < nbits then Inl Fatal else Inr ()
            else Inr ()) (\<lambda>_.
     Inr \<lparr>r_start = s, r_end = e, intlvHighBit = high, xorHighBit = xhigh, intlvBits = nbits, intlvMatch = match\<rparr>))"

definition interleaved :: "addr_range \<Rightarrow> bool" where
  "interleaved r \<longleftrightarrow> intlvBits r \<noteq> 0"

definition hashed :: "addr_range \<Rightarrow> bool" where
  "hashed r \<longleftrightarrow> interleaved r \<and> xorHighBit r \<noteq> 0"

definition granularity :: "addr_range \<Rightarrow> u64 res" where
  "granularity r =
     (if unat (intlvBits r) \<le> unat (intlvHighBit r) + 1 \<and> unat (intlvHighBit r) + 1 - unat (intlvBits r) < 64
      then Inr (push_bit (unat (intlvHighBit r) + 1 - unat (intlvBits r)) 1) else Inl Undefined)"

definition stripes :: "addr_range \<Rightarrow> u32 res" where
  "stripes r = bindE (shift_one (intlvBits r)) (\<lambda>n. Inr (ucast n))"

text \<open>The shift of \<open>size()\<close> is by less than 64 bits in every range that the constructors accept.\<close>

definition range_size :: "addr_range \<Rightarrow> addr" where
  "range_size r = drop_bit (unat (intlvBits r)) (r_end r - r_start r + 1)"

definition range_valid :: "addr_range \<Rightarrow> bool" where
  "range_valid r \<longleftrightarrow> r_start r \<le> r_end r"

definition mergesWith :: "addr_range \<Rightarrow> addr_range \<Rightarrow> bool" where
  "mergesWith t r \<longleftrightarrow> r_start r = r_start t \<and> r_end r = r_end t \<and> intlvHighBit r = intlvHighBit t \<and>
     xorHighBit r = xorHighBit t \<and> intlvBits r = intlvBits t"

text \<open>Merging the interleaved parts of one range: they must come in order and be complete.\<close>

fun merge_loop :: "addr_range \<Rightarrow> u8 \<Rightarrow> addr_range list \<Rightarrow> unit res" where
  "merge_loop t match [] = Inr ()"
| "merge_loop t match (r # rs) =
     (if \<not> mergesWith t r then Inl Fatal
      else if intlvMatch r \<noteq> match then Inl Fatal
      else merge_loop t (match + 1) rs)"

definition AddrRange_merge :: "addr_range list \<Rightarrow> addr_range res" where
  "AddrRange_merge ranges =
     (case ranges of
        [] \<Rightarrow> Inr AddrRange_none
      | f # _ \<Rightarrow>
          bindE (shift_one (intlvBits f)) (\<lambda>n.
          if of_nat (length ranges) \<noteq> n then Inl Fatal
          else bindE (merge_loop f 0 ranges) (\<lambda>_. Inr (AddrRange_plain (r_start f) (r_end f)))))"

text \<open>\<open>bits(a, high, high - n + 1)\<close>; a slice whose shift or whose mask is out of range is undefined.\<close>

definition range_slice :: "addr \<Rightarrow> u8 \<Rightarrow> u8 \<Rightarrow> u64 res" where
  "range_slice a high n =
     (if unat n \<le> unat high + 1 \<and> unat high + 1 - unat n < 64 \<and> unat n \<le> 64 then Inr (bits a (unat high) (unat high + 1 - unat n))
      else Inl Undefined)"

definition range_contains :: "addr_range \<Rightarrow> addr \<Rightarrow> bool res" where
  "range_contains r a =
     (let in_range = (a \<ge> r_start r \<and> a \<le> r_end r) in
      if \<not> interleaved r then Inr in_range
      else if in_range
      then if \<not> hashed r
           then bindE (range_slice a (intlvHighBit r) (intlvBits r)) (\<lambda>b. Inr (b = ucast (intlvMatch r)))
           else bindE (range_slice a (intlvHighBit r) (intlvBits r)) (\<lambda>b.
                bindE (range_slice a (xorHighBit r) (intlvBits r)) (\<lambda>x.
                Inr (b XOR x = ucast (intlvMatch r))))
      else Inr False)"

definition range_intersects :: "addr_range \<Rightarrow> addr_range \<Rightarrow> bool res" where
  "range_intersects t r =
     (if r_start t > r_end r \<or> r_end t < r_start r then Inr False
      else if \<not> interleaved t \<and> \<not> interleaved r then Inr True
      else if range_size r = 1 then range_contains t (r_start r)
      else if mergesWith t r then Inr (intlvMatch t = intlvMatch r)
      else Inl Panic)"

definition isSubset :: "addr_range \<Rightarrow> addr_range \<Rightarrow> bool res" where
  "isSubset t r =
     (if interleaved t then Inl Panic else Inr (r_start t \<ge> r_start r \<and> r_end t \<le> r_end r))"

definition range_lt :: "addr_range \<Rightarrow> addr_range \<Rightarrow> bool" where
  "range_lt t r \<longleftrightarrow> (if r_start t \<noteq> r_start r then r_start t < r_start r else intlvMatch t < intlvMatch r)"

definition range_eq :: "addr_range \<Rightarrow> addr_range \<Rightarrow> bool" where
  "range_eq t r \<longleftrightarrow> r_start t = r_start r \<and> r_end t = r_end r \<and> intlvBits t = intlvBits r \<and>
     (intlvBits t \<noteq> 0 \<longrightarrow> intlvHighBit t = intlvHighBit r \<and> intlvMatch t = intlvMatch r)"

definition RangeEx :: "addr \<Rightarrow> addr \<Rightarrow> addr_range" where
  "RangeEx s e = AddrRange_plain s (e - 1)"

definition RangeIn :: "addr \<Rightarrow> addr \<Rightarrow> addr_range" where
  "RangeIn s e = AddrRange_plain s e"

definition RangeSize :: "addr \<Rightarrow> addr \<Rightarrow> addr_range" where
  "RangeSize s n = AddrRange_plain s (s + n - 1)"

section \<open>The map\<close>

type_synonym 'v range_map = "(addr_range \<times> 'v) list"

abbreviation key_at :: "'v range_map \<Rightarrow> nat \<Rightarrow> addr_range" where
  "key_at tree i \<equiv> fst (tree ! i)"

text \<open>The library functions \<open>upper_bound\<close> and \<open>insert\<close> of \<open>std::map\<close>.\<close>

definition upper_bound :: "addr_range \<Rightarrow> 'v range_map \<Rightarrow> nat" where
  "upper_bound r tree = length (takeWhile (\<lambda>e. \<not> range_lt r (fst e)) tree)"

definition lower_bound :: "addr_range \<Rightarrow> 'v range_map \<Rightarrow> nat" where
  "lower_bound r tree = length (takeWhile (\<lambda>e. range_lt (fst e) r) tree)"

definition std_insert :: "addr_range \<Rightarrow> 'v \<Rightarrow> 'v range_map \<Rightarrow> nat \<times> 'v range_map" where
  "std_insert r d tree =
     (let i = lower_bound r tree in
      if i < length tree \<and> \<not> range_lt r (key_at tree i) then (i, tree)
      else (i, take i tree @ (r, d) # drop i tree))"

text \<open>The backward loop of \<open>find\<close> through the parts of one interleaved range, and the check after it.\<close>

fun back_loop :: "addr_range \<Rightarrow> addr_range \<Rightarrow> nat \<Rightarrow> 'v range_map \<Rightarrow> nat option res" where
  "back_loop r orig 0 tree =
     bindE (range_intersects (key_at tree 0) r) (\<lambda>b. Inr (if b then Some 0 else None))"
| "back_loop r orig (Suc i) tree =
     (if mergesWith (key_at tree (Suc i)) orig
      then bindE (range_intersects (key_at tree i) r) (\<lambda>b. if b then Inr (Some i) else back_loop r orig i tree)
      else bindE (range_intersects (key_at tree (Suc i)) r) (\<lambda>b. Inr (if b then Some (Suc i) else None)))"

definition AddrRangeMap_find :: "addr_range \<Rightarrow> 'v range_map \<Rightarrow> nat option res" where
  "AddrRangeMap_find r tree =
     (if tree = [] then Inr None
      else
        (let i = upper_bound r tree in
         if i = 0
         then bindE (range_intersects (key_at tree 0) r) (\<lambda>b. Inr (if b then Some 0 else None))
         else
           (let i = i - 1 in
            bindE (range_intersects (key_at tree i) r) (\<lambda>b.
            if b then Inr (Some i)
            else if interleaved (key_at tree i) then back_loop r (key_at tree i) i tree
            else Inr None))))"

definition AddrRangeMap_find_addr :: "addr \<Rightarrow> 'v range_map \<Rightarrow> nat option res" where
  "AddrRangeMap_find_addr a tree = AddrRangeMap_find (RangeSize a 1) tree"

definition AddrRangeMap_intersect :: "addr_range \<Rightarrow> 'v range_map \<Rightarrow> bool res" where
  "AddrRangeMap_intersect r tree = bindE (AddrRangeMap_find r tree) (\<lambda>o'. Inr (o' \<noteq> None))"

definition AddrRangeMap_insert :: "addr_range \<Rightarrow> 'v \<Rightarrow> 'v range_map \<Rightarrow> (nat option \<times> 'v range_map) res" where
  "AddrRangeMap_insert r d tree =
     bindE (AddrRangeMap_intersect r tree) (\<lambda>b.
     if b then Inr (None, tree)
     else (let (i, tree') = std_insert r d tree in Inr (Some i, tree')))"

definition AddrRangeMap_erase :: "nat \<Rightarrow> 'v range_map \<Rightarrow> 'v range_map res" where
  "AddrRangeMap_erase i tree =
     (if i < length tree then Inr (take i tree @ drop (Suc i) tree) else Inl Undefined)"

definition AddrRangeMap_erase_between :: "nat \<Rightarrow> nat \<Rightarrow> 'v range_map \<Rightarrow> 'v range_map res" where
  "AddrRangeMap_erase_between i j tree =
     (if i \<le> j \<and> j \<le> length tree then Inr (take i tree @ drop j tree) else Inl Undefined)"

definition AddrRangeMap_clear :: "'v range_map \<Rightarrow> 'v range_map" where
  "AddrRangeMap_clear tree = []"

definition AddrRangeMap_size :: "'v range_map \<Rightarrow> nat" where
  "AddrRangeMap_size tree = length tree"

definition AddrRangeMap_empty :: "'v range_map \<Rightarrow> bool" where
  "AddrRangeMap_empty tree \<longleftrightarrow> tree = []"

end
