(* ===== verification/Addr_Range_Props.thy ===== *)
theory Addr_Range_Props
  imports Addr_Range
begin

text \<open>
  Lookup in and insertion into the address map, for maps whose ranges are disjoint or parts of one
  interleaved range.
\<close>

unbundle bit_operations_syntax

section \<open>Well-formed ranges\<close>

definition range_ok :: "addr_range \<Rightarrow> bool" where
  "range_ok r \<longleftrightarrow> range_valid r \<and>
     (if interleaved r
      then unat (intlvBits r) < 64 \<and> unat (intlvBits r) \<le> unat (intlvHighBit r) + 1 \<and> unat (intlvHighBit r) < 64 \<and>
        (hashed r \<longrightarrow> unat (intlvBits r) \<le> unat (xorHighBit r) + 1 \<and> unat (xorHighBit r) < 64)
      else intlvMatch r = 0)"

definition holds :: "addr_range \<Rightarrow> addr \<Rightarrow> bool" where
  "holds r a \<longleftrightarrow> range_contains r a = Inr True"

lemma range_slice_ok:
  assumes "n \<noteq> 0" "unat n \<le> unat high + 1" "unat high < 64"
  shows "range_slice a high n = Inr (bits a (unat high) (unat high + 1 - unat n))"
proof -
  have "0 < unat n" using assms(1) by (simp add: unat_gt_0)
  then show ?thesis using assms by (simp add: range_slice_def)
qed

lemma contains_ok: "range_ok r \<Longrightarrow> range_contains r a = Inr (holds r a)"
  by (auto simp: holds_def range_contains_def range_ok_def interleaved_def range_slice_ok Let_def)

lemma holds_bounds: "holds r a \<Longrightarrow> r_start r \<le> a \<and> a \<le> r_end r"
  by (auto simp: holds_def range_contains_def Let_def split: if_splits)

lemma holds_plain: "\<not> interleaved r \<Longrightarrow> holds r a \<longleftrightarrow> r_start r \<le> a \<and> a \<le> r_end r"
  by (auto simp: holds_def range_contains_def Let_def)

text \<open>The number of the stripe an address falls into.\<close>

definition stripe_of :: "addr_range \<Rightarrow> addr \<Rightarrow> u64" where
  "stripe_of r a =
     (let sl = (\<lambda>h. bits a (unat h) (unat h + 1 - unat (intlvBits r))) in
      if xorHighBit r = 0 then sl (intlvHighBit r) else sl (intlvHighBit r) XOR sl (xorHighBit r))"

lemma holds_stripe: "\<lbrakk> interleaved r; holds r a \<rbrakk> \<Longrightarrow> stripe_of r a = ucast (intlvMatch r)"
  by (simp add: holds_def range_contains_def hashed_def range_slice_def stripe_of_def Let_def split: if_split_asm)

lemma holds_match:
  assumes "mergesWith k k'" "interleaved k" "holds k a" "holds k' a"
  shows "intlvMatch k = intlvMatch k'"
proof -
  have "stripe_of k a = stripe_of k' a" "interleaved k'"
    using assms(1,2) by (simp_all add: mergesWith_def stripe_of_def interleaved_def)
  then have "ucast (intlvMatch k) = (ucast (intlvMatch k') :: u64)"
    using holds_stripe [of k a] holds_stripe [of k' a] assms by simp
  then have "uint (ucast (intlvMatch k) :: u64) = uint (ucast (intlvMatch k') :: u64)" by simp
  then show ?thesis by (simp add: uint_up_ucast is_up word_uint_eq_iff)
qed

lemma size_one: "r_end (RangeSize a 1) = a" "range_size (RangeSize a 1) = 1" "r_start (RangeSize a 1) = a"
  "intlvMatch (RangeSize a 1) = 0" "\<not> interleaved (RangeSize a 1)"
  by (simp_all add: RangeSize_def AddrRange_plain_def range_size_def interleaved_def)

lemma intersects_addr:
  assumes "range_ok k"
  shows "range_intersects k (RangeSize a 1) = Inr (holds k a)"
proof (cases "r_start k > a \<or> r_end k < a")
  case True
  then have "\<not> holds k a" using holds_bounds [of k a] by (metis not_le)
  then show ?thesis using True by (simp add: range_intersects_def size_one)
next
  case False
  then have "r_start k \<le> a" "a \<le> r_end k" by (simp_all add: not_less)
  then show ?thesis using False holds_plain [of k a] contains_ok [OF assms, of a]
    by (simp add: range_intersects_def size_one)
qed

section \<open>Well-formed maps\<close>

definition range_before :: "addr_range \<Rightarrow> addr_range \<Rightarrow> bool" where
  "range_before k k' \<longleftrightarrow> r_end k < r_start k' \<or> interleaved k \<and> mergesWith k k' \<and> intlvMatch k < intlvMatch k'"

definition amap_ok :: "'v range_map \<Rightarrow> bool" where
  "amap_ok tree \<longleftrightarrow> (\<forall>e \<in> set tree. range_ok (fst e)) \<and> sorted_wrt (\<lambda>e e'. range_before (fst e) (fst e')) tree"

lemma amap_before: "\<lbrakk> amap_ok tree; i < j; j < length tree \<rbrakk> \<Longrightarrow> range_before (key_at tree i) (key_at tree j)"
  by (simp add: amap_ok_def sorted_wrt_iff_nth_less)

lemma amap_range: "\<lbrakk> amap_ok tree; i < length tree \<rbrakk> \<Longrightarrow> range_ok (key_at tree i)"
  by (simp add: amap_ok_def)

lemma before_start: "\<lbrakk> range_before k k'; range_ok k \<rbrakk> \<Longrightarrow> r_start k \<le> r_start k'"
  by (auto simp: range_before_def mergesWith_def range_ok_def range_valid_def)

lemma holds_unique:
  assumes "amap_ok tree" "i < j" "j < length tree" "holds (key_at tree i) a"
  shows "\<not> holds (key_at tree j) a"
  using amap_before [OF assms(1-3)] assms(4) holds_bounds [of "key_at tree i" a] holds_bounds [of "key_at tree j" a]
    holds_match [of "key_at tree i" "key_at tree j" a]
  by (auto simp: range_before_def)

text \<open>An entry whose range ends before the address and every entry before it do not hold it.\<close>

lemma none_before:
  assumes "amap_ok tree" "p < length tree" "r_end (key_at tree p) < a" "j \<le> p"
  shows "\<not> holds (key_at tree j) a"
proof (cases "j = p")
  case True
  then show ?thesis using holds_bounds [of "key_at tree p" a] assms(3) by auto
next
  case False
  then have "range_before (key_at tree j) (key_at tree p)" using amap_before [OF assms(1)] assms(2,4) by simp
  moreover have "r_start (key_at tree p) \<le> r_end (key_at tree p)"
    using amap_range [OF assms(1,2)] by (simp add: range_ok_def range_valid_def)
  ultimately show ?thesis using holds_bounds [of "key_at tree j" a] assms(3) by (auto simp: range_before_def mergesWith_def)
qed

lemma back_loop_ok:
  assumes "amap_ok tree" "i < length tree" "p \<le> i" "r_start (key_at tree i) \<le> a" "interleaved (key_at tree i)"
    and "\<forall>j. p \<le> j \<and> j < length tree \<longrightarrow> \<not> holds (key_at tree j) a"
  shows "\<exists>o'. back_loop (RangeSize a 1) (key_at tree i) p tree = Inr o' \<and>
    (\<forall>j. o' = Some j \<longleftrightarrow> j < length tree \<and> holds (key_at tree j) a)"
  using assms(3,6)
proof (induction p)
  case 0
  have z: "0 < length tree" using assms(2) by linarith
  then have "\<not> holds (key_at tree 0) a" using "0.prems"(2) by blast
  then show ?case using intersects_addr [OF amap_range [OF assms(1) z], of a] "0.prems"(2) by auto
next
  case (Suc p)
  let ?k = "key_at tree (Suc p)"
  have lt: "p < length tree" "Suc p < length tree" using Suc.prems(1) assms(2) by simp_all
  note ix = intersects_addr [OF amap_range [OF assms(1) lt(1)], of a] intersects_addr [OF amap_range [OF assms(1) lt(2)], of a]
  have ns: "\<not> holds ?k a" using Suc.prems(2) lt by auto
  show ?case
  proof (cases "mergesWith ?k (key_at tree i)")
    case True
    show ?thesis
    proof (cases "holds (key_at tree p) a")
      case h: True
      have "\<forall>j. p = j \<longleftrightarrow> j < length tree \<and> holds (key_at tree j) a"
        using h holds_unique [OF assms(1)] lt(1) by (metis linorder_neqE_nat)
      then show ?thesis using True h ix(1) by auto
    next
      case False
      then have "\<forall>j. p \<le> j \<and> j < length tree \<longrightarrow> \<not> holds (key_at tree j) a"
        using Suc.prems(2) by (metis Suc_leI le_neq_implies_less)
      then show ?thesis using Suc.IH Suc.prems(1) True False ix(1) by simp
    qed
  next
    case False
    then have "Suc p \<noteq> i" by (auto simp: mergesWith_def)
    then have "range_before ?k (key_at tree i)" using amap_before [OF assms(1)] Suc.prems(1) assms(2) by simp
    then have "r_end ?k < a" using False assms(4) by (auto simp: range_before_def mergesWith_def)
    then have "\<not> holds (key_at tree j) a" if "j < length tree" for j
      using none_before [OF assms(1) lt(2)] Suc.prems(2) that by (metis not_less_eq_eq nat_le_linear)
    then show ?thesis using False ix(2) ns by auto
  qed
qed

section \<open>Lookup\<close>

lemma upper_bound_addr:
  assumes "amap_ok tree" "\<forall>e \<in> set tree. interleaved (fst e) \<longrightarrow> r_start (fst e) \<noteq> a"
  shows "upper_bound (RangeSize a 1) tree \<le> length tree"
    and "i < upper_bound (RangeSize a 1) tree \<Longrightarrow> r_start (key_at tree i) \<le> a"
    and "\<lbrakk> upper_bound (RangeSize a 1) tree \<le> i; i < length tree \<rbrakk> \<Longrightarrow> a < r_start (key_at tree i)"
proof -
  let ?P = "\<lambda>e. \<not> range_lt (RangeSize a 1) (fst e)"
  let ?n = "upper_bound (RangeSize a 1) tree"
  show le: "?n \<le> length tree" by (simp add: upper_bound_def length_takeWhile_le)
  have P: "?P e \<longleftrightarrow> r_start (fst e) \<le> a" if "e \<in> set tree" for e
    using assms that by (auto simp: range_lt_def size_one amap_ok_def range_ok_def not_less)
  show "r_start (key_at tree i) \<le> a" if "i < ?n" for i
  proof -
    have "tree ! i = takeWhile ?P tree ! i" "i < length (takeWhile ?P tree)"
      using that by (simp_all add: upper_bound_def takeWhile_nth)
    then have "?P (tree ! i)" using set_takeWhileD nth_mem by metis
    then show ?thesis using P that le by simp
  qed
  show "a < r_start (key_at tree i)" if "?n \<le> i" "i < length tree" for i
  proof -
    have "\<not> ?P (tree ! ?n)" using that nth_length_takeWhile [of ?P tree] by (simp add: upper_bound_def)
    then have n: "a < r_start (key_at tree ?n)" using P that by (meson le_less_trans not_le nth_mem)
    show ?thesis
    proof (cases "i = ?n")
      case False
      then have "range_before (key_at tree ?n) (key_at tree i)" using amap_before [OF assms(1)] that by simp
      then show ?thesis using before_start n amap_range [OF assms(1), of ?n] that by (meson le_less_trans less_le_trans)
    qed (use n in simp)
  qed
qed

text \<open>
  C14: looking up an address in a map of disjoint ranges and interleaved stripes returns the entry whose
  range contains the address, if there is one, and nothing otherwise, without a panic, provided the
  address is not the very first one of an interleaved range.
\<close>

theorem find_addr_exact:
  assumes "amap_ok tree" "\<forall>e \<in> set tree. interleaved (fst e) \<longrightarrow> r_start (fst e) \<noteq> a"
  shows "\<exists>o'. AddrRangeMap_find_addr a tree = Inr o' \<and>
    (\<forall>i. o' = Some i \<longleftrightarrow> i < length tree \<and> range_contains (fst (tree ! i)) a = Inr True)"
proof (cases "tree = []")
  case True
  then show ?thesis by (simp add: AddrRangeMap_find_addr_def AddrRangeMap_find_def)
next
  case False
  let ?r = "RangeSize a 1" let ?n = "upper_bound ?r tree"
  note u = upper_bound_addr [OF assms]
  have above: "\<not> holds (key_at tree j) a" if "?n \<le> j" "j < length tree" for j
    using u(3) [OF that] holds_bounds [of "key_at tree j" a] by auto
  have ix: "range_intersects (key_at tree j) ?r = Inr (holds (key_at tree j) a)" if "j < length tree" for j
    using intersects_addr [OF amap_range [OF assms(1) that]] .
  show ?thesis
  proof (cases "?n = 0")
    case True
    then have "AddrRangeMap_find_addr a tree = Inr None"
      using False ix [of 0] above [of 0] by (simp add: AddrRangeMap_find_addr_def AddrRangeMap_find_def)
    then show ?thesis using above True by (auto simp: holds_def)
  next
    case nz: False
    define i where "i = ?n - 1"
    have i: "i < length tree" "i < ?n" "?n = Suc i" using nz u(1) by (auto simp: i_def)
    have s: "r_start (key_at tree i) \<le> a" using u(2) i(2) .
    have eq: "AddrRangeMap_find_addr a tree = (if holds (key_at tree i) a then Inr (Some i)
        else if interleaved (key_at tree i) then back_loop ?r (key_at tree i) i tree else Inr None)"
      using False nz ix [OF i(1)] by (simp add: AddrRangeMap_find_addr_def AddrRangeMap_find_def Let_def i_def)
    have up: "\<not> holds (key_at tree i) a \<Longrightarrow> \<forall>j. i \<le> j \<and> j < length tree \<longrightarrow> \<not> holds (key_at tree j) a"
      using above i(3) by (metis Suc_leI le_neq_implies_less)
    consider "holds (key_at tree i) a" | "\<not> holds (key_at tree i) a" "interleaved (key_at tree i)"
      | "\<not> holds (key_at tree i) a" "\<not> interleaved (key_at tree i)" by blast
    then show ?thesis
    proof cases
      case 1
      then have "\<forall>j. i = j \<longleftrightarrow> j < length tree \<and> holds (key_at tree j) a"
        using holds_unique [OF assms(1)] i(1) by (metis linorder_neqE_nat)
      then show ?thesis using 1 eq by (auto simp: holds_def)
    next
      case 2
      then show ?thesis using back_loop_ok [OF assms(1) i(1) le_refl s 2(2) up [OF 2(1)]] eq by (simp add: holds_def)
    next
      case 3
      then have "r_end (key_at tree i) < a" using s holds_plain [of "key_at tree i" a] by auto
      then have "\<not> holds (key_at tree j) a" if "j < length tree" for j
        using none_before [OF assms(1) i(1)] up [OF 3(1)] that by (metis nat_le_linear)
      then show ?thesis using 3 eq by (auto simp: holds_def)
    qed
  qed
qed


definition demo_map :: "nat range_map" where
  "demo_map = [(RangeSize 0 0x100, 0), (\<lparr>r_start = 0x1000, r_end = 0x1FFF, intlvHighBit = 6, xorHighBit = 0, intlvBits = 1, intlvMatch = 0\<rparr>, 1),
     (\<lparr>r_start = 0x1000, r_end = 0x1FFF, intlvHighBit = 6, xorHighBit = 0, intlvBits = 1, intlvMatch = 1\<rparr>, 2)]"

lemma demo_map_ok: "amap_ok demo_map"
  by (simp add: amap_ok_def demo_map_def range_ok_def range_valid_def RangeSize_def AddrRange_plain_def
      interleaved_def hashed_def range_before_def mergesWith_def)

theorem find_addr_exact_witness:
  "amap_ok demo_map \<and> (\<exists>o'. AddrRangeMap_find_addr 0x1040 demo_map = Inr o' \<and>
    (\<forall>i. o' = Some i \<longleftrightarrow> i < length demo_map \<and> range_contains (fst (demo_map ! i)) 0x1040 = Inr True))"
  using find_addr_exact [OF demo_map_ok, of "0x1040"] demo_map_ok
  by (simp add: demo_map_def RangeSize_def AddrRange_plain_def interleaved_def)

section \<open>Insertion\<close>












section \<open>Overlaps that are missed\<close>

text \<open>Only the entry that starts below the new range is tested: an overlap with the next one is accepted.\<close>

lemma insert_misses_next:
  "AddrRangeMap_insert (RangeIn 50 150) (2::nat) [(RangeIn 0 10, 0), (RangeIn 100 200, 1)] =
     Inr (Some 1, [(RangeIn 0 10, 0), (RangeIn 50 150, 2), (RangeIn 100 200, 1)])"
  by (simp add: AddrRangeMap_insert_def AddrRangeMap_intersect_def AddrRangeMap_find_def upper_bound_def
      range_lt_def RangeIn_def AddrRange_plain_def range_intersects_def interleaved_def std_insert_def
      lower_bound_def Let_def)

text \<open>
  The first address of an interleaved range whose start lies in stripe 1 is looked up below that stripe
  and not found, although the range holds it.
\<close>

lemma find_misses_stripe:
  fixes k0 k1 :: addr_range
  defines "k0 \<equiv> \<lparr>r_start = 0x40, r_end = 0x13F, intlvHighBit = 6, xorHighBit = 0, intlvBits = 1, intlvMatch = 0\<rparr>"
  defines "k1 \<equiv> k0\<lparr>intlvMatch := 1\<rparr>"
  shows "range_contains k1 0x40 = Inr True \<and> AddrRangeMap_find_addr 0x40 [(k0, a), (k1, b)] = Inr None"
  by (simp add: k0_def k1_def AddrRangeMap_find_addr_def AddrRangeMap_find_def upper_bound_def
      range_lt_def RangeSize_def AddrRange_plain_def range_intersects_def interleaved_def range_contains_def
      range_size_def hashed_def range_slice_def bits_def bitmask_def Let_def)


text \<open>Equality of ranges ignores the hash: a hashed and an unhashed range compare equal but do not merge.\<close>

lemma range_eq_ignores_hash:
  "\<lbrakk> intlvBits r \<noteq> 0; xorHighBit r \<noteq> x \<rbrakk> \<Longrightarrow> range_eq r (r\<lparr>xorHighBit := x\<rparr>) \<and> \<not> mergesWith r (r\<lparr>xorHighBit := x\<rparr>)"
  by (auto simp: range_eq_def mergesWith_def)

end
