(* ===== verification/Page_Table.thy ===== *)
theory Page_Table
  imports Int_Math
begin

text \<open>
  The page table of a simulated process, \<open>mem/page_table.hh\<close> and \<open>mem/page_table.cc\<close>: a hash map from
  page addresses to entries, with the last three entries used in a small cache in front of it. The
  entries belong to the simulated instruction set; what the table uses of them is the record
  \<open>tlb_isa\<close>, given here for MIPS and Power. Writing a checkpoint is output only; reading one takes the
  entries read as an argument.
\<close>

unbundle bit_operations_syntax

section \<open>Entries\<close>

text \<open>
  The constructor from address space, virtual and physical address and the two permissions, the entry
  of the default constructor, the physical address, and the change of the virtual address.
\<close>

record 'e tlb_isa =
  tlb_new :: "u64 \<Rightarrow> addr \<Rightarrow> addr \<Rightarrow> bool \<Rightarrow> bool \<Rightarrow> 'e"
  tlb_none :: 'e
  tlb_pageStart :: "'e \<Rightarrow> addr"
  tlb_updateVaddr :: "addr \<Rightarrow> 'e \<Rightarrow> 'e res"

text \<open>Both entries hold the physical address only; the default constructor leaves it as it was.\<close>

record tlb_entry =
  entry_pageStart :: addr

definition TlbEntry_new :: "u64 \<Rightarrow> addr \<Rightarrow> addr \<Rightarrow> bool \<Rightarrow> bool \<Rightarrow> tlb_entry" where
  "TlbEntry_new asn vaddr paddr uncacheable read_only = \<lparr>entry_pageStart = paddr\<rparr>"

definition mips_updateVaddr :: "addr \<Rightarrow> tlb_entry \<Rightarrow> tlb_entry res" where
  "mips_updateVaddr new_vaddr e = Inr e"

definition power_updateVaddr :: "addr \<Rightarrow> tlb_entry \<Rightarrow> tlb_entry res" where
  "power_updateVaddr new_vaddr e = Inl Panic"

definition mips_tlb :: "addr \<Rightarrow> tlb_entry tlb_isa" where
  "mips_tlb junk = \<lparr>tlb_new = TlbEntry_new, tlb_none = \<lparr>entry_pageStart = junk\<rparr>,
     tlb_pageStart = entry_pageStart, tlb_updateVaddr = mips_updateVaddr\<rparr>"

definition power_tlb :: "addr \<Rightarrow> tlb_entry tlb_isa" where
  "power_tlb junk = \<lparr>tlb_new = TlbEntry_new, tlb_none = \<lparr>entry_pageStart = junk\<rparr>,
     tlb_pageStart = entry_pageStart, tlb_updateVaddr = power_updateVaddr\<rparr>"

section \<open>The table\<close>

record 'e cacheElement =
  ce_valid :: bool
  ce_vaddr :: addr
  ce_entry :: 'e

record 'e page_table =
  pTableCache :: "'e cacheElement \<times> 'e cacheElement \<times> 'e cacheElement"
  pageSize :: addr
  offsetMask :: addr
  pt_pid :: u64
  pTable :: "addr \<rightharpoonup> 'e"

text \<open>Only the validity of the cache is initialised; \<open>c\<close> stands for the memory it is built in.\<close>

definition PageTable_new ::
  "'e cacheElement \<times> 'e cacheElement \<times> 'e cacheElement \<Rightarrow> u64 \<Rightarrow> addr \<Rightarrow> 'e page_table res" where
  "PageTable_new c p ps =
     bindE (floorLog2 ps) (\<lambda>k.
     bindE (assertE (isPowerOf2 ps)) (\<lambda>_.
     (case c of (c0, c1, c2) \<Rightarrow>
        Inr \<lparr>pTableCache = (c0\<lparr>ce_valid := False\<rparr>, c1\<lparr>ce_valid := False\<rparr>, c2\<lparr>ce_valid := False\<rparr>),
          pageSize = ps, offsetMask = bitmask (nat k), pt_pid = p, pTable = Map.empty\<rparr>)))"

definition pt_Clobber :: u64 where "pt_Clobber = 1"

definition pt_Uncacheable :: u64 where "pt_Uncacheable = 4"

definition pt_ReadOnly :: u64 where "pt_ReadOnly = 8"

definition pageAlign :: "'e page_table \<Rightarrow> addr \<Rightarrow> addr" where
  "pageAlign s a = a AND NOT (offsetMask s)"

definition pageOffset :: "'e page_table \<Rightarrow> addr \<Rightarrow> addr" where
  "pageOffset s a = a AND offsetMask s"

definition updateCache :: "addr \<Rightarrow> 'e \<Rightarrow> 'e page_table \<Rightarrow> 'e page_table" where
  "updateCache vaddr e s =
     (case pTableCache s of (c0, c1, c2) \<Rightarrow>
        s\<lparr>pTableCache := (\<lparr>ce_valid = True, ce_vaddr = vaddr, ce_entry = e\<rparr>, c0, c1)\<rparr>)"

definition ce_hit :: "'e cacheElement \<Rightarrow> addr \<Rightarrow> bool" where
  "ce_hit c vaddr \<longleftrightarrow> ce_valid c \<and> ce_vaddr c = vaddr"

definition eraseCacheEntry :: "addr \<Rightarrow> 'e page_table \<Rightarrow> 'e page_table" where
  "eraseCacheEntry vaddr s =
     (case pTableCache s of (c0, c1, c2) \<Rightarrow>
        if ce_hit c0 vaddr then s\<lparr>pTableCache := (c0\<lparr>ce_valid := False\<rparr>, c1, c2)\<rparr>
        else if ce_hit c1 vaddr then s\<lparr>pTableCache := (c0, c1\<lparr>ce_valid := False\<rparr>, c2)\<rparr>
        else if ce_hit c2 vaddr then s\<lparr>pTableCache := (c0, c1, c2\<lparr>ce_valid := False\<rparr>)\<rparr>
        else s)"

text \<open>
  \<open>for (; size > 0; size -= pageSize, v += pageSize, x += pageSize)\<close>, with a signed 64-bit size. The
  pages are at least one byte long, so \<open>size + 1\<close> rounds are always enough.
\<close>

fun page_loop ::
  "nat \<Rightarrow> addr \<Rightarrow> (addr \<Rightarrow> addr \<Rightarrow> 's \<Rightarrow> 's res) \<Rightarrow> u64 \<Rightarrow> addr \<Rightarrow> addr \<Rightarrow> 's \<Rightarrow> 's res" where
  "page_loop 0 ps f sz v x s = Inl Diverges"
| "page_loop (Suc n) ps f sz v x s =
     (if sint sz > 0 then bindE (f v x s) (page_loop n ps f (sz - ps) (v + ps) (x + ps)) else Inr s)"

definition page_rounds :: "u64 \<Rightarrow> nat" where
  "page_rounds sz = Suc (unat sz)"

definition map_page :: "'e tlb_isa \<Rightarrow> u64 \<Rightarrow> addr \<Rightarrow> addr \<Rightarrow> 'e page_table \<Rightarrow> 'e page_table res" where
  "map_page isa flags vaddr paddr s =
     (if flags AND pt_Clobber = 0 \<and> pTable s vaddr \<noteq> None then Inl Fatal
      else
        (let e = tlb_new isa (pt_pid s) vaddr paddr (flags AND pt_Uncacheable \<noteq> 0) (flags AND pt_ReadOnly \<noteq> 0);
             s = s\<lparr>pTable := (pTable s)(vaddr \<mapsto> e)\<rparr>;
             s = eraseCacheEntry vaddr s
         in Inr (updateCache vaddr e s)))"

definition pt_map :: "'e tlb_isa \<Rightarrow> addr \<Rightarrow> addr \<Rightarrow> u64 \<Rightarrow> u64 \<Rightarrow> 'e page_table \<Rightarrow> 'e page_table res" where
  "pt_map isa vaddr paddr sz flags s =
     bindE (assertE (pageOffset s vaddr = 0)) (\<lambda>_.
     page_loop (page_rounds sz) (pageSize s) (map_page isa flags) sz vaddr paddr s)"

text \<open>\<open>pTable[new_vaddr]\<close> creates a default entry where the table has none.\<close>

definition remap_page :: "'e tlb_isa \<Rightarrow> addr \<Rightarrow> addr \<Rightarrow> 'e page_table \<Rightarrow> 'e page_table res" where
  "remap_page isa vaddr new_vaddr s =
     (case pTable s vaddr of
        None \<Rightarrow> Inl Assert_Failed
      | Some e \<Rightarrow>
          (let s = s\<lparr>pTable := (pTable s)(new_vaddr \<mapsto> e)\<rparr>;
               s = s\<lparr>pTable := (pTable s)(vaddr := None)\<rparr>;
               s = eraseCacheEntry vaddr s;
               e = (case pTable s new_vaddr of Some e \<Rightarrow> e | None \<Rightarrow> tlb_none isa)
           in bindE (tlb_updateVaddr isa new_vaddr e) (\<lambda>e.
              Inr (updateCache new_vaddr e (s\<lparr>pTable := (pTable s)(new_vaddr \<mapsto> e)\<rparr>)))))"

definition pt_remap :: "'e tlb_isa \<Rightarrow> addr \<Rightarrow> u64 \<Rightarrow> addr \<Rightarrow> 'e page_table \<Rightarrow> 'e page_table res" where
  "pt_remap isa vaddr sz new_vaddr s =
     bindE (assertE (pageOffset s vaddr = 0)) (\<lambda>_.
     bindE (assertE (pageOffset s new_vaddr = 0)) (\<lambda>_.
     page_loop (page_rounds sz) (pageSize s) (remap_page isa) sz vaddr new_vaddr s))"

definition unmap_page :: "addr \<Rightarrow> addr \<Rightarrow> 'e page_table \<Rightarrow> 'e page_table res" where
  "unmap_page vaddr x s =
     (if pTable s vaddr = None then Inl Assert_Failed
      else Inr (eraseCacheEntry vaddr (s\<lparr>pTable := (pTable s)(vaddr := None)\<rparr>)))"

definition pt_unmap :: "addr \<Rightarrow> u64 \<Rightarrow> 'e page_table \<Rightarrow> 'e page_table res" where
  "pt_unmap vaddr sz s =
     bindE (assertE (pageOffset s vaddr = 0)) (\<lambda>_.
     page_loop (page_rounds sz) (pageSize s) unmap_page sz vaddr 0 s)"

fun isUnmapped_loop :: "nat \<Rightarrow> addr \<Rightarrow> (addr \<rightharpoonup> 'e) \<Rightarrow> u64 \<Rightarrow> addr \<Rightarrow> bool res" where
  "isUnmapped_loop 0 ps m sz v = Inl Diverges"
| "isUnmapped_loop (Suc n) ps m sz v =
     (if sint sz > 0
      then if m v \<noteq> None then Inr False else isUnmapped_loop n ps m (sz - ps) (v + ps)
      else Inr True)"

definition isUnmapped :: "addr \<Rightarrow> u64 \<Rightarrow> 'e page_table \<Rightarrow> bool res" where
  "isUnmapped vaddr sz s =
     bindE (assertE (pageOffset s vaddr = 0)) (\<lambda>_.
     isUnmapped_loop (page_rounds sz) (pageSize s) (pTable s) sz vaddr)"

definition pt_lookup :: "addr \<Rightarrow> 'e page_table \<Rightarrow> 'e option \<times> 'e page_table" where
  "pt_lookup vaddr s =
     (let page_addr = pageAlign s vaddr in
      case pTableCache s of (c0, c1, c2) \<Rightarrow>
        if ce_hit c0 page_addr then (Some (ce_entry c0), s)
        else if ce_hit c1 page_addr then (Some (ce_entry c1), s)
        else if ce_hit c2 page_addr then (Some (ce_entry c2), s)
        else (case pTable s page_addr of
                None \<Rightarrow> (None, s)
              | Some e \<Rightarrow> (Some e, updateCache page_addr e s)))"

definition pt_translate :: "'e tlb_isa \<Rightarrow> addr \<Rightarrow> 'e page_table \<Rightarrow> addr option \<times> 'e page_table" where
  "pt_translate isa vaddr s =
     (case pt_lookup vaddr s of
        (None, s) \<Rightarrow> (None, s)
      | (Some e, s) \<Rightarrow> (Some (pageOffset s vaddr + tlb_pageStart isa e), s))"

text \<open>A page fault is \<open>None\<close>; otherwise the physical address set in the request.\<close>

definition pt_translate_req ::
  "'e tlb_isa \<Rightarrow> addr \<Rightarrow> u32 \<Rightarrow> 'e page_table \<Rightarrow> (addr option \<times> 'e page_table) res" where
  "pt_translate_req isa vaddr sz s =
     bindE (assertE (pageAlign s (vaddr + ucast sz - 1) = pageAlign s vaddr)) (\<lambda>_.
     (case pt_translate isa vaddr s of
        (None, s) \<Rightarrow> Inr (None, s)
      | (Some paddr, s) \<Rightarrow>
          if (paddr AND (pageSize s - 1)) + ucast sz > pageSize s then Inl Panic else Inr (Some paddr, s)))"

definition pt_unserialize :: "(addr \<times> 'e) list \<Rightarrow> 'e page_table \<Rightarrow> 'e page_table" where
  "pt_unserialize entries s = foldl (\<lambda>s (v, e). s\<lparr>pTable := (pTable s)(v \<mapsto> e)\<rparr>) (s\<lparr>pTable := Map.empty\<rparr>) entries"

end
