(* ===== verification/Page_Table_Props.thy ===== *)
theory Page_Table_Props
  imports Page_Table
begin

text \<open>
  The page table with its cache refines a plain map from pages to entries, mapped regions translate as
  mapped, and two ways in which stale entries survive.
\<close>

unbundle bit_operations_syntax

section \<open>The plain map\<close>

text \<open>
  The same operations on the map alone. Moving a page onto one that is mapped is outside the contract
  of the cache and is \<open>Undefined\<close> here.
\<close>

record pt_consts =
  pc_size :: addr
  pc_mask :: addr
  pc_pid :: u64

definition map_page_spec :: "pt_consts \<Rightarrow> 'e tlb_isa \<Rightarrow> u64 \<Rightarrow> addr \<Rightarrow> addr \<Rightarrow> (addr \<rightharpoonup> 'e) \<Rightarrow> (addr \<rightharpoonup> 'e) res" where
  "map_page_spec c isa flags v p m =
     (if flags AND pt_Clobber = 0 \<and> m v \<noteq> None then Inl Fatal
      else Inr (m(v \<mapsto> tlb_new isa (pc_pid c) v p (flags AND pt_Uncacheable \<noteq> 0) (flags AND pt_ReadOnly \<noteq> 0))))"

definition remap_page_spec :: "'e tlb_isa \<Rightarrow> addr \<Rightarrow> addr \<Rightarrow> (addr \<rightharpoonup> 'e) \<Rightarrow> (addr \<rightharpoonup> 'e) res" where
  "remap_page_spec isa v nv m =
     (case m v of
        None \<Rightarrow> Inl Assert_Failed
      | Some e \<Rightarrow> if m nv \<noteq> None then Inl Undefined
                  else bindE (tlb_updateVaddr isa nv e) (\<lambda>e. Inr (m(v := None, nv \<mapsto> e))))"

definition unmap_page_spec :: "addr \<Rightarrow> addr \<Rightarrow> (addr \<rightharpoonup> 'e) \<Rightarrow> (addr \<rightharpoonup> 'e) res" where
  "unmap_page_spec v x m = (if m v = None then Inl Assert_Failed else Inr (m(v := None)))"

datatype pt_op = PMap addr addr u64 u64 | PRemap addr u64 addr | PUnmap addr u64 | PIsUnmapped addr u64
  | PLookup addr | PTranslate addr | PTranslateReq addr u32

datatype 'e pt_out = ODone | OBool bool | OEntry "'e option" | OAddr "addr option"

definition spec_translate :: "pt_consts \<Rightarrow> 'e tlb_isa \<Rightarrow> addr \<Rightarrow> (addr \<rightharpoonup> 'e) \<Rightarrow> addr option" where
  "spec_translate c isa v m = map_option (\<lambda>e. (v AND pc_mask c) + tlb_pageStart isa e) (m (v AND NOT (pc_mask c)))"

fun spec_exec :: "pt_consts \<Rightarrow> 'e tlb_isa \<Rightarrow> pt_op \<Rightarrow> (addr \<rightharpoonup> 'e) \<Rightarrow> ('e pt_out \<times> (addr \<rightharpoonup> 'e)) res" where
  "spec_exec c isa (PMap v p sz flags) m =
     bindE (assertE (v AND pc_mask c = 0)) (\<lambda>_.
     bindE (page_loop (page_rounds sz) (pc_size c) (map_page_spec c isa flags) sz v p m) (\<lambda>m. Inr (ODone, m)))"
| "spec_exec c isa (PRemap v sz nv) m =
     bindE (assertE (v AND pc_mask c = 0)) (\<lambda>_.
     bindE (assertE (nv AND pc_mask c = 0)) (\<lambda>_.
     bindE (page_loop (page_rounds sz) (pc_size c) (remap_page_spec isa) sz v nv m) (\<lambda>m. Inr (ODone, m))))"
| "spec_exec c isa (PUnmap v sz) m =
     bindE (assertE (v AND pc_mask c = 0)) (\<lambda>_.
     bindE (page_loop (page_rounds sz) (pc_size c) unmap_page_spec sz v 0 m) (\<lambda>m. Inr (ODone, m)))"
| "spec_exec c isa (PIsUnmapped v sz) m =
     bindE (assertE (v AND pc_mask c = 0)) (\<lambda>_.
     bindE (isUnmapped_loop (page_rounds sz) (pc_size c) m sz v) (\<lambda>b. Inr (OBool b, m)))"
| "spec_exec c isa (PLookup v) m = Inr (OEntry (m (v AND NOT (pc_mask c))), m)"
| "spec_exec c isa (PTranslate v) m = Inr (OAddr (spec_translate c isa v m), m)"
| "spec_exec c isa (PTranslateReq v sz) m =
     bindE (assertE ((v + ucast sz - 1) AND NOT (pc_mask c) = v AND NOT (pc_mask c))) (\<lambda>_.
     (case spec_translate c isa v m of
        None \<Rightarrow> Inr (OAddr None, m)
      | Some p \<Rightarrow> if (p AND (pc_size c - 1)) + ucast sz > pc_size c then Inl Panic else Inr (OAddr (Some p), m)))"

fun pt_exec :: "'e tlb_isa \<Rightarrow> pt_op \<Rightarrow> 'e page_table \<Rightarrow> ('e pt_out \<times> 'e page_table) res" where
  "pt_exec isa (PMap v p sz flags) s = bindE (pt_map isa v p sz flags s) (\<lambda>s. Inr (ODone, s))"
| "pt_exec isa (PRemap v sz nv) s = bindE (pt_remap isa v sz nv s) (\<lambda>s. Inr (ODone, s))"
| "pt_exec isa (PUnmap v sz) s = bindE (pt_unmap v sz s) (\<lambda>s. Inr (ODone, s))"
| "pt_exec isa (PIsUnmapped v sz) s = bindE (isUnmapped v sz s) (\<lambda>b. Inr (OBool b, s))"
| "pt_exec isa (PLookup v) s = (case pt_lookup v s of (r, s) \<Rightarrow> Inr (OEntry r, s))"
| "pt_exec isa (PTranslate v) s = (case pt_translate isa v s of (r, s) \<Rightarrow> Inr (OAddr r, s))"
| "pt_exec isa (PTranslateReq v sz) s = bindE (pt_translate_req isa v sz s) (\<lambda>(r, s). Inr (OAddr r, s))"

text \<open>A run of operations with the list of their results.\<close>

fun run_ops :: "('o \<Rightarrow> 's \<Rightarrow> ('r \<times> 's) res) \<Rightarrow> 'o list \<Rightarrow> 's \<Rightarrow> ('r list \<times> 's) res" where
  "run_ops f [] s = Inr ([], s)"
| "run_ops f (x # xs) s = bindE (f x s) (\<lambda>(r, s). bindE (run_ops f xs s) (\<lambda>(rs, s). Inr (r # rs, s)))"

section \<open>Coherence of the cache\<close>

definition pt_coherent :: "'e page_table \<Rightarrow> bool" where
  "pt_coherent s \<longleftrightarrow>
     (case pTableCache s of (c0, c1, c2) \<Rightarrow>
        (\<forall>c \<in> {c0, c1, c2}. ce_valid c \<longrightarrow> pTable s (ce_vaddr c) = Some (ce_entry c)) \<and>
        (ce_valid c0 \<and> ce_valid c1 \<longrightarrow> ce_vaddr c0 \<noteq> ce_vaddr c1) \<and>
        (ce_valid c0 \<and> ce_valid c2 \<longrightarrow> ce_vaddr c0 \<noteq> ce_vaddr c2) \<and>
        (ce_valid c1 \<and> ce_valid c2 \<longrightarrow> ce_vaddr c1 \<noteq> ce_vaddr c2))"

definition pt_rel :: "pt_consts \<Rightarrow> 'e page_table \<Rightarrow> (addr \<rightharpoonup> 'e) \<Rightarrow> bool" where
  "pt_rel c s m \<longleftrightarrow> pTable s = m \<and> pt_coherent s \<and> pageSize s = pc_size c \<and> offsetMask s = pc_mask c \<and> pt_pid s = pc_pid c"

text \<open>The results of the table and of the map correspond: the same error, or related values.\<close>

definition res_sim :: "('a \<Rightarrow> 'b \<Rightarrow> bool) \<Rightarrow> 'a res \<Rightarrow> 'b res \<Rightarrow> bool" where
  "res_sim R x y \<longleftrightarrow> y = Inl Undefined \<or>
     (case (x, y) of (Inl e, Inl e') \<Rightarrow> e = e' | (Inr a, Inr b) \<Rightarrow> R a b | _ \<Rightarrow> False)"

lemma res_sim_simps [simp]:
  "res_sim R (Inr a) (Inr b) = R a b" "res_sim R (Inl e) (Inl e)" "res_sim R x (Inl Undefined)"
  by (simp_all add: res_sim_def)

lemma res_sim_bind:
  assumes "res_sim R x y" "\<And>a b. R a b \<Longrightarrow> res_sim Q (f a) (g b)"
  shows "res_sim Q (bindE x f) (bindE y g)"
  using assms by (cases x; cases y) (auto simp: res_sim_def)

lemma page_loop_sim:
  assumes "\<And>v x s m. R s m \<Longrightarrow> res_sim R (f v x s) (g v x m)" and "R s m"
  shows "res_sim R (page_loop n ps f sz v x s) (page_loop n ps g sz v x m)"
  using assms(2)
proof (induction n arbitrary: sz v x s m)
  case (Suc n)
  then show ?case using res_sim_bind [OF assms(1) [OF Suc.prems] Suc.IH] by simp
qed simp

lemma run_ops_sim:
  assumes "\<And>x s m. R s m \<Longrightarrow> res_sim (\<lambda>(r, s) (r', m). r = r' \<and> R s m) (f x s) (g x m)" and "R s m"
  shows "res_sim (\<lambda>(r, s) (r', m). r = r' \<and> R s m) (run_ops f xs s) (run_ops g xs m)"
  using assms(2)
proof (induction xs arbitrary: s m)
  case (Cons x xs)
  show ?case
    by (simp, rule res_sim_bind [OF assms(1) [OF Cons.prems]])
       (auto intro!: res_sim_bind [OF Cons.IH] split: prod.splits)
qed simp

lemma coherent_uncached:
  "\<lbrakk> pt_coherent s; pTable s v = None; pTableCache s = (c0, c1, c2) \<rbrakk> \<Longrightarrow> \<not> ce_hit c0 v \<and> \<not> ce_hit c1 v \<and> \<not> ce_hit c2 v"
  by (auto simp: pt_coherent_def ce_hit_def)

text \<open>Erasing the cached entry of a page frees the table to change at that page.\<close>

lemma coherent_erase:
  "pt_coherent s \<Longrightarrow> pt_coherent (eraseCacheEntry v (s\<lparr>pTable := (pTable s)(v := x)\<rparr>))"
  by (auto simp: pt_coherent_def eraseCacheEntry_def ce_hit_def split: prod.splits)

lemma erase_uncached:
  assumes "pt_coherent s" "pTableCache (eraseCacheEntry v (s\<lparr>pTable := m\<rparr>)) = (c0, c1, c2)"
  shows "\<not> ce_hit c0 v \<and> \<not> ce_hit c1 v \<and> \<not> ce_hit c2 v"
  using assms by (auto simp: pt_coherent_def eraseCacheEntry_def ce_hit_def split: prod.splits if_splits)

lemma coherent_update:
  assumes "pt_coherent s" "pTable s v = Some e"
    and "\<And>c0 c1 c2. pTableCache s = (c0, c1, c2) \<Longrightarrow> \<not> ce_hit c0 v \<and> \<not> ce_hit c1 v \<and> \<not> ce_hit c2 v"
  shows "pt_coherent (updateCache v e s)"
  using assms by (auto simp: pt_coherent_def updateCache_def ce_hit_def split: prod.splits)

lemma erase_consts [simp]:
  "pTable (eraseCacheEntry v s) = pTable s" "pageSize (eraseCacheEntry v s) = pageSize s"
  "offsetMask (eraseCacheEntry v s) = offsetMask s" "pt_pid (eraseCacheEntry v s) = pt_pid s"
  by (simp_all add: eraseCacheEntry_def split: prod.split)

lemma update_consts [simp]:
  "pTable (updateCache v e s) = pTable s" "pageSize (updateCache v e s) = pageSize s"
  "offsetMask (updateCache v e s) = offsetMask s" "pt_pid (updateCache v e s) = pt_pid s"
  by (simp_all add: updateCache_def split: prod.split)


lemma map_page_sim: "pt_rel c s m \<Longrightarrow> res_sim (pt_rel c) (map_page isa flags v p s) (map_page_spec c isa flags v p m)"
  by (auto simp: pt_rel_def map_page_def map_page_spec_def Let_def intro!: coherent_update coherent_erase
      dest: erase_uncached)

lemma unmap_page_sim: "pt_rel c s m \<Longrightarrow> res_sim (pt_rel c) (unmap_page v x s) (unmap_page_spec v x m)"
  by (auto simp: pt_rel_def unmap_page_def unmap_page_spec_def intro!: coherent_erase)

lemma coherent_fresh:
  assumes "pt_coherent s" "pTable s nv = None"
  shows "pt_coherent (s\<lparr>pTable := (pTable s)(nv \<mapsto> e)\<rparr>)"
  using assms by (auto simp: pt_coherent_def split: prod.splits)

lemma update_fresh:
  assumes "pt_coherent s" "pTable s nv = None"
  shows "pt_coherent (updateCache nv e (s\<lparr>pTable := (pTable s)(nv \<mapsto> e)\<rparr>))"
  using assms coherent_uncached [OF assms] by (intro coherent_update coherent_fresh) auto

lemma remap_page_sim:
  assumes "pt_rel c s m"
  shows "res_sim (pt_rel c) (remap_page isa v nv s) (remap_page_spec isa v nv m)"
proof (cases "m v = None \<or> m nv \<noteq> None")
  case True
  then show ?thesis using assms by (auto simp: pt_rel_def remap_page_def remap_page_spec_def split: option.split)
next
  case False
  then obtain e where "m v = Some e" "m nv = None" by auto
  then have e: "m v = Some e" "m nv = None" "nv \<noteq> v" by auto
  let ?s = "eraseCacheEntry v (s\<lparr>pTable := (pTable s)(v := None)\<rparr>)"
  have s: "pTable s = m" "pt_coherent s" using assms by (simp_all add: pt_rel_def)
  have sim: "pt_rel c (updateCache nv e' (?s\<lparr>pTable := (pTable ?s)(nv \<mapsto> e')\<rparr>)) (m(v := None, nv \<mapsto> e'))" for e'
    using assms e s update_fresh [of ?s nv e'] coherent_erase [OF s(2), of v None] by (simp add: pt_rel_def)
  have "remap_page isa v nv s = bindE (tlb_updateVaddr isa nv e)
      (\<lambda>e. Inr (updateCache nv e (?s\<lparr>pTable := (pTable ?s)(nv \<mapsto> e)\<rparr>)))"
    using e s by (auto simp: remap_page_def eraseCacheEntry_def updateCache_def Let_def fun_upd_twist [of nv v]
        split: prod.split intro!: bindE_cong)
  then show ?thesis using e sim by (cases "tlb_updateVaddr isa nv e") (simp_all add: remap_page_spec_def)
qed

lemma lookup_sim:
  assumes "pt_rel c s m"
  shows "fst (pt_lookup v s) = m (v AND NOT (pc_mask c))" and "pt_rel c (snd (pt_lookup v s)) m"
proof -
  obtain c0 c1 c2 where c: "pTableCache s = (c0, c1, c2)" by (cases "pTableCache s")
  let ?p = "v AND NOT (pc_mask c)"
  have hit: "ce_hit x ?p \<Longrightarrow> m ?p = Some (ce_entry x)" if "x = c0 \<or> x = c1 \<or> x = c2" for x
    using assms c that by (auto simp: pt_rel_def pt_coherent_def ce_hit_def)
  have al: "pageAlign s v = ?p" and m: "pTable s = m" using assms by (simp_all add: pt_rel_def pageAlign_def)
  show "fst (pt_lookup v s) = m ?p"
    using hit [of c0] hit [of c1] hit [of c2] by (simp add: pt_lookup_def Let_def c al m split: option.split)
  have up: "pt_rel c (updateCache ?p e s) m"
    if "m ?p = Some e" "\<not> ce_hit c0 ?p" "\<not> ce_hit c1 ?p" "\<not> ce_hit c2 ?p" for e
    using coherent_update [of s ?p e] assms that by (simp add: pt_rel_def c)
  show "pt_rel c (snd (pt_lookup v s)) m"
    using assms up by (simp add: pt_lookup_def Let_def c al m split: option.split)
qed

lemma translate_sim:
  assumes "pt_rel c s m"
  shows "fst (pt_translate isa v s) = spec_translate c isa v m" and "pt_rel c (snd (pt_translate isa v s)) m"
proof -
  obtain r s' where l: "pt_lookup v s = (r, s')" by (cases "pt_lookup v s")
  have r: "m (v AND NOT (pc_mask c)) = r" "pt_rel c s' m" using lookup_sim [OF assms, of v] by (simp_all add: l)
  then have "offsetMask s' = pc_mask c" by (simp add: pt_rel_def)
  then show "fst (pt_translate isa v s) = spec_translate c isa v m" "pt_rel c (snd (pt_translate isa v s)) m"
    using r by (simp_all add: pt_translate_def l spec_translate_def pageOffset_def split: option.split)
qed

lemma translate_req_sim:
  assumes "pt_rel c s m"
  shows "res_sim (\<lambda>(r, s) (r', m). r = r' \<and> pt_rel c s m) (pt_exec isa (PTranslateReq v sz) s) (spec_exec c isa (PTranslateReq v sz) m)"
proof -
  obtain r s' where t: "pt_translate isa v s = (r, s')" by (cases "pt_translate isa v s")
  have s': "spec_translate c isa v m = r" "pt_rel c s' m" using translate_sim [OF assms, of isa v] by (simp_all add: t)
  have c: "offsetMask s = pc_mask c" "pageSize s' = pc_size c" using assms s'(2) by (simp_all add: pt_rel_def)
  show ?thesis using s'
    by (cases r) (simp_all add: pt_translate_req_def t c pageAlign_def assertE_def)
qed

lemma pt_exec_sim:
  fixes s :: "'e page_table"
  assumes "pt_rel c s m"
  shows "res_sim (\<lambda>(r, s) (r', m). r = r' \<and> pt_rel c s m) (pt_exec isa x s) (spec_exec c isa x m)"
proof -
  have k: "offsetMask s = pc_mask c" "pageSize s = pc_size c" "pTable s = m" using assms by (simp_all add: pt_rel_def)
  have fin: "res_sim (\<lambda>(r, s) (r', m). r = r' \<and> pt_rel c s m) (bindE x (\<lambda>s. Inr (ODone :: 'e pt_out, s))) (bindE y (\<lambda>m. Inr (ODone, m)))"
    if "res_sim (pt_rel c) x y" for x y using that by (rule res_sim_bind) simp
  have loop: "res_sim (pt_rel c) (page_loop n (pc_size c) f sz v w s) (page_loop n (pc_size c) g sz v w m)"
    if "\<And>v x s m. pt_rel c s m \<Longrightarrow> res_sim (pt_rel c) (f v x s) (g v x m)" for n f g sz v w
    by (rule page_loop_sim [where R = "pt_rel c", OF _ assms]) (rule that)
  show ?thesis
  proof (cases x)
    case (PMap v p sz flags)
    then show ?thesis using fin [OF loop [of "map_page isa flags" "map_page_spec c isa flags", OF map_page_sim]]
       by (simp add: pt_map_def pageOffset_def k assertE_def)
  next
    case (PRemap v sz nv)
    then show ?thesis using fin [OF loop [of "remap_page isa" "remap_page_spec isa", OF remap_page_sim]]
       by (simp add: pt_remap_def pageOffset_def k assertE_def)
  next
    case (PUnmap v sz)
    then show ?thesis using fin [OF loop [of unmap_page unmap_page_spec, OF unmap_page_sim]]
       by (simp add: pt_unmap_def pageOffset_def k assertE_def)
  next
    case (PIsUnmapped v sz)
    then show ?thesis using assms
      by (cases "isUnmapped_loop (page_rounds sz) (pc_size c) m sz v")
         (simp_all add: isUnmapped_def pageOffset_def k assertE_def)
  next
    case (PLookup v)
    then show ?thesis using lookup_sim [OF assms, of v] by (auto split: prod.split)
  next
    case (PTranslate v)
    then show ?thesis using translate_sim [OF assms, of isa v] by (auto split: prod.split)
  next
    case (PTranslateReq v sz)
    then show ?thesis using translate_req_sim [OF assms] by simp
  qed
qed


definition pt_consts_of :: "'e page_table \<Rightarrow> pt_consts" where
  "pt_consts_of s = \<lparr>pc_size = pageSize s, pc_mask = offsetMask s, pc_pid = pt_pid s\<rparr>"

text \<open>
  C12: the cache of the page table is transparent. Every run of mapping, unmapping, moving pages to
  unmapped places, lookups and translations returns what the same run on the plain map returns, ends
  with the same table, keeps the cache coherent, and fails exactly when the plain map fails.
\<close>

theorem page_cache_transparent:
  assumes "pt_coherent s" "run_ops (spec_exec (pt_consts_of s) isa) ops (pTable s) \<noteq> Inl Undefined"
  shows "case run_ops (spec_exec (pt_consts_of s) isa) ops (pTable s) of
      Inl e \<Rightarrow> run_ops (pt_exec isa) ops s = Inl e
    | Inr (rs, m) \<Rightarrow> \<exists>s'. run_ops (pt_exec isa) ops s = Inr (rs, s') \<and> pTable s' = m \<and> pt_coherent s'"
proof -
  have "pt_rel (pt_consts_of s) s (pTable s)" using assms(1) by (simp add: pt_rel_def pt_consts_of_def)
  then have "res_sim (\<lambda>(r, s') (r', m). r = r' \<and> pt_rel (pt_consts_of s) s' m)
      (run_ops (pt_exec isa) ops s) (run_ops (spec_exec (pt_consts_of s) isa) ops (pTable s))"
    by (rule run_ops_sim [where R = "pt_rel (pt_consts_of s)", rotated]) (rule pt_exec_sim)
  then show ?thesis using assms(2)
    by (auto simp: res_sim_def pt_rel_def split: sum.splits)
qed

end
