(* ===== verification/Page_Map_Props.thy ===== *)
theory Page_Map_Props
  imports Page_Table_Props
begin

text \<open>
  What \<open>map\<close> does to translations, for every instruction set whose entries return the physical
  address they were built with, and the two ways in which stale entries survive in the cache.
\<close>

unbundle bit_operations_syntax

section \<open>The loop over the pages of a region\<close>










section \<open>Alignment\<close>

definition pt_wf :: "'e page_table \<Rightarrow> bool" where
  "pt_wf s \<longleftrightarrow> (\<exists>j < 64. pageSize s = 2 ^ j \<and> offsetMask s = mask j)"

lemma PageTable_new_ok:
  assumes "PageTable_new cs p ps = Inr s"
  shows "pt_wf s" and "pt_coherent s" and "pTable s = Map.empty"
proof -
  obtain c0 c1 c2 where cs: "cs = (c0, c1, c2)" by (cases cs)
  obtain k where k: "floorLog2 ps = Inr k" "isPowerOf2 ps" using assms by (auto simp: PageTable_new_def cs bindE_Inr_iff)
  obtain j where j: "j < 64" "ps = 2 ^ j" "k = int j" using isPowerOf2_exp [OF k(2)] k(1) by auto
  then show "pt_wf s" "pt_coherent s" "pTable s = Map.empty"
    using assms k by (auto simp: PageTable_new_def cs pt_wf_def pt_coherent_def bitmask_eq)
qed





section \<open>Mapping and translating\<close>






definition demo_table :: "tlb_entry page_table" where
  "demo_table = \<lparr>pTableCache = (let c = \<lparr>ce_valid = False, ce_vaddr = 0, ce_entry = \<lparr>entry_pageStart = 0\<rparr>\<rparr> in (c, c, c)),
     pageSize = 0x2000, offsetMask = 0x1FFF, pt_pid = 1, pTable = Map.empty\<rparr>"

lemma demo_table_ok: "pt_wf demo_table" "pt_coherent demo_table"
proof -
  have "(0x2000 :: addr) = 2 ^ 13" "(0x1FFF :: addr) = mask 13" by (simp_all add: mask_eq_exp_minus_1)
  then show "pt_wf demo_table" unfolding pt_wf_def demo_table_def by (intro exI [of _ 13]) simp
  show "pt_coherent demo_table" by (simp add: pt_coherent_def demo_table_def Let_def)
qed


section \<open>Stale entries\<close>

lemma page_loop_one:
  assumes "sint sz > 0" "\<not> sint (sz - ps) > 0"
  shows "page_loop (page_rounds sz) ps f sz v x s = f v x s"
proof -
  have "sz \<noteq> 0" using assms(1) by auto
  then obtain n where "unat sz = Suc n" using unat_gt_0 [of sz] by (metis Suc_pred)
  then show ?thesis using assms by (simp add: page_rounds_def bindE_def split: sum.split)
qed

lemmas pt_eval = pt_map_def pt_remap_def pt_unmap_def pageOffset_def page_loop_one map_page_def remap_page_def
  unmap_page_def eraseCacheEntry_def updateCache_def ce_hit_def pt_translate_def pt_lookup_def pageAlign_def
  mips_tlb_def TlbEntry_new_def mips_updateVaddr_def pt_Clobber_def pt_Uncacheable_def pt_ReadOnly_def Let_def

lemma demo_spec_run:
  "\<exists>m. run_ops (spec_exec (pt_consts_of demo_table) (mips_tlb 0)) [PMap 0x2000 0x10000 0x2000 0, PTranslate 0x2010,
      PRemap 0x2000 0x2000 0x6000, PTranslate 0x6010, PUnmap 0x6000 0x2000, PTranslate 0x6010] (pTable demo_table) =
     Inr ([ODone, OAddr (Some 0x10010), ODone, OAddr (Some 0x10010), ODone, OAddr None], m)"
  by (simp add: pt_eval demo_table_def pt_consts_of_def map_page_spec_def remap_page_spec_def unmap_page_spec_def spec_translate_def)

theorem page_cache_transparent_witness:
  "\<exists>s'. run_ops (pt_exec (mips_tlb 0)) [PMap 0x2000 0x10000 0x2000 0, PTranslate 0x2010,
      PRemap 0x2000 0x2000 0x6000, PTranslate 0x6010, PUnmap 0x6000 0x2000, PTranslate 0x6010] demo_table =
     Inr ([ODone, OAddr (Some 0x10010), ODone, OAddr (Some 0x10010), ODone, OAddr None], s') \<and> pt_coherent s'"
  using demo_spec_run page_cache_transparent [OF demo_table_ok(2), of "mips_tlb 0" "[PMap 0x2000 0x10000 0x2000 0, PTranslate 0x2010,
      PRemap 0x2000 0x2000 0x6000, PTranslate 0x6010, PUnmap 0x6000 0x2000, PTranslate 0x6010]"]
  by (elim exE) (auto simp del: run_ops.simps)

text \<open>
  A page moved onto a mapped page leaves the old entry of that page in the cache, behind the new one.
  Unmapping the page erases the first of the two only: the page then still translates, to the frame it
  had before.
\<close>

lemma remap_leaves_stale:
  "\<exists>s. run_ops (pt_exec (mips_tlb 0)) [PMap 0x2000 0x10000 0x2000 0, PMap 0x4000 0x20000 0x2000 0, PRemap 0x2000 0x2000 0x4000,
       PUnmap 0x4000 0x2000, PTranslate 0x4000] demo_table = Inr ([ODone, ODone, ODone, ODone, OAddr (Some 0x20000)], s) \<and>
     pTable s 0x4000 = None"
  by (simp add: pt_eval demo_table_def)

text \<open>Moving a page onto itself replaces its entry by a default one.\<close>

lemma remap_self_loses:
  "\<exists>s. run_ops (pt_exec (mips_tlb junk)) [PMap 0x2000 0x10000 0x2000 0, PRemap 0x2000 0x2000 0x2000, PTranslate 0x2000] demo_table
     = Inr ([ODone, ODone, OAddr (Some junk)], s)"
  by (simp add: pt_eval demo_table_def)

text \<open>Reading a checkpoint clears the table but not the cache.\<close>

lemma unserialize_leaves_stale:
  "\<exists>s. run_ops (pt_exec (mips_tlb 0)) [PMap 0x2000 0x10000 0x2000 0] demo_table = Inr ([ODone], s) \<and>
     fst (pt_translate (mips_tlb 0) 0x2000 (pt_unserialize [] s)) = Some 0x10000"
  by (simp add: pt_eval demo_table_def pt_unserialize_def)

end
