(* ===== verification/Cache_Tags.thy ===== *)
theory Cache_Tags
  imports Int_Math
begin

text \<open>
  The tag store of a set-associative cache with the replacement policies LRU and random:
  \<open>mem/cache/blk.hh\<close>, \<open>mem/cache/tags/cacheset.hh\<close>, \<open>base_set_assoc.hh\<close>, \<open>base_set_assoc.cc\<close>,
  \<open>lru.cc\<close> and \<open>random_repl.cc\<close>. A pointer to a block is its index in the array \<open>blks\<close>; a set is the
  list of its blocks, most recently used first. Statistics that the code counts with are integers. The
  bytes of the blocks and the text forms are left out.
\<close>

unbundle bit_operations_syntax

section \<open>Blocks\<close>

definition BlkValid :: u32 where "BlkValid = 0x01"

definition BlkWritable :: u32 where "BlkWritable = 0x02"

definition BlkReadable :: u32 where "BlkReadable = 0x04"

definition BlkDirty :: u32 where "BlkDirty = 0x08"

definition BlkReferenced :: u32 where "BlkReferenced = 0x10"

definition BlkHWPrefetched :: u32 where "BlkHWPrefetched = 0x20"

definition BlkSecure :: u32 where "BlkSecure = 0x40"

text \<open>What the blocks read of a request: the context, the physical address and the size.\<close>

record mem_req =
  rq_context :: int
  rq_paddr :: addr
  rq_size :: u32

record blk_lock =
  lk_context :: int
  lk_low :: addr
  lk_high :: addr

definition req_high :: "mem_req \<Rightarrow> addr" where
  "req_high req = rq_paddr req + ucast (rq_size req) - 1"

definition matchesContext :: "blk_lock \<Rightarrow> mem_req \<Rightarrow> bool" where
  "matchesContext l req \<longleftrightarrow> lk_context l = rq_context req \<and> rq_paddr req \<ge> lk_low l \<and> req_high req \<le> lk_high l"

definition overlapping :: "blk_lock \<Rightarrow> mem_req \<Rightarrow> bool" where
  "overlapping l req \<longleftrightarrow> rq_paddr req \<le> lk_high l \<and> req_high req \<ge> lk_low l"

definition Lock_new :: "mem_req \<Rightarrow> blk_lock" where
  "Lock_new req = \<lparr>lk_context = rq_context req, lk_low = rq_paddr req, lk_high = req_high req\<rparr>"

record cache_blk =
  cb_task_id :: u32
  cb_asid :: int
  cb_tag :: addr
  cb_size :: u32
  cb_status :: u32
  cb_whenReady :: tick
  cb_set :: int
  cb_isTouched :: bool
  cb_refCount :: int
  cb_srcMasterId :: int
  cb_tickInserted :: tick
  cb_lockList :: "blk_lock list"

definition task_Unknown :: u32 where "task_Unknown = 1024"

definition invldMasterId :: int where "invldMasterId = 65535"

definition CacheBlk_new :: cache_blk where
  "CacheBlk_new = \<lparr>cb_task_id = task_Unknown, cb_asid = -1, cb_tag = 0, cb_size = 0, cb_status = 0, cb_whenReady = 0,
     cb_set = -1, cb_isTouched = False, cb_refCount = 0, cb_srcMasterId = invldMasterId, cb_tickInserted = 0, cb_lockList = []\<rparr>"

text \<open>Assignment copies some of the fields only.\<close>

definition CacheBlk_assign :: "cache_blk \<Rightarrow> cache_blk \<Rightarrow> cache_blk" where
  "CacheBlk_assign lhs rhs = lhs\<lparr>cb_asid := cb_asid rhs, cb_tag := cb_tag rhs, cb_size := cb_size rhs, cb_status := cb_status rhs,
     cb_whenReady := cb_whenReady rhs, cb_set := cb_set rhs, cb_refCount := cb_refCount rhs, cb_task_id := cb_task_id rhs\<rparr>"

definition isWritable :: "cache_blk \<Rightarrow> bool" where
  "isWritable b \<longleftrightarrow> (let needed = BlkWritable OR BlkValid in cb_status b AND needed = needed)"

definition isReadable :: "cache_blk \<Rightarrow> bool" where
  "isReadable b \<longleftrightarrow> (let needed = BlkReadable OR BlkValid in cb_status b AND needed = needed)"

definition isValid :: "cache_blk \<Rightarrow> bool" where
  "isValid b \<longleftrightarrow> cb_status b AND BlkValid \<noteq> 0"

definition isDirty :: "cache_blk \<Rightarrow> bool" where
  "isDirty b \<longleftrightarrow> cb_status b AND BlkDirty \<noteq> 0"

definition isReferenced :: "cache_blk \<Rightarrow> bool" where
  "isReferenced b \<longleftrightarrow> cb_status b AND BlkReferenced \<noteq> 0"

definition wasPrefetched :: "cache_blk \<Rightarrow> bool" where
  "wasPrefetched b \<longleftrightarrow> cb_status b AND BlkHWPrefetched \<noteq> 0"

definition isSecure :: "cache_blk \<Rightarrow> bool" where
  "isSecure b \<longleftrightarrow> cb_status b AND BlkSecure \<noteq> 0"

definition clearLoadLocks :: "mem_req option \<Rightarrow> cache_blk \<Rightarrow> cache_blk" where
  "clearLoadLocks req b =
     (case req of
        None \<Rightarrow> b\<lparr>cb_lockList := []\<rparr>
      | Some r \<Rightarrow> b\<lparr>cb_lockList := filter (\<lambda>l. \<not> overlapping l r) (cb_lockList b)\<rparr>)"

definition blk_invalidate :: "cache_blk \<Rightarrow> cache_blk" where
  "blk_invalidate b = clearLoadLocks None (b\<lparr>cb_status := 0, cb_isTouched := False\<rparr>)"

definition trackLoadLocked :: "bool \<Rightarrow> mem_req \<Rightarrow> cache_blk \<Rightarrow> cache_blk res" where
  "trackLoadLocked isLLSC req b =
     bindE (assertE isLLSC) (\<lambda>_. Inr (b\<lparr>cb_lockList := Lock_new req # cb_lockList b\<rparr>))"

text \<open>The result, the extra data set in the request of a store conditional, and the block.\<close>

definition checkWrite :: "bool \<Rightarrow> mem_req \<Rightarrow> cache_blk \<Rightarrow> bool \<times> u64 option \<times> cache_blk" where
  "checkWrite isLLSC req b =
     (if isLLSC
      then (let success = list_ex (\<lambda>l. matchesContext l req) (cb_lockList b)
            in (success, Some (if success then 1 else 0), clearLoadLocks (Some req) b))
      else (True, None, clearLoadLocks (Some req) b))"

section \<open>Sets\<close>

text \<open>The block that matches, and its way, which is the associativity when there is none.\<close>

fun findBlk_loop :: "cache_blk list \<Rightarrow> addr \<Rightarrow> bool \<Rightarrow> nat \<Rightarrow> nat list \<Rightarrow> nat option \<times> nat" where
  "findBlk_loop bs tag is_secure i [] = (None, i)"
| "findBlk_loop bs tag is_secure i (b # s) =
     (if cb_tag (bs ! b) = tag \<and> isValid (bs ! b) \<and> isSecure (bs ! b) = is_secure then (Some b, i)
      else findBlk_loop bs tag is_secure (Suc i) s)"

definition findBlk_way :: "cache_blk list \<Rightarrow> addr \<Rightarrow> bool \<Rightarrow> nat list \<Rightarrow> nat option \<times> nat" where
  "findBlk_way bs tag is_secure s = findBlk_loop bs tag is_secure 0 s"

definition findBlk :: "cache_blk list \<Rightarrow> addr \<Rightarrow> bool \<Rightarrow> nat list \<Rightarrow> nat option" where
  "findBlk bs tag is_secure s = fst (findBlk_way bs tag is_secure s)"

text \<open>The do-while loops: \<open>next\<close> goes into place \<open>i\<close>, what was there becomes \<open>next\<close>.\<close>

function toHead_loop :: "nat \<Rightarrow> nat \<Rightarrow> nat \<Rightarrow> nat list \<Rightarrow> nat list res" where
  "toHead_loop blk i nxt s =
     (if \<not> i < length s then Inl Assert_Failed
      else (let tmp = s ! i; s = s[i := nxt] in
            if tmp \<noteq> blk then toHead_loop blk (i + 1) tmp s else Inr s))"
  by pat_completeness auto
termination by (relation "measure (\<lambda>(blk, i, nxt, s). length s - i)") auto

definition moveToHead :: "nat \<Rightarrow> nat list \<Rightarrow> nat list res" where
  "moveToHead blk s =
     (if s = [] then Inl Undefined
      else if s ! 0 = blk then Inr s
      else toHead_loop blk 0 blk s)"

declare toHead_loop.simps [simp del]

text \<open>Here the argument is one more than the index \<open>i\<close> of the code, which runs down to 0.\<close>

fun toTail_loop :: "nat \<Rightarrow> nat \<Rightarrow> nat \<Rightarrow> nat list \<Rightarrow> nat list res" where
  "toTail_loop blk 0 nxt s = Inl Assert_Failed"
| "toTail_loop blk (Suc i) nxt s =
     (let tmp = s ! i; s = s[i := nxt] in if tmp \<noteq> blk then toTail_loop blk i tmp s else Inr s)"

definition moveToTail :: "nat \<Rightarrow> nat list \<Rightarrow> nat list res" where
  "moveToTail blk s =
     (if s = [] then Inl Undefined
      else if s ! (length s - 1) = blk then Inr s
      else toTail_loop blk (length s) blk s)"


section \<open>The tag store\<close>

record tag_store =
  ts_blkSize :: u32
  ts_accessLatency :: u64
  ts_assoc :: u32
  ts_numSets :: u32
  ts_sequentialAccess :: bool
  ts_setShift :: nat
  ts_tagShift :: nat
  ts_setMask :: u32
  ts_blkMask :: u32
  ts_maxMasters :: int
  ts_sets :: "nat list list"
  ts_blks :: "cache_blk list"
  ts_warmupBound :: int
  ts_warmedUp :: bool
  ts_warmupCycle :: tick
  ts_tagsInUse :: int
  ts_replacements :: int
  ts_totalRefs :: int
  ts_sampledRefs :: int
  ts_tagAccesses :: int
  ts_dataAccesses :: int
  ts_occupancies :: "int list"

definition new_blk :: "u32 \<Rightarrow> nat \<Rightarrow> nat \<Rightarrow> cache_blk" where
  "new_blk bsize i j = (blk_invalidate CacheBlk_new)\<lparr>cb_tag := of_nat j, cb_whenReady := 0, cb_isTouched := False,
     cb_size := bsize, cb_set := int i\<rparr>"

text \<open>
  The number of sets is computed before any check, from \<open>int\<close> parameters: a zero product traps and an
  overflow is undefined. More than \<open>2 ^ 32\<close> blocks overflow the index.
\<close>

definition num_sets :: "u64 \<Rightarrow> int \<Rightarrow> int \<Rightarrow> u32 res" where
  "num_sets cap block_size assoc =
     (let prod = block_size * assoc in
      if prod < - (2 ^ 31) \<or> prod \<ge> 2 ^ 31 \<or> prod = 0 then Inl Undefined
      else Inr (ucast (cap div (of_int prod))))"

definition BaseSetAssoc_new :: "u64 \<Rightarrow> int \<Rightarrow> int \<Rightarrow> u64 \<Rightarrow> bool \<Rightarrow> int \<Rightarrow> tag_store res" where
  "BaseSetAssoc_new cap block_size assoc lat seq masters =
     bindE (num_sets cap block_size assoc) (\<lambda>nsets.
     (let bsize = of_int block_size :: u32; ways = of_int assoc :: u32 in
      if bsize < 4 \<or> \<not> isPowerOf2 bsize then Inl Fatal
      else if nsets = 0 \<or> \<not> isPowerOf2 nsets then Inl Fatal
      else if ways = 0 then Inl Fatal
      else
        bindE (floorLog2_u32 bsize) (\<lambda>ss.
        bindE (floorLog2_u32 nsets) (\<lambda>ns.
        if unat nsets * unat ways \<ge> 2 ^ 32 then Inl Undefined
        else Inr \<lparr>ts_blkSize = bsize, ts_accessLatency = lat, ts_assoc = ways, ts_numSets = nsets, ts_sequentialAccess = seq,
          ts_setShift = nat ss, ts_tagShift = nat (ss + ns), ts_setMask = nsets - 1, ts_blkMask = bsize - 1,
          ts_maxMasters = masters,
          ts_sets = map (\<lambda>i. map (\<lambda>j. i * unat ways + j) [0..<unat ways]) [0..<unat nsets],
          ts_blks = concat (map (\<lambda>i. map (new_blk bsize i) [0..<unat ways]) [0..<unat nsets]),
          ts_warmupBound = int (unat nsets * unat ways), ts_warmedUp = False, ts_warmupCycle = 0, ts_tagsInUse = 0,
          ts_replacements = 0, ts_totalRefs = 0, ts_sampledRefs = 0, ts_tagAccesses = 0, ts_dataAccesses = 0,
          ts_occupancies = replicate (nat masters) 0\<rparr>))))"

definition extractTag :: "tag_store \<Rightarrow> addr \<Rightarrow> addr" where
  "extractTag t a = drop_bit (ts_tagShift t) a"

definition extractSet :: "tag_store \<Rightarrow> addr \<Rightarrow> nat" where
  "extractSet t a = unat (drop_bit (ts_setShift t) a AND ucast (ts_setMask t))"

definition blkAlign :: "tag_store \<Rightarrow> addr \<Rightarrow> addr" where
  "blkAlign t a = a AND NOT (ucast (ts_blkMask t))"

definition regenerateBlkAddr :: "tag_store \<Rightarrow> addr \<Rightarrow> nat \<Rightarrow> addr" where
  "regenerateBlkAddr t tag s = push_bit (ts_tagShift t) tag OR push_bit (ts_setShift t) (of_nat s)"

definition findBlock :: "tag_store \<Rightarrow> addr \<Rightarrow> bool \<Rightarrow> nat option" where
  "findBlock t a is_secure = findBlk (ts_blks t) (extractTag t a) is_secure (ts_sets t ! extractSet t a)"

definition clearLocks :: "tag_store \<Rightarrow> tag_store" where
  "clearLocks t = t\<lparr>ts_blks := map (clearLoadLocks None) (ts_blks t)\<rparr>"

definition cleanupRefs :: "tag_store \<Rightarrow> tag_store" where
  "cleanupRefs t = foldl (\<lambda>t b. if isValid b
     then t\<lparr>ts_totalRefs := ts_totalRefs t + cb_refCount b, ts_sampledRefs := ts_sampledRefs t + 1\<rparr> else t) t (ts_blks t)"

definition upd_blk :: "(cache_blk \<Rightarrow> cache_blk) \<Rightarrow> nat \<Rightarrow> tag_store \<Rightarrow> tag_store" where
  "upd_blk f b t = t\<lparr>ts_blks := (ts_blks t)[b := f (ts_blks t ! b)]\<rparr>"

text \<open>\<open>t2c\<close> is the conversion from ticks to cycles of the cache that owns the tags.\<close>

definition BaseSetAssoc_accessBlock ::
  "(tick \<Rightarrow> u64) \<Rightarrow> tick \<Rightarrow> addr \<Rightarrow> bool \<Rightarrow> tag_store \<Rightarrow> nat option \<times> u64 \<times> tag_store" where
  "BaseSetAssoc_accessBlock t2c now a is_secure t =
     (let blk = findBlk (ts_blks t) (extractTag t a) is_secure (ts_sets t ! extractSet t a);
          t = t\<lparr>ts_tagAccesses := ts_tagAccesses t + uint (ts_assoc t)\<rparr>;
          t = (if ts_sequentialAccess t
               then if blk \<noteq> None then t\<lparr>ts_dataAccesses := ts_dataAccesses t + 1\<rparr> else t
               else t\<lparr>ts_dataAccesses := ts_dataAccesses t + uint (ts_assoc t)\<rparr>)
      in case blk of
           None \<Rightarrow> (None, ts_accessLatency t, t)
         | Some b \<Rightarrow>
             (let ready = cb_whenReady (ts_blks t ! b);
                  lat = (if ready > now \<and> t2c (ready - now) > ts_accessLatency t then t2c (ready - now)
                         else ts_accessLatency t)
              in (Some b, lat, upd_blk (\<lambda>c. c\<lparr>cb_refCount := cb_refCount c + 1\<rparr>) b t)))"

text \<open>The first invalid block of the set, or the last one.\<close>

fun victim_loop :: "cache_blk list \<Rightarrow> nat list \<Rightarrow> nat option \<Rightarrow> nat option" where
  "victim_loop bs [] blk = blk"
| "victim_loop bs (b # s) blk = (if \<not> isValid (bs ! b) then Some b else victim_loop bs s (Some b))"

definition BaseSetAssoc_findVictim :: "addr \<Rightarrow> tag_store \<Rightarrow> nat option" where
  "BaseSetAssoc_findVictim a t = victim_loop (ts_blks t) (ts_sets t ! extractSet t a) None"

record mem_pkt =
  pk_addr :: addr
  pk_masterId :: int
  pk_taskId :: u32

definition BaseSetAssoc_insertBlock :: "tick \<Rightarrow> mem_pkt \<Rightarrow> nat \<Rightarrow> tag_store \<Rightarrow> tag_store res" where
  "BaseSetAssoc_insertBlock now pkt b t =
     (let t = (if \<not> cb_isTouched (ts_blks t ! b)
               then (let t = upd_blk (\<lambda>c. c\<lparr>cb_isTouched := True\<rparr>) b (t\<lparr>ts_tagsInUse := ts_tagsInUse t + 1\<rparr>)
                     in if \<not> ts_warmedUp t \<and> ts_tagsInUse t \<ge> ts_warmupBound t
                        then t\<lparr>ts_warmedUp := True, ts_warmupCycle := now\<rparr> else t)
               else t)
      in bindE (if isValid (ts_blks t ! b)
                then (let t = t\<lparr>ts_replacements := ts_replacements t + 1,
                              ts_totalRefs := ts_totalRefs t + cb_refCount (ts_blks t ! b),
                              ts_sampledRefs := ts_sampledRefs t + 1\<rparr>;
                          t = upd_blk (\<lambda>c. c\<lparr>cb_refCount := 0\<rparr>) b t;
                          m = cb_srcMasterId (ts_blks t ! b)
                      in bindE (assertE (m < ts_maxMasters t)) (\<lambda>_.
                         Inr (upd_blk blk_invalidate b
                               (t\<lparr>ts_occupancies := (ts_occupancies t)[nat m := ts_occupancies t ! nat m - 1]\<rparr>))))
                else Inr t) (\<lambda>t.
         (let t = upd_blk (\<lambda>c. c\<lparr>cb_isTouched := True, cb_tag := extractTag t (pk_addr pkt)\<rparr>) b t;
              m = pk_masterId pkt
          in bindE (assertE (m < ts_maxMasters t)) (\<lambda>_.
             (let t = t\<lparr>ts_occupancies := (ts_occupancies t)[nat m := ts_occupancies t ! nat m + 1]\<rparr>;
                  t = upd_blk (\<lambda>c. c\<lparr>cb_srcMasterId := m, cb_task_id := pk_taskId pkt, cb_tickInserted := now\<rparr>) b t
              in Inr (t\<lparr>ts_tagAccesses := ts_tagAccesses t + 1, ts_dataAccesses := ts_dataAccesses t + 1\<rparr>))))))"

definition BaseSetAssoc_invalidate :: "tick \<Rightarrow> nat \<Rightarrow> tag_store \<Rightarrow> tag_store res" where
  "BaseSetAssoc_invalidate now b t =
     bindE (assertE (isValid (ts_blks t ! b))) (\<lambda>_.
     (let t = t\<lparr>ts_tagsInUse := ts_tagsInUse t - 1\<rparr>; m = cb_srcMasterId (ts_blks t ! b) in
      bindE (assertE (m < ts_maxMasters t)) (\<lambda>_.
      Inr (upd_blk (\<lambda>c. c\<lparr>cb_srcMasterId := invldMasterId, cb_task_id := task_Unknown, cb_tickInserted := now\<rparr>) b
            (t\<lparr>ts_occupancies := (ts_occupancies t)[nat m := ts_occupancies t ! nat m - 1]\<rparr>)))))"

subsection \<open>LRU\<close>

definition upd_set :: "(nat list \<Rightarrow> nat list res) \<Rightarrow> nat \<Rightarrow> tag_store \<Rightarrow> tag_store res" where
  "upd_set f i t = bindE (f (ts_sets t ! i)) (\<lambda>s. Inr (t\<lparr>ts_sets := (ts_sets t)[i := s]\<rparr>))"

definition LRU_accessBlock ::
  "(tick \<Rightarrow> u64) \<Rightarrow> tick \<Rightarrow> addr \<Rightarrow> bool \<Rightarrow> tag_store \<Rightarrow> (nat option \<times> u64 \<times> tag_store) res" where
  "LRU_accessBlock t2c now a is_secure t =
     (case BaseSetAssoc_accessBlock t2c now a is_secure t of
        (None, lat, t) \<Rightarrow> Inr (None, lat, t)
      | (Some b, lat, t) \<Rightarrow>
          bindE (upd_set (moveToHead b) (nat (cb_set (ts_blks t ! b))) t) (\<lambda>t. Inr (Some b, lat, t)))"

definition LRU_findVictim :: "addr \<Rightarrow> tag_store \<Rightarrow> nat" where
  "LRU_findVictim a t = ts_sets t ! extractSet t a ! (unat (ts_assoc t) - 1)"

definition LRU_insertBlock :: "tick \<Rightarrow> mem_pkt \<Rightarrow> nat \<Rightarrow> tag_store \<Rightarrow> tag_store res" where
  "LRU_insertBlock now pkt b t =
     bindE (BaseSetAssoc_insertBlock now pkt b t) (\<lambda>t.
     upd_set (moveToHead b) (extractSet t (pk_addr pkt)) t)"

definition LRU_invalidate :: "tick \<Rightarrow> nat \<Rightarrow> tag_store \<Rightarrow> tag_store res" where
  "LRU_invalidate now b t =
     bindE (BaseSetAssoc_invalidate now b t) (\<lambda>t.
     upd_set (moveToTail b) (nat (cb_set (ts_blks t ! b))) t)"

subsection \<open>Random replacement\<close>

text \<open>\<open>idx\<close> is the number drawn from the generator.\<close>

definition RandomRepl_findVictim :: "nat \<Rightarrow> addr \<Rightarrow> tag_store \<Rightarrow> nat option res" where
  "RandomRepl_findVictim idx a t =
     (case BaseSetAssoc_findVictim a t of
        None \<Rightarrow> Inl Undefined
      | Some b \<Rightarrow>
          if isValid (ts_blks t ! b)
          then bindE (assertE (idx < unat (ts_assoc t))) (\<lambda>_. Inr (Some (ts_sets t ! extractSet t a ! idx)))
          else Inr (Some b))"


definition RandomRepl_accessBlock ::
  "(tick \<Rightarrow> u64) \<Rightarrow> tick \<Rightarrow> addr \<Rightarrow> bool \<Rightarrow> tag_store \<Rightarrow> nat option \<times> u64 \<times> tag_store" where
  "RandomRepl_accessBlock = BaseSetAssoc_accessBlock"

definition RandomRepl_insertBlock :: "tick \<Rightarrow> mem_pkt \<Rightarrow> nat \<Rightarrow> tag_store \<Rightarrow> tag_store res" where
  "RandomRepl_insertBlock = BaseSetAssoc_insertBlock"

definition RandomRepl_invalidate :: "tick \<Rightarrow> nat \<Rightarrow> tag_store \<Rightarrow> tag_store res" where
  "RandomRepl_invalidate = BaseSetAssoc_invalidate"

subsection \<open>Traversals\<close>

text \<open>A visitor may change the block and its own state, and stops the traversal by returning false.\<close>

fun forEachBlk_loop :: "(cache_blk \<Rightarrow> 's \<Rightarrow> bool \<times> cache_blk \<times> 's) \<Rightarrow> cache_blk list \<Rightarrow> 's \<Rightarrow> cache_blk list \<times> 's" where
  "forEachBlk_loop visitor [] s = ([], s)"
| "forEachBlk_loop visitor (b # bs) s =
     (case visitor b s of
        (go, b, s) \<Rightarrow> if \<not> go then (b # bs, s) else (case forEachBlk_loop visitor bs s of (bs, s) \<Rightarrow> (b # bs, s)))"

definition forEachBlk :: "(cache_blk \<Rightarrow> 's \<Rightarrow> bool \<times> cache_blk \<times> 's) \<Rightarrow> tag_store \<Rightarrow> 's \<Rightarrow> tag_store \<times> 's" where
  "forEachBlk visitor t s = (case forEachBlk_loop visitor (ts_blks t) s of (bs, s) \<Rightarrow> (t\<lparr>ts_blks := bs\<rparr>, s))"

definition NumTaskId :: nat where "NumTaskId = 1025"

text \<open>\<open>us\<close> and \<open>ms\<close> are the ticks of a microsecond and a millisecond.\<close>

definition age_index :: "tick \<Rightarrow> tick \<Rightarrow> tick \<Rightarrow> nat res" where
  "age_index us ms age =
     (if us = 0 \<or> ms = 0 then Inl Undefined
      else Inr (if age div us < 10 then 0 else if age div us < 100 then 1
                else if age div ms < 1 then 2 else if age div ms < 10 then 3 else 4))"

definition count_blk :: "tick \<Rightarrow> tick \<Rightarrow> tick \<Rightarrow> cache_blk \<Rightarrow> int list \<times> int list list \<Rightarrow> (int list \<times> int list list) res" where
  "count_blk us ms now b st =
     (if \<not> isValid b then Inr st
      else
        (let tid = unat (cb_task_id b) in
         bindE (assertE (tid < NumTaskId)) (\<lambda>_.
         bindE (assertE (cb_tickInserted b \<le> now)) (\<lambda>_.
         bindE (age_index us ms (now - cb_tickInserted b)) (\<lambda>ix.
         case st of (occ, age) \<Rightarrow>
           Inr (occ[tid := occ ! tid + 1], age[tid := (age ! tid)[ix := age ! tid ! ix + 1]]))))))"

definition computeStats :: "tick \<Rightarrow> tick \<Rightarrow> tick \<Rightarrow> tag_store \<Rightarrow> (int list \<times> int list list) res" where
  "computeStats us ms now t =
     foldE (count_blk us ms now) (ts_blks t) (replicate NumTaskId 0, replicate NumTaskId (replicate 5 0))"

end
