(* ===== verification/Cache_Tags_Props.thy ===== *)
theory Cache_Tags_Props
  imports Cache_Tags
begin

text \<open>
  The sets keep their blocks in order of recency, so that the victim of LRU is the least recently used
  block; tag and set of an address determine its block; a store conditional succeeds only if no
  overlapping write came in between.
\<close>

unbundle bit_operations_syntax

section \<open>Moving a block within its set\<close>

lemma toHead_loop_eq:
  "blk \<notin> set us \<Longrightarrow> toHead_loop blk (length pre) n (pre @ us @ blk # vs) = Inr (pre @ n # us @ vs)"
proof (induction us arbitrary: pre n)
  case Nil
  then show ?case by (subst toHead_loop.simps) (simp add: nth_append list_update_append)
next
  case (Cons u us)
  then have "toHead_loop blk (length (pre @ [n])) u ((pre @ [n]) @ us @ blk # vs) = Inr ((pre @ [n]) @ u # us @ vs)"
    by (intro Cons.IH) simp
  then show ?case using Cons.prems by (subst toHead_loop.simps) (simp add: nth_append list_update_append)
qed

lemma moveToHead_eq: "blk \<in> set s \<Longrightarrow> moveToHead blk s = Inr (blk # remove1 blk s)"
proof -
  assume "blk \<in> set s"
  then obtain us vs where s: "s = us @ blk # vs" "blk \<notin> set us" by (meson split_list_first)
  then have "s ! 0 = blk \<longleftrightarrow> us = []" by (cases us) auto
  then show ?thesis using s toHead_loop_eq [of blk us "[]" blk vs] by (auto simp: moveToHead_def remove1_append)
qed

lemma moveToHead_foreign: "\<lbrakk> blk \<notin> set s; s \<noteq> [] \<rbrakk> \<Longrightarrow> moveToHead blk s = Inl Assert_Failed"
proof -
  have "toHead_loop blk (length pre) n (pre @ us) = Inl Assert_Failed" if "blk \<notin> set us" for pre n us
    using that
  proof (induction us arbitrary: pre n)
    case Nil
    then show ?case by (subst toHead_loop.simps) simp
  next
    case (Cons u us)
    then have "toHead_loop blk (length (pre @ [n])) u ((pre @ [n]) @ us) = Inl Assert_Failed" by (intro Cons.IH) simp
    then show ?case using Cons.prems by (subst toHead_loop.simps) (simp add: nth_append list_update_append)
  qed
  note loop = this [of s "[]" blk]
  assume "blk \<notin> set s" "s \<noteq> []"
  then show ?thesis using loop nth_mem [of 0 s] by (auto simp: moveToHead_def)
qed

lemma toTail_loop_eq:
  "blk \<notin> set vs \<Longrightarrow> toTail_loop blk (length us + 1 + length vs) n (us @ blk # vs @ post) = Inr (us @ vs @ n # post)"
proof (induction vs arbitrary: n post rule: rev_induct)
  case Nil
  then show ?case by (simp add: nth_append list_update_append)
next
  case (snoc v vs)
  then show ?case using snoc.IH [of v "n # post"] by (simp add: nth_append list_update_append)
qed

lemma moveToTail_eq: "\<lbrakk> blk \<in> set s; distinct s \<rbrakk> \<Longrightarrow> moveToTail blk s = Inr (remove1 blk s @ [blk])"
proof -
  assume "blk \<in> set s" "distinct s"
  then obtain us vs where s: "s = us @ blk # vs" "blk \<notin> set us" "blk \<notin> set vs"
    by (metis distinct_append distinct.simps(2) not_distinct_conv_prefix split_list_first distinct_append)
  have "s ! (length s - 1) = blk \<longleftrightarrow> vs = []" using s by (cases vs rule: rev_cases) (auto simp: nth_append)
  then show ?thesis using s toTail_loop_eq [of blk vs us blk "[]"] by (auto simp: moveToTail_def remove1_append)
qed

text \<open>The order of recency: the last use of each block counts, and unused blocks stay behind in their order.\<close>

definition lru_order :: "nat list \<Rightarrow> nat list \<Rightarrow> nat list" where
  "lru_order ts s = rev (remdups ts) @ filter (\<lambda>b. b \<notin> set ts) s"

lemma remdups_snoc: "remdups (ts @ [b]) = removeAll b (remdups ts) @ [b]"
  by (induction ts) auto

lemma lru_order_snoc:
  assumes "distinct s" "b \<in> set s"
  shows "lru_order (ts @ [b]) s = b # remove1 b (lru_order ts s)"
proof -
  have "distinct (lru_order ts s)" using assms(1) by (auto simp: lru_order_def)
  then have "remove1 b (lru_order ts s) = removeAll b (lru_order ts s)" by (rule distinct_remove1_removeAll)
  also have "\<dots> = rev (removeAll b (remdups ts)) @ filter (\<lambda>x. x \<notin> set (ts @ [b])) s"
    by (auto simp: lru_order_def removeAll_filter_not_eq rev_filter intro!: filter_cong)
  finally show ?thesis by (simp add: lru_order_def remdups_snoc)
qed

lemma set_lru_order: "set ts \<subseteq> set s \<Longrightarrow> set (lru_order ts s) = set s"
  by (auto simp: lru_order_def)


section \<open>Well-formed tag stores\<close>

definition geom_ok :: "tag_store \<Rightarrow> bool" where
  "geom_ok t \<longleftrightarrow> ts_assoc t \<noteq> 0 \<and> (\<exists>k n. k < 32 \<and> n < 32 \<and> ts_blkSize t = 2 ^ k \<and> ts_numSets t = 2 ^ n \<and>
     ts_setShift t = k \<and> ts_tagShift t = k + n \<and> ts_setMask t = mask n \<and> ts_blkMask t = mask k)"

definition blk_match :: "cache_blk list \<Rightarrow> addr \<Rightarrow> bool \<Rightarrow> nat \<Rightarrow> bool" where
  "blk_match bs tag sec b \<longleftrightarrow> cb_tag (bs ! b) = tag \<and> isValid (bs ! b) \<and> isSecure (bs ! b) = sec"

definition set_ok :: "tag_store \<Rightarrow> nat \<Rightarrow> bool" where
  "set_ok t i \<longleftrightarrow> (let s = ts_sets t ! i in distinct s \<and> length s = unat (ts_assoc t) \<and>
     (\<forall>b \<in> set s. b < length (ts_blks t) \<and> cb_set (ts_blks t ! b) = int i) \<and>
     (\<forall>b \<in> set s. \<forall>c \<in> set s. \<forall>tag sec. blk_match (ts_blks t) tag sec b \<and> blk_match (ts_blks t) tag sec c \<longrightarrow> b = c))"

definition tags_ok :: "tag_store \<Rightarrow> bool" where
  "tags_ok t \<longleftrightarrow> geom_ok t \<and> length (ts_sets t) = unat (ts_numSets t) \<and> (\<forall>i < length (ts_sets t). set_ok t i)"

lemma unat_exp_u32: "k < 32 \<Longrightarrow> unat (2 ^ k :: u32) = 2 ^ k"
proof -
  assume "k < 32"
  then have "(2 :: nat) ^ k < 2 ^ LENGTH(32)" by (intro power_strict_increasing) simp_all
  then have "unat (of_nat (2 ^ k) :: u32) = 2 ^ k"
    unfolding unsigned_of_nat by (simp add: take_bit_nat_eq_self del: len_bit0 len_num1)
  then show ?thesis by simp
qed

lemma extractSet_less: "tags_ok t \<Longrightarrow> extractSet t a < length (ts_sets t)"
proof -
  assume t: "tags_ok t"
  then obtain n where n: "n < 32" "ts_numSets t = 2 ^ n" "ts_setMask t = mask n" by (auto simp: tags_ok_def geom_ok_def)
  have "ucast (mask n :: u32) = (mask n :: u64)" using n(1) by (intro bit_word_eqI) (auto simp: bit_simps)
  then have "extractSet t a = unat (take_bit n (drop_bit (ts_setShift t) a))"
    by (simp add: extractSet_def n(3) take_bit_eq_mask)
  also have "\<dots> < 2 ^ n" unfolding unsigned_take_bit_eq by (simp add: take_bit_nat_less_exp)
  also have "2 ^ n = unat (ts_numSets t)" using n by (simp add: unat_exp_u32)
  finally show ?thesis using t by (simp add: tags_ok_def)
qed

lemma findBlk_loop_Some:
  "fst (findBlk_loop bs tag sec i s) = Some b \<Longrightarrow> b \<in> set s \<and> blk_match bs tag sec b"
  by (induction s arbitrary: i) (auto simp: blk_match_def split: if_splits)

lemma findBlk_loop_None: "fst (findBlk_loop bs tag sec i s) = None \<longleftrightarrow> (\<forall>b \<in> set s. \<not> blk_match bs tag sec b)"
  by (induction s arbitrary: i) (auto simp: blk_match_def)

lemma findBlock_iff:
  assumes "tags_ok t"
  shows "findBlock t a sec = Some b \<longleftrightarrow> b \<in> set (ts_sets t ! extractSet t a) \<and> blk_match (ts_blks t) (extractTag t a) sec b"
    (is "_ \<longleftrightarrow> ?R b")
proof -
  have uniq: "?R c \<Longrightarrow> ?R b \<Longrightarrow> b = c" for c b
    using assms extractSet_less [OF assms, of a] unfolding tags_ok_def set_ok_def Let_def by blast
  show ?thesis
  proof (cases "findBlock t a sec")
    case None
    then have "\<not> ?R b" using findBlk_loop_None [of "ts_blks t"] by (simp add: findBlock_def findBlk_def findBlk_way_def)
    then show ?thesis using None by simp
  next
    case (Some c)
    then have "?R c" using findBlk_loop_Some [of "ts_blks t"] by (simp add: findBlock_def findBlk_def findBlk_way_def)
    then show ?thesis using Some uniq by auto
  qed
qed

section \<open>Recency\<close>

text \<open>The same cache up to the order of the sets and the counters of the blocks.\<close>

definition same_tags :: "tag_store \<Rightarrow> tag_store \<Rightarrow> bool" where
  "same_tags t t' \<longleftrightarrow> ts_assoc t' = ts_assoc t \<and> ts_blkSize t' = ts_blkSize t \<and> ts_numSets t' = ts_numSets t \<and> ts_setShift t' = ts_setShift t \<and>
     ts_tagShift t' = ts_tagShift t \<and> ts_setMask t' = ts_setMask t \<and> ts_blkMask t' = ts_blkMask t \<and>
     length (ts_blks t') = length (ts_blks t) \<and> length (ts_sets t') = length (ts_sets t) \<and>
     (\<forall>i < length (ts_sets t). distinct (ts_sets t' ! i) \<and> set (ts_sets t' ! i) = set (ts_sets t ! i)) \<and>
     (\<forall>b < length (ts_blks t). cb_tag (ts_blks t' ! b) = cb_tag (ts_blks t ! b) \<and>
        cb_status (ts_blks t' ! b) = cb_status (ts_blks t ! b) \<and> cb_set (ts_blks t' ! b) = cb_set (ts_blks t ! b))"

lemma same_tags_match:
  "\<lbrakk> same_tags t t'; b < length (ts_blks t) \<rbrakk> \<Longrightarrow> blk_match (ts_blks t') tag sec b = blk_match (ts_blks t) tag sec b"
  by (simp add: same_tags_def blk_match_def isValid_def isSecure_def)

lemma same_tags_extract: "same_tags t t' \<Longrightarrow> extractSet t' a = extractSet t a \<and> extractTag t' a = extractTag t a"
  by (simp add: same_tags_def extractSet_def extractTag_def)

lemma tags_blk: "\<lbrakk> tags_ok t; i < length (ts_sets t); b \<in> set (ts_sets t ! i) \<rbrakk> \<Longrightarrow> b < length (ts_blks t) \<and> cb_set (ts_blks t ! b) = int i"
  by (simp add: tags_ok_def set_ok_def Let_def)

lemma same_tags_ok:
  assumes "tags_ok t" "same_tags t t'"
  shows "tags_ok t'"
proof -
  have "set_ok t' i" if i: "i < length (ts_sets t)" for i
  proof -
    have s: "set_ok t i" using assms(1) i by (simp add: tags_ok_def)
    have e: "set (ts_sets t' ! i) = set (ts_sets t ! i)" "distinct (ts_sets t' ! i)" using assms(2) i by (simp_all add: same_tags_def)
    then have "length (ts_sets t' ! i) = length (ts_sets t ! i)" using s by (metis distinct_card set_ok_def)
    moreover have "blk_match (ts_blks t') tag sec b = blk_match (ts_blks t) tag sec b"
      if "b \<in> set (ts_sets t ! i)" for b tag sec using same_tags_match [OF assms(2)] tags_blk [OF assms(1) i that] by blast
    ultimately show ?thesis using s e assms(2) by (simp add: set_ok_def Let_def same_tags_def)
  qed
  then show ?thesis using assms by (simp add: tags_ok_def geom_ok_def same_tags_def)
qed

lemma same_tags_find:
  assumes "tags_ok t" "same_tags t t'"
  shows "findBlock t' a sec = findBlock t a sec"
proof -
  have "findBlock t' a sec = Some b \<longleftrightarrow> findBlock t a sec = Some b" for b
    unfolding findBlock_iff [OF assms(1)] findBlock_iff [OF same_tags_ok [OF assms]]
    using extractSet_less [OF assms(1), of a] same_tags_extract [OF assms(2), of a] same_tags_match [OF assms(2), of b]
      tags_blk [OF assms(1), of "extractSet t a" b] assms(2) by (auto simp: same_tags_def)
  then show ?thesis by (metis option.exhaust)
qed


text \<open>A hit moves its block to the front of its set and changes nothing else but counters.\<close>

lemma LRU_access_hit:
  assumes t: "tags_ok t" and hit: "findBlock t a sec = Some b"
  shows "\<exists>lat t'. LRU_accessBlock t2c now a sec t = Inr (Some b, lat, t') \<and> same_tags t t' \<and>
    ts_sets t' = (ts_sets t)[extractSet t a := b # remove1 b (ts_sets t ! extractSet t a)]"
proof -
  let ?i = "extractSet t a" let ?s = "ts_sets t ! ?i"
  have i: "?i < length (ts_sets t)" using extractSet_less [OF t] .
  have b: "b \<in> set ?s" using hit findBlock_iff [OF t] by blast
  have bl: "b < length (ts_blks t)" "cb_set (ts_blks t ! b) = int ?i" using tags_blk [OF t i b] by simp_all
  have d: "distinct (ts_sets t ! j)" if "j < length (ts_sets t)" for j using t that by (simp add: tags_ok_def set_ok_def Let_def)
  obtain lat t1 where acc: "BaseSetAssoc_accessBlock t2c now a sec t = (Some b, lat, t1)"
    and t1: "ts_sets t1 = ts_sets t" "ts_blks t1 = (ts_blks t)[b := (ts_blks t ! b)\<lparr>cb_refCount := cb_refCount (ts_blks t ! b) + 1\<rparr>]"
      "ts_assoc t1 = ts_assoc t" "ts_blkSize t1 = ts_blkSize t" "ts_numSets t1 = ts_numSets t" "ts_setShift t1 = ts_setShift t"
      "ts_tagShift t1 = ts_tagShift t" "ts_setMask t1 = ts_setMask t" "ts_blkMask t1 = ts_blkMask t"
    using hit by (simp add: BaseSetAssoc_accessBlock_def findBlock_def upd_blk_def Let_def)
  let ?t = "t1\<lparr>ts_sets := (ts_sets t)[?i := b # remove1 b ?s]\<rparr>"
  have "LRU_accessBlock t2c now a sec t = Inr (Some b, lat, ?t)"
    using acc t1 bl moveToHead_eq [OF b] by (simp add: LRU_accessBlock_def upd_set_def nth_list_update)
  moreover have "set (b # remove1 b ?s) = set ?s" "distinct (b # remove1 b ?s)"
    using b d [OF i] by (auto simp: set_remove1_eq distinct_remove1)
  then have "same_tags t ?t" using t1 d i bl(1) by (auto simp: same_tags_def nth_list_update)
  ultimately show ?thesis by auto
qed

definition lru_access :: "(tick \<Rightarrow> u64) \<Rightarrow> tick \<times> addr \<times> bool \<Rightarrow> tag_store \<Rightarrow> tag_store res" where
  "lru_access t2c x t = (case x of (now, a, sec) \<Rightarrow> bindE (LRU_accessBlock t2c now a sec t) (\<lambda>(b, lat, t). Inr t))"

text \<open>The blocks of set \<open>i\<close> that a sequence of accesses hits, in order.\<close>

definition touched :: "tag_store \<Rightarrow> (tick \<times> addr \<times> bool) list \<Rightarrow> nat \<Rightarrow> nat list" where
  "touched t accs i = map (\<lambda>(now, a, sec). the (findBlock t a sec)) (filter (\<lambda>(now, a, sec). extractSet t a = i) accs)"

lemma lru_run:
  assumes t: "tags_ok t" and hits: "\<forall>(now, a, sec) \<in> set accs. findBlock t a sec \<noteq> None"
  shows "\<exists>t'. foldE (lru_access t2c) accs t = Inr t' \<and> same_tags t t' \<and>
    (\<forall>i < length (ts_sets t). ts_sets t' ! i = lru_order (touched t accs i) (ts_sets t ! i))"
  using hits
proof (induction accs rule: rev_induct)
  case Nil
  have "distinct (ts_sets t ! i)" if "i < length (ts_sets t)" for i using t that by (simp add: tags_ok_def set_ok_def Let_def)
  then show ?case by (simp add: same_tags_def touched_def lru_order_def)
next
  case (snoc x accs)
  obtain now a sec where x: "x = (now, a, sec)" by (cases x)
  obtain t1 where t1: "foldE (lru_access t2c) accs t = Inr t1" "same_tags t t1"
    "\<forall>i < length (ts_sets t). ts_sets t1 ! i = lru_order (touched t accs i) (ts_sets t ! i)"
    using snoc by auto
  obtain b where b: "findBlock t a sec = Some b" using snoc.prems x by auto
  let ?i = "extractSet t a"
  have i: "?i < length (ts_sets t)" using extractSet_less [OF t] .
  have bs: "b \<in> set (ts_sets t ! ?i)" "distinct (ts_sets t ! ?i)"
    using b findBlock_iff [OF t] t i by (auto simp: tags_ok_def set_ok_def Let_def)
  have f1: "findBlock t1 a sec = Some b" using b same_tags_find [OF t t1(2)] by simp
  obtain lat t2 where t2: "LRU_accessBlock t2c now a sec t1 = Inr (Some b, lat, t2)" "same_tags t1 t2"
    "ts_sets t2 = (ts_sets t1)[extractSet t1 a := b # remove1 b (ts_sets t1 ! extractSet t1 a)]"
    using LRU_access_hit [OF same_tags_ok [OF t t1(2)] f1] by blast
  have e: "extractSet t1 a = ?i" "length (ts_sets t1) = length (ts_sets t)"
    using same_tags_extract [OF t1(2)] t1(2) by (simp_all add: same_tags_def)
  have "ts_sets t2 ! j = lru_order (touched t (accs @ [x]) j) (ts_sets t ! j)" if "j < length (ts_sets t)" for j
    using that t1(3) t2(3) e i x b lru_order_snoc [OF bs(2,1)] by (auto simp: touched_def nth_list_update)
  moreover have "foldE (lru_access t2c) (accs @ [x]) t = Inr t2" using t1(1) t2(1) x by (simp add: foldE_append lru_access_def)
  moreover have "same_tags t t2" using t1(2) t2(2) by (auto simp: same_tags_def)
  ultimately show ?case by blast
qed

text \<open>
  C13: LRU replacement is true LRU. After any sequence of hits the tag store finds the same blocks, and
  the victim for an address is the block of its set that has not been used for the longest time: the
  hindmost unused one if some are unused, otherwise the one whose last use is the earliest.
\<close>

theorem lru_victim:
  assumes "tags_ok t" and "\<forall>(now, a, sec) \<in> set accs. findBlock t a sec \<noteq> None"
  shows "\<exists>t'. foldE (lru_access t2c) accs t = Inr t' \<and> tags_ok t' \<and>
    (\<forall>a sec. findBlock t' a sec = findBlock t a sec) \<and>
    (\<forall>a. let s = ts_sets t ! extractSet t a; ts = touched t accs (extractSet t a) in
       LRU_findVictim a t' = (if set s \<subseteq> set ts then hd (remdups ts) else last (filter (\<lambda>b. b \<notin> set ts) s)))"
proof -
  obtain t' where t': "foldE (lru_access t2c) accs t = Inr t'" "same_tags t t'"
    "\<forall>i < length (ts_sets t). ts_sets t' ! i = lru_order (touched t accs i) (ts_sets t ! i)"
    using lru_run [OF assms] by blast
  have ok': "tags_ok t'" using same_tags_ok [OF assms(1) t'(2)] .
  have "let s = ts_sets t ! extractSet t a; ts = touched t accs (extractSet t a) in
       LRU_findVictim a t' = (if set s \<subseteq> set ts then hd (remdups ts) else last (filter (\<lambda>b. b \<notin> set ts) s))" for a
  proof -
    let ?i = "extractSet t a" let ?s = "ts_sets t ! ?i" let ?ts = "touched t accs ?i"
    have i: "?i < length (ts_sets t)" "extractSet t' a = ?i" "?i < length (ts_sets t')"
      using extractSet_less [OF assms(1)] same_tags_extract [OF t'(2)] t'(2) by (simp_all add: same_tags_def)
    have len: "length (ts_sets t' ! ?i) = unat (ts_assoc t')" and "ts_assoc t' \<noteq> 0"
      using ok' i(3) by (simp_all add: tags_ok_def set_ok_def geom_ok_def Let_def)
    then have ne: "ts_sets t' ! ?i \<noteq> []" using unat_gt_0 [of "ts_assoc t'"] by auto
    then have "LRU_findVictim a t' = last (ts_sets t' ! ?i)" using i len by (simp add: LRU_findVictim_def last_conv_nth)
    then have "LRU_findVictim a t' = last (lru_order ?ts ?s)" "lru_order ?ts ?s \<noteq> []" using t'(3) i(1) ne by auto
    then show ?thesis
      by (auto simp: lru_order_def last_append last_rev Let_def filter_empty_conv subset_iff filter_id_conv)
  qed
  then show ?thesis using t'(1) ok' same_tags_find [OF assms(1) t'(2)] by blast
qed


section \<open>Construction and addresses\<close>

lemma isPowerOf2_exp_u32:
  fixes n :: u32
  assumes "isPowerOf2 n"
  shows "\<exists>k < 32. n = 2 ^ k \<and> floorLog2_u32 n = Inr (int k)"
proof -
  obtain y where y: "floorLog2_u32 n = Inr (int y)" "is_log2 y (unat n)"
    using floorLog2_u32_correct [of n] assms by (auto simp: isPowerOf2_def)
  have u: "unat n = 2 ^ y" using isPowerOf2_log [OF assms y(2)] .
  then have "2 ^ y < (2 :: nat) ^ 32" using unsigned_less [of n, where ?'a = nat] by simp
  then have k: "y < 32" by (simp only: power_strict_increasing_iff)
  then have "unat n = unat (2 ^ y :: u32)" using u by (simp add: unat_exp_u32)
  then have "n = 2 ^ y" by (rule unsigned_word_eqI)
  then show ?thesis using y(1) k by blast
qed

lemma concat_map_nth:
  "\<lbrakk> i < n; j < m \<rbrakk> \<Longrightarrow> concat (map (\<lambda>i. map (f i) [0..<m]) [0..<n]) ! (i * m + j) = f i j \<and>
     i * m + j < length (concat (map (\<lambda>i. map (f i) [0..<m]) [0..<n]))"
proof (induction n)
  case (Suc n)
  let ?c = "concat (map (\<lambda>i. map (f i) [0..<m]) [0..<n])"
  have len: "length ?c = n * m" by (simp add: length_concat comp_def sum_list_triv)
  show ?case
  proof (cases "i < n")
    case True
    then show ?thesis using Suc by (simp add: nth_append)
  next
    case False
    then have "i = n" using Suc.prems by simp
    then show ?thesis using Suc.prems len by (simp add: nth_append)
  qed
qed simp

lemma BaseSetAssoc_new_geom:
  assumes "BaseSetAssoc_new cap bs as lat seq ms = Inr t"
  shows "geom_ok t"
    and "ts_sets t = map (\<lambda>i. map (\<lambda>j. i * unat (ts_assoc t) + j) [0..<unat (ts_assoc t)]) [0..<unat (ts_numSets t)]"
    and "ts_blks t = concat (map (\<lambda>i. map (new_blk (ts_blkSize t) i) [0..<unat (ts_assoc t)]) [0..<unat (ts_numSets t)])"
proof -
  let ?b = "of_int bs :: u32"
  obtain nsets where ns: "num_sets cap bs as = Inr nsets" using assms by (auto simp: BaseSetAssoc_new_def bindE_Inr_iff)
  have p: "isPowerOf2 ?b" "isPowerOf2 nsets"
    using assms ns by (auto simp: BaseSetAssoc_new_def Let_def split: if_splits)
  obtain k n where k: "k < 32" "?b = 2 ^ k" "floorLog2_u32 ?b = Inr (int k)" and n: "n < 32" "nsets = 2 ^ n" "floorLog2_u32 nsets = Inr (int n)"
    using isPowerOf2_exp_u32 [OF p(1)] isPowerOf2_exp_u32 [OF p(2)] by blast
  have t: "ts_blkSize t = ?b" "ts_numSets t = nsets" "ts_assoc t = of_int as" "ts_assoc t \<noteq> 0" "ts_setShift t = k" "ts_tagShift t = k + n"
    "ts_setMask t = nsets - 1" "ts_blkMask t = ?b - 1"
    and s: "ts_sets t = map (\<lambda>i. map (\<lambda>j. i * unat (ts_assoc t) + j) [0..<unat (ts_assoc t)]) [0..<unat (ts_numSets t)]"
      "ts_blks t = concat (map (\<lambda>i. map (new_blk (ts_blkSize t) i) [0..<unat (ts_assoc t)]) [0..<unat (ts_numSets t)])"
    using assms ns k(3) n(3) by (auto simp: BaseSetAssoc_new_def Let_def nat_add_distrib split: if_splits)
  show "geom_ok t" unfolding geom_ok_def using t k n by (auto simp: mask_eq_exp_minus_1)
  show "ts_sets t = map (\<lambda>i. map (\<lambda>j. i * unat (ts_assoc t) + j) [0..<unat (ts_assoc t)]) [0..<unat (ts_numSets t)]"
    "ts_blks t = concat (map (\<lambda>i. map (new_blk (ts_blkSize t) i) [0..<unat (ts_assoc t)]) [0..<unat (ts_numSets t)])" using s by blast+
qed

lemma BaseSetAssoc_new_ok:
  assumes "BaseSetAssoc_new cap bs as lat seq ms = Inr t"
  shows "tags_ok t"
proof -
  note g = BaseSetAssoc_new_geom [OF assms]
  let ?w = "unat (ts_assoc t)"
  have "set_ok t i" if i: "i < unat (ts_numSets t)" for i
  proof -
    have blk: "ts_blks t ! (i * ?w + j) = new_blk (ts_blkSize t) i j" "i * ?w + j < length (ts_blks t)" if "j < ?w" for j
      using concat_map_nth [OF i that, of "new_blk (ts_blkSize t)"] g(3) by simp_all
    have s: "ts_sets t ! i = map (\<lambda>j. i * ?w + j) [0..<?w]" using g(2) i by simp
    have mem: "b < length (ts_blks t) \<and> cb_set (ts_blks t ! b) = int i \<and> \<not> isValid (ts_blks t ! b)" if b: "b \<in> set (ts_sets t ! i)" for b
    proof -
      obtain j where "j \<in> set [0..<?w]" "b = i * ?w + j" using b unfolding s set_map by (elim imageE)
      then show ?thesis using blk [of j] by (simp add: isValid_def new_blk_def blk_invalidate_def clearLoadLocks_def)
    qed
    have "distinct (ts_sets t ! i)" "length (ts_sets t ! i) = ?w" using s by (simp_all add: distinct_map inj_on_def)
    then show ?thesis using mem by (simp add: set_ok_def Let_def blk_match_def)
  qed
  then show ?thesis using g by (simp add: tags_ok_def)
qed

lemma geom_roundtrip:
  assumes "geom_ok t"
  shows "regenerateBlkAddr t (extractTag t a) (extractSet t a) = blkAlign t a"
    and "extractTag t (blkAlign t a) = extractTag t a" and "extractSet t (blkAlign t a) = extractSet t a"
proof -
  obtain k n where k: "k < 32" "n < 32" "ts_setShift t = k" "ts_tagShift t = k + n" "ts_setMask t = mask n" "ts_blkMask t = mask k"
    using assms by (auto simp: geom_ok_def)
  have m: "ucast (mask j :: u32) = (mask j :: u64)" if "j < 32" for j using that by (intro bit_word_eqI) (auto simp: bit_simps)
  note defs = regenerateBlkAddr_def extractTag_def extractSet_def blkAlign_def k(3-6) m [OF k(1)] m [OF k(2)]
  show "regenerateBlkAddr t (extractTag t a) (extractSet t a) = blkAlign t a"
    unfolding defs
  proof (rule bit_word_eqI)
    fix m
    show "bit (push_bit (k + n) (drop_bit (k + n) a) OR push_bit k (of_nat (unat (drop_bit k a AND mask n)))) m = bit (a AND NOT (mask k)) m"
      if "m < LENGTH(64)" using that by (cases "k + n \<le> m"; cases "k \<le> m") (auto simp: bit_simps)
  qed
  have "drop_bit (k + n) (a AND NOT (mask k)) = drop_bit (k + n) a"
    by (rule bit_word_eqI) (auto simp: bit_simps dest: bit_imp_le_length)
  then show "extractTag t (blkAlign t a) = extractTag t a" unfolding defs .
  have "drop_bit k (a AND NOT (mask k)) AND mask n = drop_bit k a AND mask n"
    by (rule bit_word_eqI) (auto simp: bit_simps dest: bit_imp_le_length)
  then show "extractSet t (blkAlign t a) = extractSet t a" unfolding defs by simp
qed

text \<open>
  C18: every tag store that the constructor builds is well formed and empty, and tag and set of an
  address stand for its block: they give back the aligned address, and two addresses agree in both
  exactly if they are in the same block.
\<close>

theorem blk_addr_roundtrip:
  assumes "BaseSetAssoc_new cap block_size assoc lat seq masters = Inr t"
  shows "tags_ok t \<and> findBlock t a sec = None \<and>
    regenerateBlkAddr t (extractTag t a) (extractSet t a) = blkAlign t a \<and>
    (extractTag t a = extractTag t a' \<and> extractSet t a = extractSet t a' \<longleftrightarrow> blkAlign t a = blkAlign t a')"
proof -
  note ok = BaseSetAssoc_new_ok [OF assms] and g = BaseSetAssoc_new_geom [OF assms]
  have "\<not> isValid b" if "b \<in> set (ts_blks t)" for b
    using that g(3) by (auto simp: isValid_def new_blk_def blk_invalidate_def clearLoadLocks_def)
  then have "\<not> blk_match (ts_blks t) tag sec b" if "b < length (ts_blks t)" for b tag
    using that by (simp add: blk_match_def)
  then have "findBlock t a sec \<noteq> Some b" for b
    using findBlock_iff [OF ok, of a sec b] tags_blk [OF ok extractSet_less [OF ok, of a], of b] by blast
  then have "findBlock t a sec = None" by (cases "findBlock t a sec") auto
  then show ?thesis using ok geom_roundtrip [OF g(1), of a] geom_roundtrip [OF g(1), of a'] by metis
qed


lemma demo_new: "\<exists>t. BaseSetAssoc_new 32 4 2 2 False 3 = Inr t"
  by (simp add: BaseSetAssoc_new_def num_sets_def isPowerOf2_def leastSigBit_def floorLog2_u32_def flog_step_def Let_def)

theorem blk_addr_roundtrip_witness:
  "\<exists>t. BaseSetAssoc_new 32 4 2 2 False 3 = Inr t \<and> tags_ok t \<and> findBlock t 0x1234 False = None \<and>
    regenerateBlkAddr t (extractTag t 0x1234) (extractSet t 0x1234) = blkAlign t 0x1234"
  using demo_new blk_addr_roundtrip [of 32 4 2 2 False 3] by blast

definition demo_blk :: "nat \<Rightarrow> addr \<Rightarrow> cache_blk" where
  "demo_blk i tg = (new_blk 4 i 0)\<lparr>cb_tag := tg, cb_status := BlkValid OR BlkReadable\<rparr>"

definition demo_tags :: tag_store where
  "demo_tags = \<lparr>ts_blkSize = 4, ts_accessLatency = 2, ts_assoc = 2, ts_numSets = 2, ts_sequentialAccess = False,
     ts_setShift = 2, ts_tagShift = 3, ts_setMask = 1, ts_blkMask = 3, ts_maxMasters = 3,
     ts_sets = [[0, 1], [2, 3]], ts_blks = [demo_blk 0 5, demo_blk 0 6, demo_blk 1 5, demo_blk 1 7],
     ts_warmupBound = 4, ts_warmedUp = False, ts_warmupCycle = 0, ts_tagsInUse = 0, ts_replacements = 0, ts_totalRefs = 0,
     ts_sampledRefs = 0, ts_tagAccesses = 0, ts_dataAccesses = 0, ts_occupancies = [0, 0, 0]\<rparr>"

lemma demo_geom: "geom_ok demo_tags"
  unfolding geom_ok_def by (intro conjI exI [of _ 2] exI [of _ 1]) (simp_all add: demo_tags_def mask_eq_exp_minus_1)

lemma demo_tags_ok: "tags_ok demo_tags"
proof -
  have "set_ok demo_tags 0" "set_ok demo_tags (Suc 0)"
    by (auto simp: set_ok_def demo_tags_def Let_def blk_match_def demo_blk_def new_blk_def)
  then show ?thesis using demo_geom by (auto simp: tags_ok_def demo_tags_def less_Suc_eq)
qed

lemma demo_hits: "findBlock demo_tags 0x28 False = Some 0" "findBlock demo_tags 0x30 False = Some 1"
  by (simp_all add: findBlock_def findBlk_def findBlk_way_def demo_tags_def extractSet_def extractTag_def demo_blk_def new_blk_def
      isValid_def isSecure_def BlkValid_def BlkReadable_def BlkSecure_def)

theorem lru_victim_witness:
  "\<exists>t'. foldE (lru_access (\<lambda>x. x)) [(0, 0x28, False), (1, 0x30, False), (2, 0x28, False)] demo_tags = Inr t' \<and>
    tags_ok t' \<and> LRU_findVictim 0x38 t' = 1"
proof -
  let ?accs = "[(0, 0x28, False), (1, 0x30, False), (2, 0x28, False)] :: (tick \<times> addr \<times> bool) list"
  have e: "extractSet demo_tags 0x28 = 0" "extractSet demo_tags 0x30 = 0" "extractSet demo_tags 0x38 = 0"
    by (simp_all add: extractSet_def demo_tags_def)
  have "touched demo_tags ?accs 0 = [0, 1, 0]" by (simp add: touched_def e demo_hits)
  moreover have "ts_sets demo_tags ! 0 = [0, 1]" by (simp add: demo_tags_def)
  moreover have "\<forall>(now, a, sec) \<in> set ?accs. findBlock demo_tags a sec \<noteq> None" by (simp add: demo_hits)
  note lru_victim [OF demo_tags_ok this, of "\<lambda>x. x"]
  then obtain t' where "foldE (lru_access (\<lambda>x. x)) ?accs demo_tags = Inr t'" "tags_ok t'"
    "\<forall>a. let s = ts_sets demo_tags ! extractSet demo_tags a; ts = touched demo_tags ?accs (extractSet demo_tags a) in
       LRU_findVictim a t' = (if set s \<subseteq> set ts then hd (remdups ts) else last (filter (\<lambda>b. b \<notin> set ts) s))"
    by (elim exE conjE)
  ultimately show ?thesis using e(3) by (auto simp: Let_def dest!: spec [of _ "0x38"])
qed

text \<open>The number of sets divides by the associativity before it is checked.\<close>

lemma assoc_zero_traps: "BaseSetAssoc_new cap block_size 0 lat seq masters = Inl Undefined"
  by (simp add: BaseSetAssoc_new_def num_sets_def)

section \<open>Load locked and store conditional\<close>

datatype lock_op = Load_Locked mem_req | Store bool mem_req


text \<open>No store of the sequence overlaps the lock.\<close>

definition survives :: "blk_lock \<Rightarrow> lock_op list \<Rightarrow> bool" where
  "survives l ops = list_all (\<lambda>x. case x of Load_Locked req \<Rightarrow> True | Store llsc w \<Rightarrow> \<not> overlapping l w) ops"

lemma survives_simps [simp]:
  "survives l []" "survives l (Load_Locked req # ops) = survives l ops"
  "survives l (Store llsc w # ops) = (\<not> overlapping l w \<and> survives l ops)"
  by (simp_all add: survives_def)






end
