(* ===== verification/Spec2Isabelle.thy ===== *)
theory Spec2Isabelle
  imports Nvp_System_Props Event_Queue_Main Ras_Props Addr_Range_Props Page_Map_Props Cache_Tags_Props
begin

text \<open>
  Verification of gem5-nvpsim, the gem5 simulator extended with energy harvesting for nonvolatile
  processors. Paths below are relative to \<open>src/gem5/src\<close>.

  \<^bold>\<open>The program.\<close> An energy manager (\<open>engy/energy_mgmt.cc\<close>) holds the energy of a capacitor. A harvesting
  event adds the next sample of an energy profile; objects subtract what they consume. After every
  change a state machine (\<open>engy/state_machine.cc\<close> and its relatives) compares the energy with its
  thresholds and may send a message, which an event broadcasts over the energy ports
  (\<open>engy/energy_port.cc\<close>) to the CPU (\<open>cpu/simple/atomic.cc\<close>) and to virtual peripheral devices
  (\<open>vdev/vdev.cc\<close>). On a power failure the CPU removes its tick event and devices abandon their
  operation; when power returns they schedule them again, and devices make the CPU wait. All of this
  runs on gem5's event queue (\<open>sim/eventq.cc\<close>). Beside it stand the branch predictors
  (\<open>cpu/pred\<close>) that the pipelined CPU models share, and three structures of the memory system: the map
  from address ranges to ports and memories (\<open>base/addr_range_map.hh\<close>), the page table of a process
  (\<open>mem/page_table.cc\<close>) and the tags of the caches (\<open>mem/cache/tags\<close>).

  \<^bold>\<open>Conventions.\<close> Code that can fail returns \<open>'a res = sim_error + 'a\<close>: a failed \<open>assert\<close>, \<open>panic\<close>, \<open>fatal\<close> and
  undefined behaviour (null pointers, indices out of range, division by zero) are values of
  \<open>sim_error\<close>. Ticks and addresses are \<^typ>\<open>64 word\<close>, \<open>unsigned\<close> is \<^typ>\<open>32 word\<close>, both with wrap-around.
  \<open>double\<close> is IEEE binary64 with rounding to nearest even, over the rationals. Calls out of a component
  are returned as lists and carried out by its caller. Statistics and debug output are left out.

  \<^bold>\<open>Theories and what they show.\<close>
  \<^item> \<open>Nvp_Prelude\<close>: errors, their monad and folds, vectors. \<open>Binary64\<close>: doubles, exactness up to \<open>2^53\<close>,
    monotonicity of rounding.
  \<^item> \<open>Event_Handle\<close>: an event as its owner sees it. \<open>Event_Queue\<close>: the linked list of bins with
    \<open>schedule\<close>, \<open>deschedule\<close>, \<open>reschedule\<close>, \<open>insert\<close>, \<open>remove\<close>, \<open>serviceOne\<close>, the asynchronous list and
    \<open>debugVerify\<close>, on a heap of events with their two links. \<open>Event_Queue_Props\<close>, \<open>Event_Queue_Sched\<close>,
    \<open>Event_Queue_Loop\<close> and \<open>Event_Queue_Main\<close>: the list represents a sorted sequence, the operations are
    those of the sequence and, on a single event, those of \<open>Event_Handle\<close>; events are serviced in
    order; \<open>serviceEvents\<close> and \<open>doSimLoop\<close> return.
  \<^item> \<open>Energy_SM\<close>, \<open>Energy_SM_Props\<close>: the state machines, their common contract as the locale
    \<open>sm_contract\<close>, which messages they send and where they come to rest. \<open>Energy_Port\<close>: ports and
    broadcast. \<open>Energy_Mgmt\<close>, \<open>Energy_Mgmt_Props\<close>: the manager and the harvesters; the energy stays in
    its band, messages leave in order, the profile is consumed in file order; the locale
    \<open>energy_listener\<close> is what a listener promises.
  \<^item> \<open>Int_Math\<close>, \<open>Clocked_Object\<close>: \<open>base/intmath.hh\<close>, \<open>base/bitfield.hh\<close> and clock edges.
  \<^item> \<open>Virtual_Device\<close>, \<open>Virtual_Device_Props\<close>: the device; its flags and events always describe one of
    five modes; it never fails when used as intended, and resumes interrupted tasks.
  \<^item> \<open>Atomic_CPU\<close>, \<open>Atomic_CPU_Props\<close>: the device table, the tick, the device hooks and the energy handler
    of the CPU; when its next tick is due after each of them.
  \<^item> \<open>Branch_Pred\<close>, \<open>Bpred_Unit\<close>: saturating counters, the local, bi-mode and tournament predictors, the
    branch target buffer, the return address stack and the prediction unit. \<open>Bpred_Props\<close>: the locale
    \<open>direction_predictor\<close> of what the unit relies on, interpreted for all three predictors.
    \<open>Bpred_Unit_Props\<close>, \<open>Ras_Props\<close>: squashing undoes speculation, no index or assertion fails, the stack is
    a stack; and where the unit loses track.
  \<^item> \<open>Addr_Range\<close>, \<open>Addr_Range_Props\<close>: plain and interleaved ranges and the ordered map; a lookup returns the
    entry that contains the address, an insertion keeps the map well formed; overlaps that it misses.
  \<^item> \<open>Page_Table\<close>, \<open>Page_Table_Props\<close>, \<open>Page_Map_Props\<close>: the page table with its cache refines a plain map; a
    mapped region translates as mapped, for instruction sets that satisfy the locale \<open>tlb_contract\<close>
    (MIPS and Power); stale entries after moves onto mapped pages.
  \<^item> \<open>Cache_Tags\<close>, \<open>Cache_Tags_Props\<close>: blocks, load locks, sets and the set-associative tag store with LRU and
    random replacement; the victim is the least recently used block, tag and set determine the block,
    and when a store conditional succeeds.
  \<^item> \<open>Nvp_System\<close>, \<open>Nvp_System_Props\<close> and this theory: manager, CPU and devices together, from start on, under
    any order of events that the queue may service.

  \<^bold>\<open>Bounds.\<close> The event loops are \<open>partial_function (option)\<close>; that they return is proved, under a
  condition on the handlers (\<open>handler_ok\<close>). Loops over lists are structural; the loops of the page table over a region have
  as many rounds of fuel as the region has bytes and one more, and a page has at least one byte. Statements about doubles
  that hold ticks are for ticks up to \<open>2^53\<close> (two and a half hours of simulated picoseconds), beyond
  which the conversion in \<open>virtualDeviceRecover\<close> rounds. Instruction execution is an input of the CPU
  tick: a list of outcomes of the loop iterations, which must be long enough.

  \<^bold>\<open>Not modelled.\<close> The instruction sets (generated code), the controllers, crossbars and ports of the
  memory system, the pipelined CPU models, concrete devices, statistics, checkpoints, system calls and the Python layer apart from the order of
  start: none of them takes part in the energy framework. \<open>engy/ModeCvrt.cc\<close> is not built and does not
  compile. Of the event queue, the lock and the threads of a parallel simulation are left out; of
  \<open>BaseCPU\<close> and \<open>AtomicSimpleCPU\<close>, memory accesses and threads.
\<close>

section \<open>The whole system\<close>










text \<open>
  C40: the order in which the objects are bound to the manager matters. If a device that has lost its
  power while it was in use is bound before the CPU, the message that turns the power on fails: the
  device tells the CPU to wait for its initialisation, and the CPU, which has not heard the message
  yet, has no tick that could be postponed.
\<close>

theorem device_before_cpu_fails:
  assumes "ports_owned (sys_net s)" "slave_list (meport (sys_net s 0)) = 2 # ss" "sys_devs s = d # ds"
    and "in_mode Down d" "need_recover d" "now \<le> now + delay_set d"
    and "\<not> scheduled (cpu_tickEvent (sys_cpu s))" "recover_time (sys_cpu s) = Fin 0"
    and "unat (ev_when (cpu_tickEvent (sys_cpu s))) + unat (delay_set d) \<le> 2 ^ 53" "msg_togo s = msg # ms" "msg_type msg = 2"
  shows "sys_exec now Sys_Broadcast s = Inl Assert_Failed"
proof -
  let ?s = "s\<lparr>event_msg := ev_fire (event_msg s)\<rparr>"
  obtain d' cs where "vdev_power_on now d = Inr (d', Call_Recover (delay_set d) # cs)"
    using power_on_mode [OF assms(4) _ assms(6)] assms(5) by auto
  then have "sys_dispatch now 2 msg ?s = Inl Assert_Failed"
    using assms(3,11) virtualDeviceRecover_unscheduled [OF assms(8,9,7)]
    by (simp add: sys_dispatch_def sys_dev_msg_def VirtualDevice_handleMsg_def)
  then have "MasterEnergyPort_broadcastMsg (sys_dispatch now) (sys_net ?s) 0 msg ?s = Inl Assert_Failed"
    using assms(1,2) by (simp add: MasterEnergyPort_broadcastMsg_def EnergyPort_handleMsg_def ports_owned_def)
  then show ?thesis using assms(10) by (simp add: broadcastMsg_def)
qed

definition example_misbound :: nvp_sys where
  "example_misbound = (sys_new (EnergyMgmt_new (Fin 0) (Fin 1) 30000
       (Some (Simple_SM ((SimpleEnergySM_new (Fin 100) (Fin 500) [])\<lparr>simple_state := Simple_On\<rparr>))) Simple_Harvester (Fin 2))
     (AtomicSimpleCPU_new example_cpu) [example_vdev\<lparr>reg := VDEV_CHAOS, need_recover := True\<rparr>])
     \<lparr>msg_togo := [sm_msg 2], sys_net := MasterEnergyPort_bindSlave 0 1 (MasterEnergyPort_bindSlave 0 2
        (\<lambda>i. EnergyObject_setSimObject i EnergyObject_new))\<rparr>"

theorem device_before_cpu_fails_witness:
  "slave_list (meport (sys_net example_misbound 0)) = [2, 1] \<and> sys_exec 60000 Sys_Broadcast example_misbound = Inl Assert_Failed"
proof -
  let ?d = "example_vdev\<lparr>reg := VDEV_CHAOS, need_recover := True\<rparr>"
  have n: "ports_owned (sys_net example_misbound)" "slave_list (meport (sys_net example_misbound 0)) = [2, 1]"
    by (simp_all add: example_misbound_def ports_owned_def MasterEnergyPort_bindSlave_def SlaveEnergyPort_setMaster_def
        EnergyObject_setSimObject_def EnergyObject_new_def MasterEnergyPort_new_def)
  have d: "sys_devs example_misbound = [?d]" "in_mode Down ?d" "need_recover ?d" "(60000 :: tick) \<le> 60000 + delay_set ?d"
    by (simp_all add: example_misbound_def in_mode.simps example_vdev_def VirtualDevice_new_def bit_flag)
  have c: "\<not> scheduled (cpu_tickEvent (sys_cpu example_misbound))" "recover_time (sys_cpu example_misbound) = Fin 0"
    "unat (ev_when (cpu_tickEvent (sys_cpu example_misbound))) + unat (delay_set ?d) \<le> 2 ^ 53"
    "msg_togo example_misbound = [sm_msg 2]" "msg_type (sm_msg 2) = 2"
    by (simp_all add: example_misbound_def AtomicSimpleCPU_new_def example_vdev_def VirtualDevice_new_def sm_msg_def)
  show ?thesis using device_before_cpu_fails [OF n d c] n(2) by simp
qed

end
